(* ===== verification/Prelude.thy ===== *)
theory Prelude
  imports Main "HOL-Library.Word" "HOL-Library.Multiset" "HOL-Library.AList"
begin

text \<open>
  Shared vocabulary of the development: how the Go language and the parts of its standard
  library that the repository uses are rendered in HOL. A run-time panic is a value of
  \<open>go_panic\<close> on the left of a sum; slices are lists, indexed with a bounds check; an
  \<open>int32\<close> is an integer kept in range by \<open>to_int32\<close>; a Go map is an association list
  with distinct keys (so that \<open>len\<close> and \<open>range\<close> are executable); \<open>sort.Sort\<close>,
  \<open>strings.Split\<close>, \<open>strings.Join\<close>, decimal formatting and the FNV-1a hash are
  executable functions. The generic lemmas here carry the component proofs.
\<close>

unbundle bit_operations_syntax

named_theorems go_defs \<open>definitions of small helpers, unfolded together\<close>

section \<open>Panics, slices and fixed-width integers\<close>

datatype go_panic =
    IndexOutOfRange
  | SliceBounds
  | NilDereference
  | ExplicitPanic string

type_synonym 'a run = "go_panic + 'a"

text \<open>\<open>xs[i]\<close> on a slice, with \<open>i\<close> a Go \<open>int\<close>.\<close>

definition go_index :: "'a list \<Rightarrow> int \<Rightarrow> 'a run" where
  "go_index xs i =
     (if 0 \<le> i \<and> i < int (length xs) then Inr (xs ! nat i) else Inl IndexOutOfRange)"

text \<open>\<open>xs[lo:hi]\<close> on a slice whose capacity is its length.\<close>

definition go_slice :: "'a list \<Rightarrow> int \<Rightarrow> int \<Rightarrow> 'a list run" where
  "go_slice xs lo hi =
     (if 0 \<le> lo \<and> lo \<le> hi \<and> hi \<le> int (length xs)
      then Inr (take (nat (hi - lo)) (drop (nat lo) xs)) else Inl SliceBounds)"

text \<open>The conversion \<open>int32(x)\<close> of a Go \<open>int\<close>: the low 32 bits, read as two's complement.\<close>

definition to_int32 :: "int \<Rightarrow> int" where
  "to_int32 x = signed_take_bit 31 x"

lemma go_index_Inr:
  "go_index xs i = Inr x \<longleftrightarrow> 0 \<le> i \<and> i < int (length xs) \<and> x = xs ! nat i"
  by (auto simp: go_index_def)

lemma to_int32_id: "- (2 ^ 31) \<le> x \<Longrightarrow> x < 2 ^ 31 \<Longrightarrow> to_int32 x = x"
  by (simp add: to_int32_def signed_take_bit_int_eq_self_iff)

lemma to_int32_range: "- (2 ^ 31) \<le> to_int32 x \<and> to_int32 x < 2 ^ 31"
  using signed_take_bit_int_greater_eq_minus_exp [of 31 x] signed_take_bit_int_less_exp [of 31 x]
  by (simp add: to_int32_def)

section \<open>Loops over slices\<close>

text \<open>The idiom \<open>for i, x := range xs { if P(x) { return i } } return -1\<close>.\<close>

fun find_index_from :: "('a \<Rightarrow> bool) \<Rightarrow> int \<Rightarrow> 'a list \<Rightarrow> int" where
  "find_index_from P i [] = -1"
| "find_index_from P i (x # xs) = (if P x then i else find_index_from P (i + 1) xs)"

definition find_index :: "('a \<Rightarrow> bool) \<Rightarrow> 'a list \<Rightarrow> int" where
  "find_index P xs = find_index_from P 0 xs"

lemma find_index_from_eq:
  "find_index_from P i xs =
     (if \<exists>x \<in> set xs. P x then i + int (length (takeWhile (\<lambda>x. \<not> P x) xs)) else -1)"
  by (induction xs arbitrary: i) auto

lemma find_index_none [simp]: "find_index P xs = -1 \<longleftrightarrow> (\<forall>x \<in> set xs. \<not> P x)"
  by (auto simp: find_index_def find_index_from_eq)

lemma length_takeWhile_ex: "\<exists>x \<in> set xs. P x \<Longrightarrow> length (takeWhile (\<lambda>x. \<not> P x) xs) < length xs"
  by (induction xs) auto

lemma find_index_some:
  assumes "\<exists>x \<in> set xs. P x"
  shows "0 \<le> find_index P xs" and "find_index P xs < int (length xs)"
    and "P (xs ! nat (find_index P xs))"
proof -
  let ?n = "length (takeWhile (\<lambda>x. \<not> P x) xs)"
  have eq: "find_index P xs = int ?n"
    using assms by (simp add: find_index_def find_index_from_eq)
  have lt: "?n < length xs" using assms by (rule length_takeWhile_ex)
  show "0 \<le> find_index P xs" "find_index P xs < int (length xs)" using eq lt by simp_all
  have "\<not> \<not> P (xs ! ?n)"
    using lt by (metis (no_types, lifting) nth_length_takeWhile)
  then show "P (xs ! nat (find_index P xs))" using eq by simp
qed

lemma find_index_split:
  assumes "\<exists>x \<in> set xs. P x"
  obtains ys y zs where "xs = ys @ y # zs" and "P y" and "\<forall>x \<in> set ys. \<not> P x"
    and "find_index P xs = int (length ys)"
proof -
  obtain ys y zs where xs: "xs = ys @ y # zs" "P y" "\<forall>x \<in> set ys. \<not> P x"
    using assms by (metis split_list_first_prop)
  moreover have "find_index P xs = int (length ys)"
    using xs by (simp add: find_index_def find_index_from_eq)
  ultimately show ?thesis using that by blast
qed

lemma find_index_unique:
  assumes "i < length xs" and "P (xs ! i)" and "\<And>j. j < length xs \<Longrightarrow> P (xs ! j) \<Longrightarrow> j = i"
  shows "find_index P xs = int i"
proof -
  have ex: "\<exists>x \<in> set xs. P x" using assms(1,2) nth_mem by blast
  note f = find_index_some [OF ex]
  have "nat (find_index P xs) = i"
    by (rule assms(3)) (use f in \<open>auto simp: nat_less_iff\<close>)
  with f(1) show ?thesis by simp
qed

section \<open>Go maps\<close>

text \<open>
  A Go map is an association list with distinct keys. \<open>range\<close> visits the entries in list
  order, one of the orders the language permits; properties are stated for every list, so
  they cover every order.
\<close>

abbreviation wf_map :: "('k \<times> 'v) list \<Rightarrow> bool" where
  "wf_map m \<equiv> distinct (map fst m)"

abbreviation mem_key :: "'k \<Rightarrow> ('k \<times> 'v) list \<Rightarrow> bool" where
  "mem_key k m \<equiv> map_of m k \<noteq> None"

lemma map_of_update [simp]: "map_of (AList.update k v m) = (map_of m)(k \<mapsto> v)"
  by (rule update_conv')

lemma map_of_delete [simp]: "map_of (AList.delete k m) = (map_of m)(k := None)"
  by (rule delete_conv')

lemma wf_map_update [simp]: "wf_map m \<Longrightarrow> wf_map (AList.update k v m)"
  by (rule distinct_update)

lemma wf_map_delete [simp]: "wf_map m \<Longrightarrow> wf_map (AList.delete k m)"
  by (rule distinct_delete)

lemma mem_key_iff: "mem_key k m \<longleftrightarrow> k \<in> fst ` set m"
  by (simp add: map_of_eq_None_iff)

lemma wf_map_map_of: "wf_map m \<Longrightarrow> map_of m k = Some v \<longleftrightarrow> (k, v) \<in> set m"
  by (rule map_of_eq_Some_iff)

section \<open>Evolution\<close>

text \<open>
  The contract between operations that change a shared object and the invariants that survive them:
  each operation relates the old and the new object by a reflexive and transitive relation, so any
  sequence of them, and any loop over them, does too.
\<close>

locale evolution =
  fixes le :: "'s \<Rightarrow> 's \<Rightarrow> bool"
  assumes le_refl: "le s s"
    and le_trans: "le s s' \<Longrightarrow> le s' s'' \<Longrightarrow> le s s''"
begin

lemma foldl_le: "(\<And>s x. le s (f s x)) \<Longrightarrow> le s (foldl f s xs)"
  by (induction xs arbitrary: s) (auto intro: le_refl le_trans)

lemma keeps:
  assumes "\<And>s s'. le s s' \<Longrightarrow> I s \<Longrightarrow> I s'" and "\<And>s x. le s (f s x)" and "I s"
  shows "I (foldl f s xs)"
  using assms(1) [OF foldl_le [OF assms(2)] assms(3)] .

end

end
