(* ===== verification/Go_Std.thy ===== *)
theory Go_Std
  imports Prelude
begin

text \<open>
  The standard library functions the repository calls, as executable definitions:
  \<open>sort.Sort\<close> (\<open>sort_Sort\<close>), \<open>strings.Split\<close> on a one-byte separator
  (\<open>split_on\<close>), \<open>strings.Join\<close> (\<open>join\<close>), \<open>strings.HasSuffix\<close>,
  \<open>strconv.Itoa\<close> and the \<open>%v\<close>/\<open>%d\<close> verbs on integers (\<open>show_int\<close>).
  Go's \<open>sort.Sort\<close> runs the insertion sort below on slices of at most 12 elements; on
  longer slices it may order elements with equal keys differently. The lemmas of the locale
  \<open>sort_interface\<close> use only that the result is a sorted permutation.
\<close>

section \<open>sort.Sort\<close>

text \<open>
  The inner loop of \<open>insertionSort\<close>: swap the new element to the left while it is less
  than its left neighbour. The prefix is kept reversed, so its last element comes first.
\<close>

fun sink :: "('a \<Rightarrow> 'a \<Rightarrow> bool) \<Rightarrow> 'a \<Rightarrow> 'a list \<Rightarrow> 'a list" where
  "sink lt x [] = [x]"
| "sink lt x (y # ys) = (if lt x y then y # sink lt x ys else x # y # ys)"

definition sort_Sort :: "('a \<Rightarrow> 'a \<Rightarrow> bool) \<Rightarrow> 'a list \<Rightarrow> 'a list" where
  "sort_Sort lt xs = rev (foldl (\<lambda>p x. sink lt x p) [] xs)"

lemma mset_sink [simp]: "mset (sink lt x ys) = add_mset x (mset ys)"
  by (induction ys) auto

lemma mset_foldl_sink: "mset (foldl (\<lambda>p x. sink lt x p) p xs) = mset p + mset xs"
  by (induction xs arbitrary: p) auto

lemma mset_sort_Sort [simp]: "mset (sort_Sort lt xs) = mset xs"
  by (simp add: sort_Sort_def mset_foldl_sink)

lemma set_sort_Sort [simp]: "set (sort_Sort lt xs) = set xs"
  by (rule mset_eq_setD [OF mset_sort_Sort])

lemma length_sort_Sort [simp]: "length (sort_Sort lt xs) = length xs"
  by (rule mset_eq_length [OF mset_sort_Sort])

lemma distinct_sort_Sort [simp]: "distinct (sort_Sort lt xs) = distinct xs"
  by (rule mset_eq_imp_distinct_iff [OF mset_sort_Sort])

lemma distinct_map_sort_Sort [simp]: "distinct (map f (sort_Sort lt xs)) = distinct (map f xs)"
  by (metis mset_map mset_eq_imp_distinct_iff mset_sort_Sort)

lemma sort_Sort_Nil [simp]: "sort_Sort lt [] = []"
  by (simp add: sort_Sort_def)

lemma sort_Sort_eq_Nil [simp]: "sort_Sort lt xs = [] \<longleftrightarrow> xs = []"
  by (metis length_0_conv length_sort_Sort)

lemma map_sink: "map f (sink (\<lambda>a b. lt (f a) (f b)) x ys) = sink lt (f x) (map f ys)"
  by (induction ys) auto

lemma map_sort_Sort: "map f (sort_Sort (\<lambda>a b. lt (f a) (f b)) xs) = sort_Sort lt (map f xs)"
proof -
  have "map f (foldl (\<lambda>p x. sink (\<lambda>a b. lt (f a) (f b)) x p) p xs)
      = foldl (\<lambda>p x. sink lt x p) (map f p) (map f xs)" for p
    by (induction xs arbitrary: p) (simp_all add: map_sink)
  then show ?thesis by (simp add: sort_Sort_def rev_map [symmetric])
qed

text \<open>
  The contract of \<open>sort.Interface\<close>: \<open>Less\<close> is a strict weak order. Every \<open>Less\<close>
  method of the repository is an interpretation of this locale.
\<close>

locale sort_interface =
  fixes lt :: "'a \<Rightarrow> 'a \<Rightarrow> bool"
  assumes less_asym: "lt x y \<Longrightarrow> \<not> lt y x"
    and less_negtrans: "\<not> lt x y \<Longrightarrow> \<not> lt y z \<Longrightarrow> \<not> lt x z"
begin

lemma less_irrefl: "\<not> lt x x"
  using less_asym by blast

lemma less_trans: "lt x y \<Longrightarrow> lt y z \<Longrightarrow> lt x z"
  using less_asym less_negtrans by blast

lemma sink_sorted:
  "sorted_wrt (\<lambda>a b. \<not> lt a b) ys \<Longrightarrow> sorted_wrt (\<lambda>a b. \<not> lt a b) (sink lt x ys)"
proof (induction ys)
  case Nil
  then show ?case by simp
next
  case (Cons y ys)
  have set: "set (sink lt x ys) = insert x (set ys)"
    by (metis mset_sink set_mset_add_mset_insert set_mset_mset)
  show ?case
  proof (cases "lt x y")
    case True
    then have "\<not> lt y x" by (rule less_asym)
    with True Cons set show ?thesis by simp
  next
    case False
    with Cons.prems show ?thesis by (auto dest: less_negtrans [OF False])
  qed
qed

lemma foldl_sink_sorted:
  "sorted_wrt (\<lambda>a b. \<not> lt a b) p \<Longrightarrow>
   sorted_wrt (\<lambda>a b. \<not> lt a b) (foldl (\<lambda>p x. sink lt x p) p xs)"
  by (induction xs arbitrary: p) (simp_all add: sink_sorted)

lemma sort_sorted: "sorted_wrt (\<lambda>a b. \<not> lt b a) (sort_Sort lt xs)"
  using foldl_sink_sorted [of "[]" xs] by (simp add: sort_Sort_def sorted_wrt_rev)

lemma sort_hd_least:
  assumes "x \<in> set xs"
  shows "\<not> lt x (hd (sort_Sort lt xs))"
proof (cases "sort_Sort lt xs")
  case Nil
  with assms show ?thesis by simp
next
  case (Cons y ys)
  have "x = y \<or> x \<in> set ys" using assms Cons set_sort_Sort [of lt xs] by auto
  then show ?thesis using sort_sorted [of xs] Cons less_irrefl by auto
qed

text \<open>A list already in order is left as it is.\<close>

lemma sink_keeps: "\<forall>y \<in> set ys. \<not> lt x y \<Longrightarrow> sink lt x ys = x # ys"
  by (cases ys) auto

lemma foldl_sink_keeps:
  "sorted_wrt (\<lambda>a b. \<not> lt b a) (rev p @ xs) \<Longrightarrow>
   foldl (\<lambda>p x. sink lt x p) p xs = rev xs @ p"
proof (induction xs arbitrary: p)
  case Nil
  then show ?case by simp
next
  case (Cons x xs)
  have "sink lt x p = x # p"
    using Cons.prems by (intro sink_keeps) (auto simp: sorted_wrt_append)
  with Cons show ?case by simp
qed

lemma sort_idem: "sorted_wrt (\<lambda>a b. \<not> lt b a) xs \<Longrightarrow> sort_Sort lt xs = xs"
  using foldl_sink_keeps [of "[]" xs] by (simp add: sort_Sort_def)

text \<open>
  Sorted lists with the same elements agree when distinct elements have distinct keys, so
  every correct implementation of \<open>sort.Sort\<close> gives the same result.
\<close>

lemma sorted_perm_unique:
  assumes "sorted_wrt (\<lambda>a b. \<not> lt b a) xs" and "sorted_wrt (\<lambda>a b. \<not> lt b a) ys"
    and "mset xs = mset ys" and "\<And>a b. a \<in> set xs \<Longrightarrow> b \<in> set xs \<Longrightarrow> a \<noteq> b \<Longrightarrow> lt a b \<or> lt b a"
  shows "xs = ys"
  using assms
proof (induction xs arbitrary: ys)
  case Nil
  then show ?case by simp
next
  case (Cons x xs)
  then obtain y ys' where ys: "ys = y # ys'" by (cases ys) auto
  have set_eq: "set (x # xs) = set ys" using Cons.prems(3) by (metis set_mset_mset)
  have "x = y"
  proof (rule ccontr)
    assume "x \<noteq> y"
    then have "x \<in> set ys'" "y \<in> set xs" using set_eq ys by auto
    then have "\<not> lt x y" "\<not> lt y x" using Cons.prems(1,2) ys by auto
    with \<open>x \<noteq> y\<close> show False using Cons.prems(4) [of x y] \<open>y \<in> set xs\<close> by auto
  qed
  moreover have "xs = ys'"
    using Cons.prems ys \<open>x = y\<close> by (intro Cons.IH) auto
  ultimately show ?case using ys by simp
qed

lemma sort_perm_eq:
  assumes "mset xs = mset ys"
    and "\<And>a b. a \<in> set xs \<Longrightarrow> b \<in> set xs \<Longrightarrow> a \<noteq> b \<Longrightarrow> lt a b \<or> lt b a"
  shows "sort_Sort lt xs = sort_Sort lt ys"
  by (rule sorted_perm_unique) (use assms sort_sorted in auto)

end

text \<open>Comparing a numeric key gives a strict weak order; most \<open>Less\<close> methods do this.\<close>

lemma sort_interface_key: "sort_interface (\<lambda>a b. (f a :: 'k::linorder) < f b)"
  by unfold_locales auto

section \<open>Strings\<close>

fun split_on :: "char \<Rightarrow> string \<Rightarrow> string list" where
  "split_on c [] = [[]]"
| "split_on c (x # xs) =
     (if x = c then [] # split_on c xs
      else (case split_on c xs of [] \<Rightarrow> [[x]] | y # ys \<Rightarrow> (x # y) # ys))"

fun join :: "string \<Rightarrow> string list \<Rightarrow> string" where
  "join sep [] = []"
| "join sep [x] = x"
| "join sep (x # y # ys) = x @ sep @ join sep (y # ys)"

definition has_suffix :: "string \<Rightarrow> string \<Rightarrow> bool" where
  "has_suffix s suf \<longleftrightarrow> length suf \<le> length s \<and> drop (length s - length suf) s = suf"

definition replace_all :: "char \<Rightarrow> char \<Rightarrow> string \<Rightarrow> string" where
  "replace_all a b s = map (\<lambda>c. if c = a then b else c) s"

lemma split_on_not_Nil [simp]: "split_on c s \<noteq> []"
  by (induction s) (auto split: list.splits)

lemma split_on_no_sep: "c \<notin> set s \<Longrightarrow> split_on c s = [s]"
  by (induction s) auto

lemma split_on_append_sep: "c \<notin> set x \<Longrightarrow> split_on c (x @ c # s) = x # split_on c s"
  by (induction x) auto

lemma split_on_sep: "split_on c (s @ c # u) = split_on c s @ split_on c u"
  by (induction s) (auto split: list.splits)

lemma last_split_on: "last (split_on c (s @ c # u)) = last (split_on c u)"
  by (simp add: split_on_sep)

lemma split_on_parts: "x \<in> set (split_on c s) \<Longrightarrow> c \<notin> set x"
proof (induction s arbitrary: x)
  case Nil
  then show ?case by simp
next
  case (Cons a s)
  obtain y ys where "split_on c s = y # ys" by (cases "split_on c s") auto
  with Cons show ?case by (auto split: if_splits)
qed

lemma split_join:
  assumes "xs \<noteq> []" and "\<forall>x \<in> set xs. c \<notin> set x"
  shows "split_on c (join [c] xs) = xs"
  using assms
proof (induction "[c]" xs rule: join.induct)
  case 1
  then show ?case by simp
next
  case (2 x)
  then show ?case by (simp add: split_on_no_sep)
next
  case (3 x y ys)
  then show ?case by (simp add: split_on_append_sep)
qed

lemma join_split: "join [c] (split_on c s) = s"
proof (induction s)
  case Nil
  then show ?case by simp
next
  case (Cons a s)
  obtain y ys where "split_on c s = y # ys" by (cases "split_on c s") auto
  with Cons show ?case by (cases ys) auto
qed

subsection \<open>Decimal formatting\<close>

definition digit :: "nat \<Rightarrow> char" where
  "digit d = char_of (48 + d)"

fun show_nat :: "nat \<Rightarrow> string" where
  "show_nat n = (if n < 10 then [digit n] else show_nat (n div 10) @ [digit (n mod 10)])"

declare show_nat.simps [simp del]

definition show_int :: "int \<Rightarrow> string" where
  "show_int i = (if i < 0 then CHR ''-'' # show_nat (nat (- i)) else show_nat (nat i))"

text \<open>Reading a string of digits back, to show that formatting loses nothing.\<close>

definition digits_value :: "string \<Rightarrow> nat" where
  "digits_value s = foldl (\<lambda>v c. 10 * v + (of_char c - 48)) 0 s"

lemma digit_numerals [simp]:
  "digit 0 = CHR ''0''" "digit 1 = CHR ''1''" "digit (Suc 0) = CHR ''1''" "digit 2 = CHR ''2''"
  "digit 3 = CHR ''3''" "digit 4 = CHR ''4''" "digit 5 = CHR ''5''" "digit 6 = CHR ''6''"
  "digit 7 = CHR ''7''" "digit 8 = CHR ''8''" "digit 9 = CHR ''9''"
  by (simp_all add: digit_def char_of_def bit_simps)

lemma of_char_digit: "d < 10 \<Longrightarrow> of_char (digit d) = 48 + d"
  by (simp add: digit_def)

lemma digits_value_show_nat: "digits_value (show_nat n) = n"
proof (induction n rule: show_nat.induct)
  case (1 n)
  show ?case
  proof (cases "n < 10")
    case True
    then show ?thesis by (simp add: show_nat.simps [of n] digits_value_def of_char_digit)
  next
    case False
    with 1 have "digits_value (show_nat (n div 10)) = n div 10" by simp
    with False show ?thesis
      by (simp add: show_nat.simps [of n] digits_value_def of_char_digit)
  qed
qed

lemma show_nat_inj: "show_nat m = show_nat n \<longleftrightarrow> m = n"
  by (metis digits_value_show_nat)

lemma show_nat_chars: "c \<in> set (show_nat n) \<Longrightarrow> \<exists>d < 10. c = digit d"
proof (induction n rule: show_nat.induct)
  case (1 n)
  have "\<exists>d < 10. digit (n mod 10) = digit d" by (rule exI [of _ "n mod 10"]) simp
  with 1 show ?case by (subst (asm) (2) show_nat.simps) (auto split: if_splits)
qed

lemma digit_range: "d < 10 \<Longrightarrow> c = digit d \<Longrightarrow> 48 \<le> (of_char c :: nat) \<and> (of_char c :: nat) \<le> 57"
  by (auto simp: of_char_digit)

lemma show_nat_not_in:
  assumes "(of_char c :: nat) < 48 \<or> 57 < (of_char c :: nat)"
  shows "c \<notin> set (show_nat n)"
  using assms show_nat_chars digit_range by fastforce

lemma show_int_not_in:
  assumes "(of_char c :: nat) < 48 \<or> 57 < (of_char c :: nat)" and "c \<noteq> CHR ''-''"
  shows "c \<notin> set (show_int i)"
  using assms show_nat_not_in [OF assms(1)] by (simp add: show_int_def)

lemma show_int_inj: "show_int i = show_int j \<longleftrightarrow> i = j"
proof -
  have "CHR ''-'' \<notin> set (show_nat n)" for n by (rule show_nat_not_in) simp
  then have "show_nat n \<noteq> CHR ''-'' # s" for n s by (metis list.set_intros(1))
  then show ?thesis by (auto simp: show_int_def show_nat_inj) metis+
qed

section \<open>Words of a line\<close>

text \<open>\<open>unicode.IsSpace\<close> on ASCII, and \<open>strings.Fields\<close>: the maximal runs of other characters.\<close>

definition is_space :: "char \<Rightarrow> bool" where
  "is_space c \<longleftrightarrow> (of_char c :: nat) \<in> {9, 10, 11, 12, 13, 32}"

fun words_from :: "string \<Rightarrow> string \<Rightarrow> string list" where
  "words_from acc [] = (if acc = [] then [] else [acc])"
| "words_from acc (c # cs) =
     (if is_space c then (if acc = [] then words_from [] cs else acc # words_from [] cs) else words_from (acc @ [c]) cs)"

definition Fields :: "string \<Rightarrow> string list" where
  "Fields s = words_from [] s"

lemma words_from_parts:
  assumes "w \<in> set (words_from acc s)" and "\<forall>c \<in> set acc. \<not> is_space c"
  shows "w \<noteq> [] \<and> (\<forall>c \<in> set w. \<not> is_space c)"
  using assms
proof (induction acc s rule: words_from.induct)
  case (1 acc)
  then show ?case by (cases "acc = []") simp_all
next
  case (2 acc c cs)
  show ?case
  proof (cases "is_space c")
    case True
    note ih = 2(1) [OF True] 2(2) [OF True]
    show ?thesis
    proof (cases "acc = []")
      case empty: True
      then have "w \<in> set (words_from [] cs)" using 2(4) True by simp
      then show ?thesis using ih(1) [OF empty] by simp
    next
      case False
      then have "w = acc \<or> w \<in> set (words_from [] cs)" using 2(4) True by simp
      then show ?thesis using ih(2) [OF False] 2(5) False by (elim disjE) simp_all
    qed
  next
    case False
    then have "w \<in> set (words_from (acc @ [c]) cs)" using 2(4) by simp
    then show ?thesis using 2(3) [OF False] 2(5) False by simp
  qed
qed

lemma words_parts: "w \<in> set (Fields s) \<Longrightarrow> w \<noteq> [] \<and> (\<forall>c \<in> set w. \<not> is_space c)"
  by (simp add: Fields_def words_from_parts)

lemma words_from_word: "\<forall>c \<in> set w. \<not> is_space c \<Longrightarrow> words_from acc (w @ s) = words_from (acc @ w) s"
  by (induction w arbitrary: acc) auto

end
