(* ===== verification/Proto.thy ===== *)
theory Proto
  imports Go_Std
begin

text \<open>
  The messages of \<open>api/api.proto\<close> shared by all components and the helpers of
  \<open>api/proto_utils.go\<close>. A message is a record with the fields of the \<open>.proto\<close> file.
  A \<open>google.protobuf.Timestamp\<close> is an integer, its nanoseconds since the epoch: the code
  reads the timestamps of \<open>Process\<close>, \<open>WriteId\<close> and \<open>Sequence\<close> through
  \<open>AsTime\<close> only, which maps the nil pointer to the epoch, so nil is 0. A pointer that may
  be nil and is compared with nil is an \<open>option\<close>.
\<close>

section \<open>Messages\<close>

type_synonym time = int

datatype status = Alive | Timeout | Leaved

record process =
  ip :: string
  port :: int
  joinTime :: time
  lastUpdateTime :: time
  status :: status

datatype write_id = WriteId (wid_ip: string) (wid_port: int) (wid_createTime: time)

datatype sequence = Sequence (seq_time: time) (seq_count: int)

datatype message_type = MT_Ping | MT_Ack | MT_Join | MT_Leave

datatype message =
    PingMessage "process list"
  | AckMessage string
  | JoinMessage "process option"
  | LeaveMessage "process option"

record metadata =
  meta_type :: message_type
  meta_message :: "message option"

datatype response_status = OK | ERROR | NOT_FOUND | NOT_CONVERGED

text \<open>The generated getters: the zero value when the \<open>oneof\<close> holds another message.\<close>

definition GetPing_processes :: "metadata \<Rightarrow> process list" where
  "GetPing_processes m = (case meta_message m of Some (PingMessage ps) \<Rightarrow> ps | _ \<Rightarrow> [])"

definition GetAck_received :: "metadata \<Rightarrow> string" where
  "GetAck_received m = (case meta_message m of Some (AckMessage s) \<Rightarrow> s | _ \<Rightarrow> '''')"

definition GetJoin_process :: "metadata \<Rightarrow> process option" where
  "GetJoin_process m = (case meta_message m of Some (JoinMessage p) \<Rightarrow> p | _ \<Rightarrow> None)"

definition GetLeave_process :: "metadata \<Rightarrow> process option" where
  "GetLeave_process m = (case meta_message m of Some (LeaveMessage p) \<Rightarrow> p | _ \<Rightarrow> None)"

section \<open>proto\_utils.go\<close>

definition Address :: "process \<Rightarrow> string" where
  "Address p = ip p @ '':'' @ show_int (port p)"

definition GetRawAddress :: "string \<Rightarrow> (string \<times> string) run" where
  "GetRawAddress address =
     (let splitted = split_on (CHR '':'') address in
      case go_index splitted 0 of
        Inl e \<Rightarrow> Inl e
      | Inr a \<Rightarrow> (case go_index splitted 1 of Inl e \<Rightarrow> Inl e | Inr b \<Rightarrow> Inr (a, b)))"

definition IsSameProcess :: "process option \<Rightarrow> process option \<Rightarrow> bool" where
  "IsSameProcess p1 p2 =
     (case (p1, p2) of
        (Some a, Some b) \<Rightarrow> ip a = ip b \<and> port a = port b \<and> joinTime a = joinTime b
      | _ \<Rightarrow> False)"

definition Sequence_Less :: "sequence \<Rightarrow> sequence \<Rightarrow> bool" where
  "Sequence_Less s t =
     (if seq_time s = seq_time t then seq_count s < seq_count t else seq_time s < seq_time t)"

definition Sequence_Equal :: "sequence \<Rightarrow> sequence \<Rightarrow> bool" where
  "Sequence_Equal s t \<longleftrightarrow> seq_time s = seq_time t \<and> seq_count s = seq_count t"

section \<open>Identity, addresses and sequence numbers\<close>

text \<open>Two process objects are the same process when these three fields agree.\<close>

definition ident :: "process \<Rightarrow> string \<times> int \<times> time" where
  "ident p = (ip p, port p, joinTime p)"

lemma IsSameProcess_ident [simp]: "IsSameProcess (Some p) (Some q) \<longleftrightarrow> ident p = ident q"
  by (simp add: IsSameProcess_def ident_def)

lemma IsSameProcess_None [simp]: "\<not> IsSameProcess None q" "\<not> IsSameProcess p None"
  by (auto simp: IsSameProcess_def split: option.splits)

lemma ident_updates [simp]:
  "ident (p\<lparr>lastUpdateTime := t\<rparr>) = ident p" "ident (p\<lparr>status := st\<rparr>) = ident p"
  by (simp_all add: ident_def)

lemma Address_updates [simp]:
  "Address (p\<lparr>lastUpdateTime := t\<rparr>) = Address p" "Address (p\<lparr>status := st\<rparr>) = Address p"
  "Address (p\<lparr>joinTime := t\<rparr>) = Address p"
  by (simp_all add: Address_def)

text \<open>
  The port contains no colon, so the last colon of an address separates its two parts even
  when the host part has colons of its own.
\<close>

lemma colon_not_in_show_int: "CHR '':'' \<notin> set (show_int i)"
  by (rule show_int_not_in) simp_all

lemma append_sep_inj:
  assumes "xs @ c # ys = xs' @ (c :: char) # ys'" and "c \<notin> set ys" and "c \<notin> set ys'"
  shows "xs = xs' \<and> ys = ys'"
proof -
  have "rev ys @ c # rev xs = rev ys' @ c # rev xs'"
    using arg_cong [OF assms(1), of rev] by simp
  then have "split_on c (rev ys @ c # rev xs) = split_on c (rev ys' @ c # rev xs')" by simp
  then have "rev ys = rev ys'" using assms(2,3) by (simp add: split_on_append_sep)
  with assms(1) show ?thesis by simp
qed

lemma Address_eq_iff: "Address p = Address q \<longleftrightarrow> ip p = ip q \<and> port p = port q"
  using append_sep_inj [of "ip p" "CHR '':''" "show_int (port p)" "ip q" "show_int (port q)"]
  by (auto simp: Address_def colon_not_in_show_int show_int_inj)

lemma ident_Address: "ident p = ident q \<Longrightarrow> Address p = Address q"
  by (simp add: Address_eq_iff ident_def)

lemma Address_not_Nil [simp]: "Address p \<noteq> []"
  by (simp add: Address_def)

text \<open>Sequence numbers form a linear order, and \<open>Less\<close> is its strict part.\<close>

instantiation sequence :: linorder
begin

definition less_eq_sequence :: "sequence \<Rightarrow> sequence \<Rightarrow> bool" where
  "less_eq_sequence s t \<longleftrightarrow>
     seq_time s < seq_time t \<or> seq_time s = seq_time t \<and> seq_count s \<le> seq_count t"

definition less_sequence :: "sequence \<Rightarrow> sequence \<Rightarrow> bool" where
  "less_sequence s t \<longleftrightarrow>
     seq_time s < seq_time t \<or> seq_time s = seq_time t \<and> seq_count s < seq_count t"

instance
  by standard (auto simp: less_eq_sequence_def less_sequence_def sequence.expand)

end

lemma Sequence_Less_iff [simp]: "Sequence_Less s t \<longleftrightarrow> s < t"
  by (auto simp: Sequence_Less_def less_sequence_def)

lemma Sequence_Equal_iff [simp]: "Sequence_Equal s t \<longleftrightarrow> s = t"
  by (cases s, cases t) (simp add: Sequence_Equal_def)

section \<open>Properties\<close>

text \<open>
  \<open>GetRawAddress\<close> inverts \<open>Address\<close> on every host name without a colon, and never panics there.
\<close>

theorem raw_address_roundtrip:
  assumes "CHR '':'' \<notin> set (ip p)"
  shows "GetRawAddress (Address p) = Inr (ip p, show_int (port p))"
proof -
  have "split_on (CHR '':'') (Address p) = [ip p, show_int (port p)]"
    using assms by (simp add: Address_def split_on_append_sep split_on_no_sep colon_not_in_show_int)
  then show ?thesis by (simp add: GetRawAddress_def go_index_def)
qed

theorem raw_address_roundtrip_witness:
  "GetRawAddress (Address \<lparr>ip = ''vm1'', port = 5000, joinTime = 0, lastUpdateTime = 0, status = Alive\<rparr>)
     = Inr (''vm1'', ''5000'')"
proof -
  have "show_int 5000 = ''5000''" by (simp add: show_int_def show_nat.simps)
  then show ?thesis
    using raw_address_roundtrip
      [of "\<lparr>ip = ''vm1'', port = 5000, joinTime = 0, lastUpdateTime = 0, status = Alive\<rparr>"]
    by simp
qed

end
