(* ===== verification/Utils.thy ===== *)
theory Utils
  imports Proto
begin

text \<open>
  \<open>utils/helper.go\<close> and \<open>utils/model.go\<close>: the FNV-1a hash, the local name of a file version,
  generated ids and the drop probability of the simulated network. \<open>time_String\<close> is the
  standard library's \<open>Time.String\<close> on a UTC time. The names of file versions are shown to be
  injective, so that two versions never share a local file.
\<close>

section \<open>Hash\<close>

text \<open>\<open>hash/fnv.New32a\<close>: 32-bit FNV-1a; \<open>Hash\<close> reads the sum as a Go \<open>int\<close> (64 bits).\<close>

definition fnv32a_step :: "32 word \<Rightarrow> char \<Rightarrow> 32 word" where
  "fnv32a_step h c = (h XOR of_char c) * 16777619"

definition Hash :: "string \<Rightarrow> int" where
  "Hash key = uint (foldl fnv32a_step (2166136261 :: 32 word) key)"

lemma Hash_nonneg [simp]: "0 \<le> Hash key"
  by (simp add: Hash_def)

section \<open>Time.String\<close>

text \<open>The calendar date of a day number counted from 1 January of year 1, as in \<open>time.Time.date\<close>:
  full cycles of 400, 100, 4 and 1 years are cut off in turn, the last one of each kind keeping its
  leap day.\<close>

definition NANOS :: int where "NANOS = 1000000000"

definition cut :: "int \<Rightarrow> int \<Rightarrow> int \<Rightarrow> int \<times> int" where
  "cut k len d = (let n = min k (d div len) in (n, d - n * len))"

definition year_yday :: "int \<Rightarrow> int \<times> int" where
  "year_yday d =
     (let n400 = d div 146097; d1 = d mod 146097;
          (n100, d2) = cut 3 36524 d1;
          (n4, d3) = cut 24 1461 d2;
          (n1, d4) = cut 3 365 d3
      in (400 * n400 + 100 * n100 + 4 * n4 + n1 + 1, d4))"

definition is_leap :: "int \<Rightarrow> bool" where
  "is_leap y \<longleftrightarrow> y mod 4 = 0 \<and> (y mod 100 \<noteq> 0 \<or> y mod 400 = 0)"

fun month_day :: "int \<Rightarrow> int list \<Rightarrow> int \<Rightarrow> int \<times> int" where
  "month_day m [] d = (m, d + 1)"
| "month_day m (l # ls) d = (if d < l then (m, d + 1) else month_day (m + 1) ls (d - l))"

definition month_lengths :: "int \<Rightarrow> int list" where
  "month_lengths y = [31, if is_leap y then 29 else 28, 31, 30, 31, 30, 31, 31, 30, 31, 30, 31]"

text \<open>\<open>appendInt\<close>: sign, then digits padded with zeros on the left.\<close>

definition pad_left :: "nat \<Rightarrow> string \<Rightarrow> string" where
  "pad_left w s = replicate (w - length s) (CHR ''0'') @ s"

definition append_int :: "nat \<Rightarrow> int \<Rightarrow> string" where
  "append_int w i = (if i < 0 then ''-'' else '''') @ pad_left w (show_nat (nat \<bar>i\<bar>))"

definition drop_zeros :: "string \<Rightarrow> string" where
  "drop_zeros s = rev (dropWhile (\<lambda>c. c = CHR ''0'') (rev s))"

text \<open>The layout \<open>2006-01-02 15:04:05.999999999 -0700 MST\<close> in UTC; day 719162 counted from
  1 January of year 1 is the epoch.\<close>

definition time_String :: "time \<Rightarrow> string" where
  "time_String t =
     (let secs = t div NANOS; nanos = t mod NANOS;
          days = secs div 86400; s = secs mod 86400;
          (y, yday) = year_yday (days + 719162);
          (m, d) = month_day 1 (month_lengths y) yday
      in append_int 4 y @ ''-'' @ append_int 2 m @ ''-'' @ append_int 2 d @ '' ''
         @ append_int 2 (s div 3600) @ '':'' @ append_int 2 (s mod 3600 div 60) @ '':'' @ append_int 2 (s mod 60)
         @ (if nanos = 0 then '''' else ''.'' @ drop_zeros (append_int 9 nanos))
         @ '' +0000 UTC'')"

section \<open>Names\<close>

definition ConcatFilename :: "string \<Rightarrow> sequence \<Rightarrow> string" where
  "ConcatFilename filename seq =
     ''['' @ filename @ ''][''  @ time_String (seq_time seq) @ ''][''  @ show_int (seq_count seq) @ '']''"

definition CreateId :: "string \<Rightarrow> time \<Rightarrow> string" where
  "CreateId prefix now = prefix @ '':'' @ show_int (now div NANOS)"

text \<open>\<open>render\<close> is the text of a protobuf timestamp.\<close>

definition CreateTempFilename :: "(time \<Rightarrow> string) \<Rightarrow> time \<Rightarrow> string" where
  "CreateTempFilename render now = ''['' @ render now @ '']''"

text \<open>\<open>WithDropProb\<close> calls the writer unless the random number is at most the probability; the
  comparison is done by the caller's float type.\<close>

definition WithDropProb :: "('f \<Rightarrow> 'f \<Rightarrow> bool) \<Rightarrow> 'f \<Rightarrow> 'f \<Rightarrow> (unit \<Rightarrow> int option) \<Rightarrow> int option" where
  "WithDropProb le rnd prob callback = (if le rnd prob then None else callback ())"

definition ResNet50 :: string where "ResNet50 = ''resnet50''"
definition Albert :: string where "Albert = ''albert''"
definition SupportedModelTypes :: "string list" where "SupportedModelTypes = [ResNet50, Albert]"
definition Imagenet :: string where "Imagenet = ''imagenet''"
definition Emotion :: string where "Emotion = ''emotion.txt''"
definition SupportedDatasetTypes :: "string list" where "SupportedDatasetTypes = [Imagenet, Emotion]"

section \<open>Injectivity of times and names\<close>

lemma cut_eq:
  assumes "0 \<le> d" "0 \<le> k" "0 < len" "cut k len d = (n, r)"
  shows "0 \<le> n \<and> n \<le> k \<and> 0 \<le> r \<and> d = n * len + r"
proof -
  have n: "n = min k (d div len)" "r = d - n * len" using assms(4) by (auto simp: cut_def Let_def)
  have "n * len \<le> (d div len) * len" using n assms(3) by (intro mult_right_mono) auto
  also have "\<dots> \<le> d" using assms(3) by (simp add: minus_mod_eq_div_mult [symmetric])
  finally show ?thesis using n assms(1-3) by (auto simp: pos_imp_zdiv_nonneg_iff)
qed

lemma radix_unique:
  fixes m q r :: int
  assumes "m * q + r = m * q' + r'" "0 \<le> r" "r < m" "0 \<le> r'" "r' < m"
  shows "q = q' \<and> r = r'"
proof -
  have "(m * q + r) div m = q" "(m * q' + r') div m = q'" using assms(2-) by simp_all
  with assms(1) show ?thesis by simp
qed

lemma year_yday_eq:
  assumes "year_yday d = (y, yd)"
  obtains a b c e where "y = 400 * a + 100 * b + 4 * c + e + 1" and "d = 146097 * a + 36524 * b + 1461 * c + 365 * e + yd"
    and "0 \<le> b" "b \<le> 3" "0 \<le> c" "c \<le> 24" "0 \<le> e" "e \<le> 3"
proof -
  obtain b d2 where 1: "cut 3 36524 (d mod 146097) = (b, d2)" by force
  obtain c d3 where 2: "cut 24 1461 d2 = (c, d3)" by force
  obtain e d4 where 3: "cut 3 365 d3 = (e, d4)" by force
  note A = cut_eq [OF _ _ _ 1, simplified]
  note B = cut_eq [OF _ _ _ 2, simplified]
  note C = cut_eq [OF _ _ _ 3, simplified]
  have "d = 146097 * (d div 146097) + d mod 146097" by simp
  moreover have "y = 400 * (d div 146097) + 100 * b + 4 * c + e + 1" "yd = d4"
    using assms 1 2 3 by (auto simp: year_yday_def Let_def)
  ultimately show ?thesis using A B C by (intro that [of "d div 146097" b c e]) auto
qed

lemma year_yday_inj: "year_yday d = year_yday d' \<Longrightarrow> d = d'"
proof -
  assume eq: "year_yday d = year_yday d'"
  obtain y yd where y: "year_yday d = (y, yd)" by force
  obtain a b c e where 1: "y = 400 * a + 100 * b + 4 * c + e + 1" "d = 146097 * a + 36524 * b + 1461 * c + 365 * e + yd"
    "0 \<le> b" "b \<le> 3" "0 \<le> c" "c \<le> 24" "0 \<le> e" "e \<le> 3" by (rule year_yday_eq [OF y])
  obtain a' b' c' e' where 2: "y = 400 * a' + 100 * b' + 4 * c' + e' + 1" "d' = 146097 * a' + 36524 * b' + 1461 * c' + 365 * e' + yd"
    "0 \<le> b'" "b' \<le> 3" "0 \<le> c'" "c' \<le> 24" "0 \<le> e'" "e' \<le> 3"
    by (rule year_yday_eq [of d']) (use eq y in auto)
  have "a = a' \<and> 100 * b + 4 * c + e = 100 * b' + 4 * c' + e'"
    using 1 2 by (intro radix_unique [of 400]) auto
  moreover from this have "b = b' \<and> 4 * c + e = 4 * c' + e'"
    using 1 2 by (intro radix_unique [of 100]) auto
  moreover from this have "c = c' \<and> e = e'" using 1 2 by (intro radix_unique [of 4]) auto
  ultimately show "d = d'" using 1(2) 2(2) by simp
qed

lemma month_day_eq:
  "month_day m ls d = (m', d') \<Longrightarrow> m \<le> m' \<and> d = sum_list (take (nat (m' - m)) ls) + d' - 1"
proof (induction ls arbitrary: m d)
  case (Cons l ls)
  show ?case
  proof (cases "d < l")
    case False
    with Cons have "m + 1 \<le> m'" "d - l = sum_list (take (nat (m' - (m + 1))) ls) + d' - 1" by auto
    moreover from this have "nat (m' - m) = Suc (nat (m' - (m + 1)))" by auto
    ultimately show ?thesis by simp
  qed (use Cons.prems in auto)
qed auto

lemma month_day_inj: "month_day m ls d = month_day m ls d' \<Longrightarrow> d = d'"
  by (metis month_day_eq surj_pair)

lemma month_day_nonneg: "0 \<le> m \<Longrightarrow> 0 \<le> d \<Longrightarrow> 0 \<le> fst (month_day m ls d) \<and> 0 \<le> snd (month_day m ls d)"
  by (induction m ls d rule: month_day.induct) auto

lemma year_yday_nonneg: "0 \<le> snd (year_yday d)"
proof -
  obtain b d2 where 1: "cut 3 36524 (d mod 146097) = (b, d2)" by force
  obtain c d3 where 2: "cut 24 1461 d2 = (c, d3)" by force
  obtain e d4 where 3: "cut 3 365 d3 = (e, d4)" by force
  from cut_eq [OF _ _ _ 1] cut_eq [OF _ _ _ 2] cut_eq [OF _ _ _ 3] 1 2 3
  show ?thesis by (simp add: year_yday_def Let_def)
qed

lemma digits_value_pad [simp]: "digits_value (replicate n (CHR ''0'') @ s) = digits_value s"
  by (induction n) (simp_all add: digits_value_def)

lemma append_int_digits:
  "0 \<le> i \<Longrightarrow> c \<in> set (append_int w i) \<Longrightarrow> \<exists>d < 10. c = digit d"
  using digit_numerals(1) [symmetric] show_nat_chars [of c "nat i"]
  by (auto simp: append_int_def pad_left_def simp del: digit_numerals split: if_splits)
    (metis zero_less_numeral)+

lemma append_int_inj:
  assumes "append_int w i = append_int w j"
  shows "i = j"
proof -
  have m: "CHR ''-'' \<notin> set (pad_left w (show_nat n))" for n
    using show_nat_not_in [of "CHR ''-''" n] by (simp add: pad_left_def)
  have "pad_left w (show_nat (nat \<bar>i\<bar>)) = pad_left w (show_nat (nat \<bar>j\<bar>)) \<and> (i < 0 \<longleftrightarrow> j < 0)"
    using assms m [of "nat \<bar>i\<bar>"] m [of "nat \<bar>j\<bar>"]
    by (cases "i < 0"; cases "j < 0") (auto simp: append_int_def, (metis list.set_intros(1))+)
  then have "digits_value (show_nat (nat \<bar>i\<bar>)) = digits_value (show_nat (nat \<bar>j\<bar>))" "i < 0 \<longleftrightarrow> j < 0"
    by (metis digits_value_pad pad_left_def, simp)
  then show ?thesis by (auto simp: digits_value_show_nat)
qed

lemma append_int_not_in:
  "0 \<le> i \<Longrightarrow> (of_char c :: nat) < 48 \<or> 57 < (of_char c :: nat) \<Longrightarrow> c \<notin> set (append_int w i)"
  using append_int_digits digit_range by fastforce

lemma drop_zeros_eq: "s = drop_zeros s @ replicate (length s - length (drop_zeros s)) (CHR ''0'')"
proof -
  have "rev s = takeWhile (\<lambda>c. c = CHR ''0'') (rev s) @ rev (drop_zeros s)" by (simp add: drop_zeros_def)
  moreover have "takeWhile (\<lambda>c. c = CHR ''0'') (rev s) = replicate n (CHR ''0'')"
    if "n = length (takeWhile (\<lambda>c. c = CHR ''0'') (rev s))" for n
    using that by (auto intro!: replicate_eqI dest: set_takeWhileD)
  ultimately have "s = drop_zeros s @ replicate (length (takeWhile (\<lambda>c. c = CHR ''0'') (rev s))) (CHR ''0'')"
    by (metis rev_append rev_replicate rev_swap)
  then show ?thesis by (metis add_diff_cancel_left' length_append length_replicate)
qed

lemma set_drop_zeros: "set (drop_zeros s) \<subseteq> set s"
  by (auto simp: drop_zeros_def dest: set_dropWhileD)

lemma length_show_nat: "n < 10 ^ k \<Longrightarrow> 0 < k \<Longrightarrow> length (show_nat n) \<le> k"
proof (induction n arbitrary: k rule: show_nat.induct)
  case (1 n)
  show ?case
  proof (cases "n < 10")
    case True
    then show ?thesis using 1(3) by (simp add: show_nat.simps)
  next
    case False
    then obtain j where "k = Suc j" "0 < j" using 1 by (cases k; cases "k - 1") auto
    with 1 False have "length (show_nat (n div 10)) \<le> j" by (intro 1(1)) auto
    with False \<open>k = Suc j\<close> show ?thesis by (subst show_nat.simps) simp
  qed
qed

lemma nanos_inj:
  assumes "drop_zeros (append_int 9 a) = drop_zeros (append_int 9 b)"
    and "0 \<le> a" "a < NANOS" "0 \<le> b" "b < NANOS"
  shows "a = b"
proof -
  have len: "length (append_int 9 x) = 9" if "0 \<le> x" "x < NANOS" for x
    using that length_show_nat [of "nat x" 9] by (simp add: append_int_def pad_left_def NANOS_def)
  have "append_int 9 a = append_int 9 b"
    using drop_zeros_eq [of "append_int 9 a"] drop_zeros_eq [of "append_int 9 b"] assms len by metis
  then show ?thesis by (rule append_int_inj)
qed

definition time_frac :: "int \<Rightarrow> string" where
  "time_frac nanos = (if nanos = 0 then '''' else ''.'' @ drop_zeros (append_int 9 nanos))"

lemma time_frac_inj:
  assumes "append_int 2 s @ time_frac a = append_int 2 s' @ time_frac b" and "0 \<le> s" "0 \<le> s'"
    and r: "0 \<le> a" "a < NANOS" "0 \<le> b" "b < NANOS"
  shows "s = s' \<and> a = b"
proof -
  have d: "CHR ''.'' \<notin> set (append_int 2 s)" "CHR ''.'' \<notin> set (append_int 2 s')"
    using assms(2,3) by (auto simp: append_int_not_in)
  have z: "CHR ''.'' \<notin> set (drop_zeros (append_int 9 x))" if "0 \<le> x" for x
    using append_int_not_in [OF that, of "CHR ''.''" 9] set_drop_zeros [of "append_int 9 x"] by auto
  show ?thesis
  proof (cases "a = 0 \<or> b = 0")
    case True
    have "CHR ''.'' \<in> set (append_int 2 s @ time_frac a) \<longleftrightarrow> a \<noteq> 0"
      "CHR ''.'' \<in> set (append_int 2 s' @ time_frac b) \<longleftrightarrow> b \<noteq> 0"
      using d by (simp_all add: time_frac_def)
    with True assms(1) have "a = 0" "b = 0" by auto
    with assms(1) append_int_inj [of 2 s s'] show ?thesis by (simp add: time_frac_def)
  next
    case False
    with assms(1) have "append_int 2 s @ CHR ''.'' # drop_zeros (append_int 9 a)
        = append_int 2 s' @ CHR ''.'' # drop_zeros (append_int 9 b)" by (simp add: time_frac_def)
    from append_sep_inj [OF this z [OF r(1)] z [OF r(3)]] nanos_inj [OF _ r] append_int_inj [of 2 s s'] show ?thesis by simp
  qed
qed

text \<open>A time is the date and the clock reading its string shows.\<close>

definition date_of :: "time \<Rightarrow> int \<times> int \<times> int" where
  "date_of t =
     (let (y, yday) = year_yday (t div NANOS div 86400 + 719162);
          (m, d) = month_day 1 (month_lengths y) yday in (y, m, d))"

lemma date_of_inj: "date_of t = date_of t' \<Longrightarrow> t div NANOS div 86400 = t' div NANOS div 86400"
proof -
  assume eq: "date_of t = date_of t'"
  obtain y a where 1: "year_yday (t div NANOS div 86400 + 719162) = (y, a)" by force
  obtain y' a' where 2: "year_yday (t' div NANOS div 86400 + 719162) = (y', a')" by force
  from eq 1 2 have "y = y'" "month_day 1 (month_lengths y) a = month_day 1 (month_lengths y') a'"
    by (auto simp: date_of_def split: prod.splits)
  then have "a = a'" using month_day_inj by blast
  with 1 2 \<open>y = y'\<close> year_yday_inj show ?thesis by (metis add_right_cancel)
qed

lemma date_of_nonneg: "date_of t = (y, m, d) \<Longrightarrow> 0 \<le> m \<and> 0 \<le> d"
proof -
  assume eq: "date_of t = (y, m, d)"
  obtain a where 1: "year_yday (t div NANOS div 86400 + 719162) = (y, a)" "month_day 1 (month_lengths y) a = (m, d)"
    using eq by (auto simp: date_of_def split: prod.splits)
  have "0 \<le> a" using year_yday_nonneg [of "t div NANOS div 86400 + 719162"] 1(1) by simp
  from month_day_nonneg [OF _ this, of 1] 1(2) show ?thesis by (metis fst_conv snd_conv zero_le_one)
qed

definition clock_of :: "time \<Rightarrow> int \<times> int \<times> int" where
  "clock_of t = (let s = t div NANOS mod 86400 in (s div 3600, s mod 3600 div 60, s mod 60))"

lemma clock_of_nonneg: "clock_of t = (h, mi, s) \<Longrightarrow> 0 \<le> h \<and> 0 \<le> mi \<and> 0 \<le> s"
  by (auto simp: clock_of_def Let_def pos_imp_zdiv_nonneg_iff)

lemma clock_of_inj: "clock_of t = clock_of t' \<Longrightarrow> t div NANOS mod 86400 = t' div NANOS mod 86400"
proof -
  have "s = 3600 * (s div 3600) + 60 * (s mod 3600 div 60) + s mod 60" for s :: int
  proof -
    have "s mod 3600 mod 60 = s mod 60" by (rule mod_mod_cancel) simp
    then show ?thesis using mult_div_mod_eq [of 3600 s] mult_div_mod_eq [of 60 "s mod 3600"] by linarith
  qed
  then show "clock_of t = clock_of t' \<Longrightarrow> ?thesis" by (simp add: clock_of_def Let_def) metis
qed

text \<open>\<open>Time.Format("2006-01-02 15:04:05")\<close> on a UTC time.\<close>

definition format_time :: "time \<Rightarrow> string" where
  "format_time t =
     (case date_of t of (y, m, d) \<Rightarrow> case clock_of t of (h, mi, s) \<Rightarrow>
        append_int 4 y @ ''-'' @ append_int 2 m @ ''-'' @ append_int 2 d @ '' ''
        @ append_int 2 h @ '':'' @ append_int 2 mi @ '':'' @ append_int 2 s)"

lemma time_String_eq:
  assumes "date_of t = (y, m, d)" and "clock_of t = (h, mi, s)"
  shows "time_String t = append_int 4 y @ CHR ''-'' # append_int 2 m @ CHR ''-'' # append_int 2 d @ CHR '' ''
    # append_int 2 h @ CHR '':'' # append_int 2 mi @ CHR '':'' # (append_int 2 s @ time_frac (t mod NANOS)) @ '' +0000 UTC''"
  using assms by (auto simp: time_String_def date_of_def clock_of_def time_frac_def Let_def split: prod.splits)

lemma time_frac_not_in:
  assumes "(of_char c :: nat) < 48 \<or> 57 < (of_char c :: nat)" and "c \<noteq> CHR ''.''" and "0 \<le> n"
  shows "c \<notin> set (time_frac n)"
  using append_int_not_in [OF assms(3,1), of 9] set_drop_zeros [of "append_int 9 n"] assms(2)
  by (auto simp: time_frac_def)

lemma time_String_inj:
  assumes "time_String t = time_String t'"
  shows "t = t'"
proof -
  obtain y m d h mi s where p: "date_of t = (y, m, d)" "clock_of t = (h, mi, s)" by (metis prod_cases3)
  obtain y' m' d' h' mi' s' where p': "date_of t' = (y', m', d')" "clock_of t' = (h', mi', s')" by (metis prod_cases3)
  let ?n = "t mod NANOS" and ?n' = "t' mod NANOS"
  have nn: "0 \<le> ?n" "?n < NANOS" "0 \<le> ?n'" "?n' < NANOS" by (simp_all add: NANOS_def)
  note pos = date_of_nonneg [OF p(1)] clock_of_nonneg [OF p(2)] date_of_nonneg [OF p'(1)] clock_of_nonneg [OF p'(2)]
  note sep = append_int_not_in time_frac_not_in nn pos
  have 0: "(append_int 4 y @ CHR ''-'' # append_int 2 m @ CHR ''-'' # append_int 2 d @ CHR '' '' # append_int 2 h @ CHR '':'' # append_int 2 mi)
        @ CHR '':'' # (append_int 2 s @ time_frac ?n)
      = (append_int 4 y' @ CHR ''-'' # append_int 2 m' @ CHR ''-'' # append_int 2 d' @ CHR '' '' # append_int 2 h' @ CHR '':'' # append_int 2 mi')
        @ CHR '':'' # (append_int 2 s' @ time_frac ?n')"
    using assms unfolding time_String_eq [OF p] time_String_eq [OF p'] by simp
  from append_sep_inj [OF 0] sep have 1: "append_int 2 s @ time_frac ?n = append_int 2 s' @ time_frac ?n'"
    "(append_int 4 y @ CHR ''-'' # append_int 2 m @ CHR ''-'' # append_int 2 d @ CHR '' '' # append_int 2 h) @ CHR '':'' # append_int 2 mi
     = (append_int 4 y' @ CHR ''-'' # append_int 2 m' @ CHR ''-'' # append_int 2 d' @ CHR '' '' # append_int 2 h') @ CHR '':'' # append_int 2 mi'"
    by simp_all
  from append_sep_inj [OF 1(2)] sep have 2: "append_int 2 mi = append_int 2 mi'"
    "(append_int 4 y @ CHR ''-'' # append_int 2 m @ CHR ''-'' # append_int 2 d) @ CHR '' '' # append_int 2 h
     = (append_int 4 y' @ CHR ''-'' # append_int 2 m' @ CHR ''-'' # append_int 2 d') @ CHR '' '' # append_int 2 h'"
    by simp_all
  from append_sep_inj [OF 2(2)] sep have 3: "append_int 2 h = append_int 2 h'"
    "(append_int 4 y @ CHR ''-'' # append_int 2 m) @ CHR ''-'' # append_int 2 d
     = (append_int 4 y' @ CHR ''-'' # append_int 2 m') @ CHR ''-'' # append_int 2 d'"
    by simp_all
  from append_sep_inj [OF 3(2)] sep have 4: "append_int 2 d = append_int 2 d'"
    "append_int 4 y @ CHR ''-'' # append_int 2 m = append_int 4 y' @ CHR ''-'' # append_int 2 m'"
    by simp_all
  from append_sep_inj [OF 4(2)] sep have 5: "append_int 4 y = append_int 4 y'" "append_int 2 m = append_int 2 m'"
    by simp_all
  have "date_of t = date_of t'" using append_int_inj [OF 5(1)] append_int_inj [OF 5(2)] append_int_inj [OF 4(1)] p p' by simp
  moreover have "s = s' \<and> ?n = ?n'" using time_frac_inj [OF 1(1)] pos nn by simp
  moreover from this have "clock_of t = clock_of t'" using append_int_inj [OF 3(1)] append_int_inj [OF 2(1)] p p' by simp
  ultimately have "t div NANOS = t' div NANOS" "?n = ?n'"
    using date_of_inj clock_of_inj by (metis mult_div_mod_eq, simp)
  then show ?thesis by (metis mult_div_mod_eq)
qed

lemma time_String_bracket: "CHR ''['' \<notin> set (time_String t)"
proof -
  obtain y m d h mi s where p: "date_of t = (y, m, d)" "clock_of t = (h, mi, s)" by (metis prod_cases3)
  have "CHR ''['' \<notin> set (append_int 4 y)"
    using show_nat_not_in [of "CHR ''[''" "nat \<bar>y\<bar>"] by (simp add: append_int_def pad_left_def)
  moreover have "0 \<le> t mod NANOS" by (simp add: NANOS_def)
  ultimately show ?thesis
    unfolding time_String_eq [OF p] using date_of_nonneg [OF p(1)] clock_of_nonneg [OF p(2)]
    by (simp add: append_int_not_in time_frac_not_in)
qed

lemma ConcatFilename_eq:
  "ConcatFilename f s = ConcatFilename g t \<longleftrightarrow> f = g \<and> s = t"
proof
  assume eq: "ConcatFilename f s = ConcatFilename g t"
  let ?a = "\<lambda>s. time_String (seq_time s) @ '']''" and ?b = "\<lambda>s. show_int (seq_count s) @ '']''"
  have c: "CHR ''['' \<notin> set (?b s)" for s by (simp add: show_int_not_in)
  have a: "CHR ''['' \<notin> set (?a s)" for s by (simp add: time_String_bracket)
  from eq have 0: "(f @ '']'' @ CHR ''['' # ?a s) @ CHR ''['' # ?b s = (g @ '']'' @ CHR ''['' # ?a t) @ CHR ''['' # ?b t"
    by (simp add: ConcatFilename_def)
  note 1 = append_sep_inj [OF 0 c c]
  then have 2: "(f @ '']'') @ CHR ''['' # ?a s = (g @ '']'') @ CHR ''['' # ?a t" by simp
  from append_sep_inj [OF 2 a a] 1 time_String_inj show "f = g \<and> s = t"
    by (auto simp: show_int_inj intro: sequence.expand)
qed simp

text \<open>The local name of a file version determines the file name and the sequence number, so two
  different versions of SDFS files, of the same file or of different ones, never share a local file
  or a cache key. No restriction on the characters of the file name is needed.\<close>

lemma ConcatFilename_inj:
  "ConcatFilename f s = ConcatFilename g t \<longleftrightarrow> f = g \<and> s = t"
  by (rule ConcatFilename_eq)

end
