(* ===== verification/Ring.thy ===== *)
theory Ring
  imports Utils
begin

text \<open>
  The membership ring (\<open>ring/server.go\<close>, \<open>ring/mem_list.go\<close>, \<open>ring/event.go\<close>,
  \<open>ring/service.go\<close>): the state of one server, the handlers of the gossip protocol and the
  election of the leader. The list of members holds pointers; the server's own process object is
  shared with the field \<open>Process\<close>, so an entry is \<open>Self\<close> or an object of its own. A
  handler runs under the server's lock, so it is one atomic function; what it starts with
  \<open>go\<close> is returned as a list of \<open>spawn\<close>s. Every reading of the clock is an argument.
  Marshalling (the protobuf library) is a pair of parameters. Logging is omitted.
\<close>

section \<open>State\<close>

datatype mem_action = MEMBER_DELETE | MEMBER_INSERT | MEMBER_LEAVED

datatype entry = Self | Peer process

record ring_server =
  rs_Process :: process
  MembershipList :: "entry list"
  ExpirationPool :: "(string \<times> time) list"

datatype spawn = GoUpdateLeader | GoOnMemberUpdate process mem_action

definition MAX_SUCCESSORS :: int where "MAX_SUCCESSORS = 6"
definition ACK_MESSAGE :: string where "ACK_MESSAGE = ''PONG''"
definition EXPIRATION_TIME :: time where "EXPIRATION_TIME = 6000 * 1000000"

definition deref :: "ring_server \<Rightarrow> entry \<Rightarrow> process" where
  "deref s e = (case e of Self \<Rightarrow> rs_Process s | Peer p \<Rightarrow> p)"

definition members :: "ring_server \<Rightarrow> process list" where
  "members s = map (deref s) (MembershipList s)"

text \<open>Assigning through the pointer at a position of the list.\<close>

definition modify_member :: "nat \<Rightarrow> (process \<Rightarrow> process) \<Rightarrow> ring_server \<Rightarrow> ring_server" where
  "modify_member i f s =
     (case MembershipList s ! i of
        Self \<Rightarrow> s\<lparr>rs_Process := f (rs_Process s)\<rparr>
      | Peer p \<Rightarrow> s\<lparr>MembershipList := (MembershipList s)[i := Peer (f p)]\<rparr>)"

section \<open>server.go and mem\_list.go\<close>

definition NewRingServer :: "string \<Rightarrow> int \<Rightarrow> ring_server" where
  "NewRingServer ip0 port0 =
     \<lparr>rs_Process = \<lparr>ip = ip0, port = port0, joinTime = 0, lastUpdateTime = 0, status = Alive\<rparr>,
      MembershipList = [], ExpirationPool = []\<rparr>"

definition mem_Less :: "process \<Rightarrow> process \<Rightarrow> bool" where
  "mem_Less p q \<longleftrightarrow> joinTime p < joinTime q"

definition mem_Filter :: "(process \<Rightarrow> bool) \<Rightarrow> process list \<Rightarrow> process list" where
  "mem_Filter predicate m = filter predicate m"

definition sort_members :: "ring_server \<Rightarrow> ring_server" where
  "sort_members s =
     s\<lparr>MembershipList := sort_Sort (\<lambda>a b. mem_Less (deref s a) (deref s b)) (MembershipList s)\<rparr>"

definition FindProcessIndex :: "process \<Rightarrow> ring_server \<Rightarrow> int" where
  "FindProcessIndex process s = find_index (\<lambda>p. IsSameProcess (Some p) (Some process)) (members s)"

definition NotifyMemberUpdate :: "process \<Rightarrow> mem_action \<Rightarrow> spawn list" where
  "NotifyMemberUpdate process action = [GoUpdateLeader, GoOnMemberUpdate process action]"

text \<open>The loop of \<open>RecyclePool\<close> over the pool; it returns the addresses to delete as well.\<close>

fun RecyclePool_loop :: "time \<Rightarrow> (string \<times> time) list \<Rightarrow> ring_server \<Rightarrow> ring_server \<times> string list \<times> spawn list" where
  "RecyclePool_loop currTime [] s = (s, [], [])"
| "RecyclePool_loop currTime ((address, expiredTime) # pool) s =
     (if currTime > expiredTime then
        let processIndex = find_index (\<lambda>p. address = Address p) (members s) in
        if processIndex = -1 then RecyclePool_loop currTime pool s
        else
          let i = nat processIndex;
              deletedProcess = members s ! i;
              s1 = s\<lparr>MembershipList := take i (MembershipList s) @ drop (i + 1) (MembershipList s)\<rparr>;
              (s2, deleted, sp) = RecyclePool_loop currTime pool s1
          in (s2, address # deleted, NotifyMemberUpdate deletedProcess MEMBER_DELETE @ sp)
      else RecyclePool_loop currTime pool s)"

definition RecyclePool :: "time \<Rightarrow> ring_server \<Rightarrow> ring_server \<times> spawn list" where
  "RecyclePool currTime s =
     (let (s1, deletedAddresses, sp) = RecyclePool_loop currTime (ExpirationPool s) s
      in (s1\<lparr>ExpirationPool := fold AList.delete deletedAddresses (ExpirationPool s1)\<rparr>, sp))"

text \<open>The loop of \<open>Successors\<close> on the sorted list, with \<open>k\<close> iterations left. The index is
  always in range, so it does not panic.\<close>

fun Successors_loop :: "process \<Rightarrow> process list \<Rightarrow> int \<Rightarrow> nat \<Rightarrow> nat \<Rightarrow> process list" where
  "Successors_loop self ms index i 0 = []"
| "Successors_loop self ms index i (Suc k) =
     (let process = ms ! nat ((index + int i + 1) mod int (length ms)) in
      if IsSameProcess (Some process) (Some self) then []
      else process # Successors_loop self ms index (i + 1) k)"

definition Successors :: "ring_server \<Rightarrow> process list \<times> ring_server" where
  "Successors s =
     (let s1 = sort_members s;
          index = FindProcessIndex (rs_Process s1) s1
      in (Successors_loop (rs_Process s1) (members s1) index 0
            (nat (min MAX_SUCCESSORS (int (length (members s1))))), s1))"

definition GetMembershipList :: "ring_server \<Rightarrow> process list" where
  "GetMembershipList s = members s"

text \<open>The rows \<open>ListMembers\<close> prints: address, join time and status, and the total.\<close>

definition ListMembers :: "ring_server \<Rightarrow> ((string \<times> time \<times> status) list \<times> nat) \<times> ring_server" where
  "ListMembers s =
     (let s1 = sort_members s in
      ((map (\<lambda>p. (Address p, joinTime p, status p)) (members s1), length (members s1)), s1))"

definition ListSelf :: "ring_server \<Rightarrow> string \<times> time \<times> status" where
  "ListSelf s = (Address (rs_Process s), joinTime (rs_Process s), status (rs_Process s))"

section \<open>event.go\<close>

text \<open>One iteration of the loop of \<open>OnPing\<close>, reading the clock at most once.\<close>

definition OnPing_one :: "time \<Rightarrow> process \<Rightarrow> ring_server \<Rightarrow> ring_server \<times> spawn list" where
  "OnPing_one now process s =
     (if IsSameProcess (Some process) (Some (rs_Process s)) then (s, [])
      else
        let processIndex = FindProcessIndex process s in
        if processIndex = -1 then
          (if status process \<noteq> Alive then (s, [])
           else (s\<lparr>MembershipList := MembershipList s @ [Peer process]\<rparr>,
                 NotifyMemberUpdate process MEMBER_INSERT))
        else
          let i = nat processIndex; currProcess = members s ! i in
          if \<not> lastUpdateTime process > lastUpdateTime currProcess then (s, [])
          else
            let s1 = modify_member i (\<lambda>c. c\<lparr>lastUpdateTime := lastUpdateTime process, status := status process\<rparr>) s;
                ok = mem_key (Address process) (ExpirationPool s1) in
            if status (members s1 ! i) = Alive then
              (if ok then (s1\<lparr>ExpirationPool := AList.delete (Address process) (ExpirationPool s1)\<rparr>, [])
               else (s1, []))
            else
              (if \<not> ok then (s1\<lparr>ExpirationPool := AList.update (Address process) (now + EXPIRATION_TIME) (ExpirationPool s1)\<rparr>, [])
               else (s1, [])))"

text \<open>\<open>OnPing\<close> with the clock reading of each iteration; the acknowledgement follows.\<close>

fun OnPing :: "(nat \<Rightarrow> time) \<Rightarrow> process list \<Rightarrow> ring_server \<Rightarrow> ring_server \<times> spawn list" where
  "OnPing clock [] s = (s, [])"
| "OnPing clock (p # ps) s =
     (let (s1, sp1) = OnPing_one (clock 0) p s;
          (s2, sp2) = OnPing (\<lambda>i. clock (Suc i)) ps s1
      in (s2, sp1 @ sp2))"

definition OnAck :: "time \<Rightarrow> process \<Rightarrow> ring_server \<Rightarrow> ring_server" where
  "OnAck now process s =
     (let processIndex = FindProcessIndex process s in
      if processIndex = -1 then s
      else modify_member (nat processIndex) (\<lambda>c. c\<lparr>lastUpdateTime := now\<rparr>) s)"

text \<open>\<open>OnJoin\<close>: \<open>marshal\<close> yields \<open>None\<close> on an error, \<open>sent\<close> says whether writing the reply
  succeeded. It returns the reply as well. A nil process (a join message without one) panics.\<close>

definition OnJoin :: "(metadata \<Rightarrow> string option) \<Rightarrow> bool \<Rightarrow> time \<Rightarrow> time \<Rightarrow> process option \<Rightarrow> ring_server
    \<Rightarrow> (ring_server \<times> string option \<times> spawn list) run" where
  "OnJoin marshal sent t1 t2 process s =
     (case process of
        None \<Rightarrow> Inl NilDereference
      | Some p \<Rightarrow>
          if FindProcessIndex p s \<noteq> -1 then Inr (s, None, [])
          else
            let p1 = p\<lparr>lastUpdateTime := t1, joinTime := t2, status := Alive\<rparr> in
            case marshal \<lparr>meta_type = MT_Join, meta_message = Some (JoinMessage (Some p1))\<rparr> of
              None \<Rightarrow> Inr (s, None, [])
            | Some res \<Rightarrow>
                if \<not> sent then Inr (s, None, [])
                else Inr (s\<lparr>MembershipList := MembershipList s @ [Peer p1]\<rparr>, Some res,
                          NotifyMemberUpdate p1 MEMBER_INSERT))"

definition OnLeave :: "time \<Rightarrow> process option \<Rightarrow> ring_server \<Rightarrow> ring_server run" where
  "OnLeave now process s =
     (case process of
        None \<Rightarrow> Inl NilDereference
      | Some p \<Rightarrow>
          let processIndex = FindProcessIndex p s in
          if processIndex = -1 then Inr s
          else
            let s1 = modify_member (nat processIndex) (\<lambda>c. c\<lparr>status := Leaved\<rparr>) s
            in Inr (s1\<lparr>ExpirationPool := AList.update (Address p) (now + EXPIRATION_TIME) (ExpirationPool s1)\<rparr>))"

definition OnFailure :: "time \<Rightarrow> time \<Rightarrow> process \<Rightarrow> ring_server \<Rightarrow> ring_server" where
  "OnFailure t1 t2 process s =
     (let processIndex = FindProcessIndex process s in
      if processIndex = -1 then s
      else
        let s1 = modify_member (nat processIndex) (\<lambda>c. c\<lparr>status := Timeout, lastUpdateTime := t1\<rparr>) s in
        if \<not> mem_key (Address process) (ExpirationPool s1)
        then s1\<lparr>ExpirationPool := AList.update (Address process) (t2 + EXPIRATION_TIME) (ExpirationPool s1)\<rparr>
        else s1)"

section \<open>service.go\<close>

definition Leave :: "ring_server \<Rightarrow> ring_server \<times> spawn list" where
  "Leave s =
     (let s1 = s\<lparr>rs_Process := (rs_Process s)\<lparr>status := Leaved\<rparr>, MembershipList := []\<rparr>
      in (s1, [GoOnMemberUpdate (rs_Process s1) MEMBER_LEAVED]))"

text \<open>The outcome of a request over UDP: a failure, a dropped or unsent request, or a reply.\<close>

datatype exchange = DialError | WriteError | ReadError | Reply string

text \<open>One tick of \<open>Cron\<close> up to the point where a ping is started for each successor.\<close>

definition Cron_tick :: "time \<Rightarrow> time \<Rightarrow> ring_server \<Rightarrow> process list \<times> ring_server \<times> spawn list" where
  "Cron_tick tick now s =
     (let (s1, sp) = RecyclePool tick s;
          s2 = s1\<lparr>rs_Process := (rs_Process s1)\<lparr>lastUpdateTime := now\<rparr>\<rparr>;
          (successors, s3) = Successors s2
      in (successors, s3, sp))"

definition Ping_message :: "ring_server \<Rightarrow> metadata" where
  "Ping_message s = \<lparr>meta_type = MT_Ping, meta_message = Some (PingMessage (members s))\<rparr>"

text \<open>\<open>Ping\<close> returns whether it failed. An acknowledgement that decodes but is not one is reported
  with the nil error of the decoding, so it does not count as a failure.\<close>

definition Ping :: "(metadata \<Rightarrow> string option) \<Rightarrow> (string \<Rightarrow> metadata \<times> bool) \<Rightarrow> exchange \<Rightarrow> time \<Rightarrow> process
    \<Rightarrow> ring_server \<Rightarrow> bool \<times> ring_server" where
  "Ping marshal unmarshal x now process s =
     (case marshal (Ping_message s) of
        None \<Rightarrow> (True, s)
      | Some _ \<Rightarrow>
          (case x of
             Reply b \<Rightarrow>
               (case unmarshal b of
                  (ackMeta, err) \<Rightarrow>
                    if err then (True, s)
                    else if meta_type ackMeta \<noteq> MT_Ack \<or> GetAck_received ackMeta \<noteq> ACK_MESSAGE then (False, s)
                    else (False, OnAck now process s))
           | _ \<Rightarrow> (True, s)))"

text \<open>The goroutine \<open>Cron\<close> starts for a successor.\<close>

definition Cron_ping :: "(metadata \<Rightarrow> string option) \<Rightarrow> (string \<Rightarrow> metadata \<times> bool) \<Rightarrow> exchange \<Rightarrow> time \<Rightarrow> time
    \<Rightarrow> time \<Rightarrow> process \<Rightarrow> ring_server \<Rightarrow> ring_server" where
  "Cron_ping marshal unmarshal x now t1 t2 process s =
     (case Ping marshal unmarshal x now process s of
        (err, s1) \<Rightarrow> if err then OnFailure t1 t2 process s1 else s1)"

definition Ack_message :: metadata where
  "Ack_message = \<lparr>meta_type = MT_Ack, meta_message = Some (AckMessage ACK_MESSAGE)\<rparr>"

text \<open>One iteration of \<open>Listen\<close> on a datagram: ignored, the loop ends with an error, or a handler
  is started.\<close>

datatype listen_result =
    Ignored
  | ListenError
  | GoOnPing "process list"
  | GoOnJoin "process option"
  | GoOnLeave "process option"

definition Listen_one :: "(string \<Rightarrow> metadata \<times> bool) \<Rightarrow> string option \<Rightarrow> ring_server \<Rightarrow> listen_result" where
  "Listen_one unmarshal datagram s =
     (case datagram of
        None \<Rightarrow> ListenError
      | Some b \<Rightarrow>
          if status (rs_Process s) = Leaved then Ignored
          else
            (case unmarshal b of
               (meta, err) \<Rightarrow>
                 if err then ListenError
                 else (case meta_type meta of
                   MT_Ping \<Rightarrow> GoOnPing (GetPing_processes meta)
                 | MT_Join \<Rightarrow> GoOnJoin (GetJoin_process meta)
                 | MT_Leave \<Rightarrow> GoOnLeave (GetLeave_process meta)
                 | MT_Ack \<Rightarrow> Ignored)))"

text \<open>The loop of \<open>Listen\<close> over the datagrams that arrive, each with the state of the server at that time: the handlers
  it starts, and whether it goes on.\<close>

fun Listen :: "(string \<Rightarrow> metadata \<times> bool) \<Rightarrow> (string option \<times> ring_server) list \<Rightarrow> listen_result list \<times> bool" where
  "Listen unmarshal [] = ([], True)"
| "Listen unmarshal ((datagram, s) # ds) =
     (case Listen_one unmarshal datagram s of
        ListenError \<Rightarrow> ([], False)
      | Ignored \<Rightarrow> Listen unmarshal ds
      | h \<Rightarrow> (h # fst (Listen unmarshal ds), snd (Listen unmarshal ds)))"

text \<open>One datagram that does not decode ends it, whatever comes later.\<close>

lemma Listen_ends:
  assumes "status (rs_Process s) \<noteq> Leaved" and "snd (unmarshal b)"
  shows "Listen unmarshal (pre @ (Some b, s) # ds) = (fst (Listen unmarshal pre), False)"
proof (induction pre)
  case Nil
  have "Listen_one unmarshal (Some b) s = ListenError" using assms by (cases "unmarshal b") (simp add: Listen_one_def)
  then show ?case by simp
next
  case (Cons e pre)
  then show ?case by (cases e) (simp split: listen_result.splits)
qed

text \<open>\<open>LookupLeader\<close>: the DNS service (dialled only when the list is empty) answers \<open>dns\<close>.\<close>

definition LookupLeader :: "string option \<Rightarrow> ring_server \<Rightarrow> string option \<times> ring_server" where
  "LookupLeader dns s =
     (if length (MembershipList s) > 0
      then let s1 = sort_members s in (Some (Address (members s1 ! 0)), s1)
      else (dns, s))"

text \<open>\<open>UpdateLeader\<close> sends its process to the DNS service only when it comes first.\<close>

definition UpdateLeader :: "ring_server \<Rightarrow> process option \<times> ring_server" where
  "UpdateLeader s =
     (let s1 = sort_members s;
          shouldUpdate = (length (MembershipList s1) > 0
            \<and> IsSameProcess (Some (rs_Process s1)) (Some (members s1 ! 0)))
      in (if shouldUpdate then Some (rs_Process s1) else None, s1))"

text \<open>The two ways \<open>Join\<close> changes the server: it starts a ring, or takes over the process object of
  the introducer's reply. An entry that pointed to the old process object keeps pointing to it.\<close>

definition Join_alone :: "time \<Rightarrow> time \<Rightarrow> ring_server \<Rightarrow> ring_server \<times> spawn list" where
  "Join_alone t1 t2 s =
     (let s1 = s\<lparr>rs_Process := (rs_Process s)\<lparr>lastUpdateTime := t1, joinTime := t2, status := Alive\<rparr>\<rparr>;
          s2 = s1\<lparr>MembershipList := MembershipList s1 @ [Self]\<rparr>
      in (s2, NotifyMemberUpdate (rs_Process s2) MEMBER_INSERT))"

definition Join_reply :: "process \<Rightarrow> ring_server \<Rightarrow> ring_server \<times> spawn list" where
  "Join_reply p s =
     (s\<lparr>rs_Process := p, MembershipList := map (\<lambda>e. Peer (deref s e)) (MembershipList s) @ [Self]\<rparr>,
      [GoOnMemberUpdate p MEMBER_INSERT])"

datatype join_result = JoinOK | JoinError

text \<open>\<open>Join\<close>. Two errors are returned as nil: an already joined process, and a reply that
  is not a join message when it decodes. A join reply without a join message panics.\<close>

definition Join :: "(metadata \<Rightarrow> string option) \<Rightarrow> (string \<Rightarrow> metadata \<times> bool) \<Rightarrow> string option \<Rightarrow> exchange \<Rightarrow> time \<Rightarrow> time
    \<Rightarrow> ring_server \<Rightarrow> (join_result \<times> ring_server \<times> spawn list) run" where
  "Join marshal unmarshal dns x t1 t2 s =
     (if FindProcessIndex (rs_Process s) s \<noteq> -1 then Inr (JoinOK, s, [])
      else
        case marshal \<lparr>meta_type = MT_Join, meta_message = Some (JoinMessage (Some (rs_Process s)))\<rparr> of
          None \<Rightarrow> Inr (JoinError, s, [])
        | Some _ \<Rightarrow>
            (case LookupLeader dns s of
               (None, s1) \<Rightarrow> Inr (JoinError, s1, [])
             | (Some leaderAddr, s1) \<Rightarrow>
                 if leaderAddr = '''' then (case Join_alone t1 t2 s1 of (s2, sp) \<Rightarrow> Inr (JoinOK, s2, sp))
                 else
                   (case x of
                      Reply b \<Rightarrow>
                        (case unmarshal b of
                           (processMeta, err) \<Rightarrow>
                             if meta_type processMeta \<noteq> MT_Join then Inr (if err then JoinError else JoinOK, s1, [])
                             else (case meta_message processMeta of
                               Some (JoinMessage (Some p)) \<Rightarrow>
                                 (case Join_reply p s1 of (s2, sp) \<Rightarrow> Inr (JoinOK, s2, sp))
                             | Some (JoinMessage None) \<Rightarrow> Inr (if err then JoinError else JoinOK, s1, [])
                             | _ \<Rightarrow> Inl NilDereference))
                    | _ \<Rightarrow> Inr (JoinError, s1, []))))"

section \<open>Members and their identity\<close>

abbreviation idents :: "ring_server \<Rightarrow> (string \<times> int \<times> time) list" where
  "idents s \<equiv> map ident (members s)"

abbreviation addresses :: "ring_server \<Rightarrow> string list" where
  "addresses s \<equiv> map Address (members s)"

lemma length_members [simp]: "length (members s) = length (MembershipList s)"
  by (simp add: members_def)

lemma members_updates [simp]:
  "members (s\<lparr>ExpirationPool := pool\<rparr>) = members s"
  "members (s\<lparr>MembershipList := es\<rparr>) = map (deref s) es"
  by (auto simp: members_def deref_def split: entry.splits)

lemma members_nth: "j < length (MembershipList s) \<Longrightarrow> members s ! j = deref s (MembershipList s ! j)"
  by (simp add: members_def)

lemma map_deref [simp]: "map (deref s) (MembershipList s) = members s"
  by (simp add: members_def)

lemma deref_Peer [simp]: "deref s (Peer p) = p" "deref s Self = rs_Process s"
  by (simp_all add: deref_def)

lemma distinct_addresses_idents: "distinct (addresses s) \<Longrightarrow> distinct (idents s)"
  by (auto simp: distinct_map inj_on_def dest: ident_Address)

lemma FindProcessIndex_none: "FindProcessIndex p s = -1 \<longleftrightarrow> ident p \<notin> ident ` set (members s)"
  by (auto simp: FindProcessIndex_def image_iff dest: sym)

lemma FindProcessIndex_some:
  assumes "FindProcessIndex p s \<noteq> -1"
  shows "nat (FindProcessIndex p s) < length (members s)"
    and "ident (members s ! nat (FindProcessIndex p s)) = ident p"
proof -
  have ex: "\<exists>q \<in> set (members s). IsSameProcess (Some q) (Some p)"
    using assms by (auto simp: FindProcessIndex_none)
  from find_index_some [OF ex] show "nat (FindProcessIndex p s) < length (members s)"
    and "ident (members s ! nat (FindProcessIndex p s)) = ident p"
    by (auto simp: FindProcessIndex_def nat_less_iff)
qed

lemma list_update_by_key:
  assumes "distinct (map g xs)" and "i < length xs"
  shows "xs[i := f (xs ! i)] = map (\<lambda>x. if g x = g (xs ! i) then f x else x) xs"
proof (rule nth_equalityI)
  fix j
  assume "j < length (xs[i := f (xs ! i)])"
  then show "xs[i := f (xs ! i)] ! j = map (\<lambda>x. if g x = g (xs ! i) then f x else x) xs ! j"
    using assms nth_eq_iff_index_eq [OF assms(1), of i j] by (cases "i = j") auto
qed simp

lemma members_modify:
  assumes "distinct (idents s)" and "FindProcessIndex p s \<noteq> -1"
  shows "members (modify_member (nat (FindProcessIndex p s)) f s)
    = map (\<lambda>q. if ident q = ident p then f q else q) (members s)"
proof -
  let ?i = "nat (FindProcessIndex p s)" and ?es = "MembershipList s"
  note I = FindProcessIndex_some [OF assms(2)]
  have "members (modify_member ?i f s) = (members s)[?i := f (members s ! ?i)]"
  proof (cases "?es ! ?i")
    case Self
    have "deref (s\<lparr>rs_Process := f (rs_Process s)\<rparr>) (?es ! j) = (members s)[?i := f (members s ! ?i)] ! j"
      if "j < length ?es" for j
    proof (cases "j = ?i")
      case False
      then have "ident (members s ! j) \<noteq> ident (members s ! ?i)"
        using assms(1) I(1) that by (simp add: distinct_conv_nth)
      then have "?es ! j \<noteq> Self" using Self that I(1) by (auto simp: members_nth)
      with False that show ?thesis by (cases "?es ! j") (simp_all add: members_nth)
    qed (use Self I(1) in \<open>simp add: members_nth\<close>)
    then have "map (deref (s\<lparr>rs_Process := f (rs_Process s)\<rparr>)) ?es = (members s)[?i := f (members s ! ?i)]"
      by (intro nth_equalityI) simp_all
    then show ?thesis
      using Self by (simp add: modify_member_def members_def [of "s\<lparr>rs_Process := f (rs_Process s)\<rparr>"])
  next
    case (Peer q)
    then show ?thesis using I(1) by (simp add: modify_member_def map_update members_nth)
  qed
  also have "\<dots> = map (\<lambda>q. if ident q = ident p then f q else q) (members s)"
    using list_update_by_key [OF assms(1) I(1), of f] I(2) by simp
  finally show ?thesis .
qed

lemma modify_member_pool [simp]: "ExpirationPool (modify_member i f s) = ExpirationPool s"
  by (simp add: modify_member_def split: entry.splits)

lemma modify_member_same_pool [simp]:
  "(modify_member i f s)\<lparr>ExpirationPool := ExpirationPool s\<rparr> = modify_member i f s"
  by (rule ring_server.equality) simp_all

lemma modify_member_self:
  assumes "\<And>q. ident (f q) = ident q"
  shows "ident (rs_Process (modify_member i f s)) = ident (rs_Process s)"
  by (simp add: modify_member_def assms split: entry.splits)

lemma map_if_none: "k \<notin> g ` set xs \<Longrightarrow> map (\<lambda>x. if g x = k then f x else x) xs = xs"
  by (rule map_idI) auto

section \<open>Gossip as a merge of views\<close>

text \<open>What one server believes of each process.\<close>

definition view :: "ring_server \<Rightarrow> (string \<times> int \<times> time) \<rightharpoonup> (time \<times> status)" where
  "view s = map_of (map (\<lambda>p. (ident p, lastUpdateTime p, status p)) (members s))"

text \<open>The specification of gossip: the newer report about a known process wins, an unknown process is
  added when it is reported alive.\<close>

definition merge_report :: "process \<Rightarrow> ((string \<times> int \<times> time) \<rightharpoonup> (time \<times> status)) \<Rightarrow> ((string \<times> int \<times> time) \<rightharpoonup> (time \<times> status))" where
  "merge_report p v =
     (case v (ident p) of
        None \<Rightarrow> if status p = Alive then v(ident p \<mapsto> (lastUpdateTime p, status p)) else v
      | Some (t, _) \<Rightarrow> if t < lastUpdateTime p then v(ident p \<mapsto> (lastUpdateTime p, status p)) else v)"

text \<open>The effect of a report about a process on an entry of the list.\<close>

definition refresh :: "process \<Rightarrow> process \<Rightarrow> process" where
  "refresh p q =
     (if ident q = ident p \<and> lastUpdateTime q < lastUpdateTime p
      then q\<lparr>lastUpdateTime := lastUpdateTime p, status := status p\<rparr> else q)"

lemma ident_refresh [simp]: "ident (refresh p q) = ident q"
  by (simp add: refresh_def)

lemma ident_comp_refresh [simp]: "ident \<circ> refresh p = ident"
  by auto

lemma refresh_other: "ident q \<noteq> ident p \<Longrightarrow> refresh p q = q"
  by (simp add: refresh_def)

lemma OnPing_one_members:
  assumes "distinct (idents s)"
  shows "members (fst (OnPing_one now p s)) =
     (if ident p = ident (rs_Process s) then members s
      else if ident p \<in> ident ` set (members s) then map (refresh p) (members s)
      else if status p = Alive then members s @ [p] else members s)"
proof -
  let ?i = "nat (FindProcessIndex p s)"
  consider "ident p = ident (rs_Process s)" | "ident p \<noteq> ident (rs_Process s)" "FindProcessIndex p s = -1"
    | "ident p \<noteq> ident (rs_Process s)" "FindProcessIndex p s \<noteq> -1" by blast
  then show ?thesis
  proof cases
    case 2
    then show ?thesis by (auto simp: OnPing_one_def FindProcessIndex_none)
  next
    case 3
    note I = FindProcessIndex_some [OF 3(2)]
    have uniq: "q = members s ! ?i" if "q \<in> set (members s)" "ident q = ident p" for q
      using assms that I by (metis distinct_map inj_on_def nth_mem)
    have mem: "ident p \<in> ident ` set (members s)" using 3(2) by (simp add: FindProcessIndex_none)
    have "members (fst (OnPing_one now p s)) = map (refresh p) (members s)"
    proof (cases "lastUpdateTime (members s ! ?i) < lastUpdateTime p")
      case True
      have "members (fst (OnPing_one now p s)) =
          map (\<lambda>q. if ident q = ident p then q\<lparr>lastUpdateTime := lastUpdateTime p, status := status p\<rparr> else q) (members s)"
        using 3 True members_modify [OF assms 3(2)] by (simp add: OnPing_one_def Let_def)
      also have "\<dots> = map (refresh p) (members s)"
        by (rule map_cong) (use uniq True in \<open>auto simp: refresh_def\<close>)
      finally show ?thesis .
    next
      case False
      then have "refresh p q = q" if "q \<in> set (members s)" for q
        using uniq [OF that] by (auto simp: refresh_def)
      then have "map (refresh p) (members s) = members s" by (simp add: map_idI)
      then show ?thesis using 3 False by (simp add: OnPing_one_def Let_def)
    qed
    with 3(1) mem show ?thesis by simp
  qed (simp add: OnPing_one_def)
qed

lemma OnPing_one_self: "ident (rs_Process (fst (OnPing_one now p s))) = ident (rs_Process s)"
  by (auto simp: OnPing_one_def Let_def modify_member_self)

lemma OnPing_one_distinct:
  assumes "distinct (idents s)"
  shows "distinct (idents (fst (OnPing_one now p s)))"
  using assms by (simp add: OnPing_one_members [OF assms])

lemma map_of_modify:
  assumes "\<And>r. ident (h r) = ident r" and "\<And>r. ident r \<noteq> k \<Longrightarrow> h r = r" and "j \<noteq> k"
  shows "map_of (map (\<lambda>r. (ident r, g r)) (map h ms)) j = map_of (map (\<lambda>r. (ident r, g r)) ms) j"
  using assms by (induction ms) auto

lemma map_of_ident:
  "distinct (map ident ms) \<Longrightarrow> q \<in> set ms \<Longrightarrow> map_of (map (\<lambda>p. (ident p, g p)) ms) (ident q) = Some (g q)"
  by (rule map_of_is_SomeI) (auto simp: comp_def)

lemma OnPing_one_view:
  assumes "distinct (idents s)"
  shows "view (fst (OnPing_one now p s)) = (if ident p = ident (rs_Process s) then view s else merge_report p (view s))"
proof -
  let ?g = "\<lambda>p. (lastUpdateTime p, status p)"
  have none: "view s (ident p) = None \<longleftrightarrow> ident p \<notin> ident ` set (members s)"
    by (auto simp: view_def map_of_eq_None_iff image_image)
  show ?thesis
  proof (cases "ident p \<in> ident ` set (members s)")
    case False
    with none have "view s (ident p) = None" by simp
    with False show ?thesis
      by (auto simp: OnPing_one_members [OF assms] view_def merge_report_def map_add_def intro!: ext split: option.splits)
  next
    case True
    then obtain q where q: "q \<in> set (members s)" "ident q = ident p" by auto
    have vq: "view s (ident p) = Some (?g q)"
      using map_of_ident [OF assms q(1), of ?g] q(2) by (simp add: view_def)
    have at: "map_of (map (\<lambda>r. (ident r, ?g r)) (map (refresh p) (members s))) (ident p) = Some (?g (refresh p q))"
      using map_of_ident [of "map (refresh p) (members s)" "refresh p q" ?g] assms q by simp
    have "map_of (map (\<lambda>r. (ident r, ?g r)) (map (refresh p) (members s))) j = merge_report p (view s) j" for j
    proof (cases "j = ident p")
      case True
      then show ?thesis unfolding True at using vq q(2) by (simp add: merge_report_def refresh_def)
    next
      case False
      then have "merge_report p (view s) j = view s j" using vq by (simp add: merge_report_def)
      moreover have "map_of (map (\<lambda>r. (ident r, ?g r)) (map (refresh p) (members s))) j = view s j"
        unfolding view_def by (rule map_of_modify [where k = "ident p"]) (simp_all add: refresh_other False)
      ultimately show ?thesis by simp
    qed
    then have "map_of (map (\<lambda>r. (ident r, ?g r)) (map (refresh p) (members s))) = merge_report p (view s)" by blast
    then show ?thesis using True by (simp add: OnPing_one_members [OF assms] view_def)
  qed
qed

lemma OnPing_distinct: "distinct (idents s) \<Longrightarrow> distinct (idents (fst (OnPing clock ps s)))"
proof (induction ps arbitrary: clock s)
  case (Cons p ps)
  from Cons.IH [OF OnPing_one_distinct [OF Cons.prems]] show ?case by (simp add: split_beta Let_def)
qed simp

lemma OnPing_self: "ident (rs_Process (fst (OnPing clock ps s))) = ident (rs_Process s)"
  by (induction ps arbitrary: clock s) (simp_all add: split_beta Let_def OnPing_one_self)

lemma OnPing_view:
  assumes "distinct (idents s)"
  shows "view (fst (OnPing clock ps s)) =
    fold merge_report (filter (\<lambda>p. ident p \<noteq> ident (rs_Process s)) ps) (view s)"
  using assms
proof (induction ps arbitrary: clock s)
  case (Cons p ps)
  from Cons.IH [OF OnPing_one_distinct [OF Cons.prems]] show ?case
    by (simp add: split_beta Let_def OnPing_one_self OnPing_one_view [OF Cons.prems])
qed simp

section \<open>The expiration pool\<close>

lemma remove_by_address:
  assumes "distinct (map Address ms)" and "find_index (\<lambda>p. a = Address p) ms \<noteq> -1"
  shows "take (nat (find_index (\<lambda>p. a = Address p) ms)) ms @ drop (Suc (nat (find_index (\<lambda>p. a = Address p) ms))) ms
    = filter (\<lambda>p. Address p \<noteq> a) ms"
proof -
  have ex: "\<exists>p \<in> set ms. a = Address p" using assms(2) by auto
  obtain xs p ys where s: "ms = xs @ p # ys" "a = Address p" "find_index (\<lambda>p. a = Address p) ms = int (length xs)"
    by (rule find_index_split [OF ex])
  have "filter (\<lambda>p. Address p \<noteq> a) zs = zs" if "Address p \<notin> Address ` set zs" for zs
    using that s(2) by (intro filter_True) (metis imageI)
  with s assms(1) show ?thesis by simp
qed

definition expired :: "time \<Rightarrow> (string \<times> time) list \<Rightarrow> string \<Rightarrow> bool" where
  "expired t pool a \<longleftrightarrow> (\<exists>e. (a, e) \<in> set pool \<and> e < t)"

lemma expired_Cons: "expired t ((a, e) # pool) b \<longleftrightarrow> b = a \<and> e < t \<or> expired t pool b"
  by (auto simp: expired_def)

definition recycled :: "time \<Rightarrow> (string \<times> time) list \<Rightarrow> ring_server \<Rightarrow> ring_server \<times> string list \<times> spawn list \<Rightarrow> bool" where
  "recycled t pool s r =
     (case r of (s', deleted, sp) \<Rightarrow>
        members s' = filter (\<lambda>p. \<not> expired t pool (Address p)) (members s)
        \<and> set deleted = {a \<in> Address ` set (members s). expired t pool a}
        \<and> rs_Process s' = rs_Process s \<and> ExpirationPool s' = ExpirationPool s
        \<and> (\<forall>p. GoOnMemberUpdate p MEMBER_DELETE \<in> set sp \<longleftrightarrow> p \<in> set (members s) \<and> expired t pool (Address p)))"

lemma RecyclePool_loop_spec:
  assumes "distinct (addresses s)" and "wf_map pool"
  shows "recycled t pool s (RecyclePool_loop t pool s)"
  using assms
proof (induction pool arbitrary: s)
  case Nil
  then show ?case by (simp add: recycled_def expired_def)
next
  case (Cons x pool)
  obtain a e where x: "x = (a, e)" by force
  let ?i = "find_index (\<lambda>p. a = Address p) (members s)"
  have pool: "wf_map pool" "a \<notin> fst ` set pool" using Cons.prems(2) x by auto
  consider "\<not> e < t \<or> ?i = -1" | "e < t" "?i \<noteq> -1" by blast
  then show ?case
  proof cases
    case 1
    then have "expired t (x # pool) (Address p) \<longleftrightarrow> expired t pool (Address p)" if "p \<in> set (members s)" for p
      using that by (auto simp: x expired_Cons)
    then have "recycled t (x # pool) s r \<longleftrightarrow> recycled t pool s r" for r
      by (auto simp: recycled_def cong: filter_cong conj_cong split: prod.splits)
    moreover have "RecyclePool_loop t (x # pool) s = RecyclePool_loop t pool s" using 1 x by (auto simp: Let_def)
    ultimately show ?thesis using Cons.IH [OF Cons.prems(1) pool(1)] by simp
  next
    case 2
    let ?s = "s\<lparr>MembershipList := take (nat ?i) (MembershipList s) @ drop (nat ?i + 1) (MembershipList s)\<rparr>"
    have m: "members ?s = filter (\<lambda>p. Address p \<noteq> a) (members s)"
      using remove_by_address [OF Cons.prems(1) 2(2)] by (simp add: take_map [symmetric] drop_map [symmetric])
    have "distinct (addresses ?s)" unfolding m using Cons.prems(1) by (rule distinct_map_filter)
    note IH = Cons.IH [OF this pool(1)]
    obtain s' d sp where r: "RecyclePool_loop t pool ?s = (s', d, sp)" by (metis prod_cases3)
    have loop: "RecyclePool_loop t (x # pool) s
        = (s', a # d, NotifyMemberUpdate (members s ! nat ?i) MEMBER_DELETE @ sp)"
      using 2 r x by (auto simp: Let_def)
    have ex: "\<exists>p \<in> set (members s). a = Address p" using 2(2) by auto
    note I = find_index_some [OF ex]
    have "nat ?i < length (members s)" using I(1,2) by linarith
    then have mi: "members s ! nat ?i \<in> set (members s)" by (rule nth_mem)
    have only: "p = members s ! nat ?i" if "p \<in> set (members s)" "Address p = a" for p
      using Cons.prems(1) that mi I(3) by (metis distinct_map inj_on_def)
    from IH have R: "members s' = filter (\<lambda>p. \<not> expired t pool (Address p)) (filter (\<lambda>p. Address p \<noteq> a) (members s))"
      "set d = {b \<in> Address ` set (filter (\<lambda>p. Address p \<noteq> a) (members s)). expired t pool b}"
      "rs_Process s' = rs_Process s" "ExpirationPool s' = ExpirationPool s"
      "\<And>p. GoOnMemberUpdate p MEMBER_DELETE \<in> set sp
        \<longleftrightarrow> p \<in> set (filter (\<lambda>p. Address p \<noteq> a) (members s)) \<and> expired t pool (Address p)"
      unfolding r recycled_def m by simp_all
    have "members s' = filter (\<lambda>p. \<not> expired t (x # pool) (Address p)) (members s)"
      unfolding R(1) filter_filter x expired_Cons by (rule filter_cong) (auto simp: 2(1))
    moreover have "set (a # d) = {b \<in> Address ` set (members s). expired t (x # pool) b}"
      using R(2) ex 2(1) unfolding x expired_Cons by auto
    moreover have "GoOnMemberUpdate p MEMBER_DELETE \<in> set (NotifyMemberUpdate (members s ! nat ?i) MEMBER_DELETE @ sp)
        \<longleftrightarrow> p \<in> set (members s) \<and> expired t (x # pool) (Address p)" for p
      unfolding x expired_Cons using R(5) [of p] mi only [of p] I(3) 2(1) by (auto simp: NotifyMemberUpdate_def)
    ultimately show ?thesis unfolding loop recycled_def using R(3,4) by simp
  qed
qed

lemma fold_AList_delete: "fold AList.delete ks m = filter (\<lambda>(k, v). k \<notin> set ks) m"
  by (induction ks arbitrary: m) (auto simp: AList.delete_eq intro!: filter_cong)

lemma RecyclePool_spec:
  assumes "distinct (addresses s)" and "wf_map (ExpirationPool s)"
  shows "members (fst (RecyclePool t s)) = filter (\<lambda>p. \<not> expired t (ExpirationPool s) (Address p)) (members s)"
    and "ExpirationPool (fst (RecyclePool t s))
      = filter (\<lambda>(a, e). \<not> (e < t \<and> a \<in> Address ` set (members s))) (ExpirationPool s)"
    and "rs_Process (fst (RecyclePool t s)) = rs_Process s"
    and "GoOnMemberUpdate p MEMBER_DELETE \<in> set (snd (RecyclePool t s))
      \<longleftrightarrow> p \<in> set (members s) \<and> expired t (ExpirationPool s) (Address p)"
proof -
  obtain s' d sp where r: "RecyclePool_loop t (ExpirationPool s) s = (s', d, sp)" by (metis prod_cases3)
  have R: "members s' = filter (\<lambda>p. \<not> expired t (ExpirationPool s) (Address p)) (members s)"
    "set d = {a \<in> Address ` set (members s). expired t (ExpirationPool s) a}"
    "rs_Process s' = rs_Process s" "ExpirationPool s' = ExpirationPool s"
    "\<And>p. GoOnMemberUpdate p MEMBER_DELETE \<in> set sp \<longleftrightarrow> p \<in> set (members s) \<and> expired t (ExpirationPool s) (Address p)"
    using RecyclePool_loop_spec [OF assms, of t] unfolding r recycled_def by simp_all
  have "expired t (ExpirationPool s) a \<longleftrightarrow> e < t" if "(a, e) \<in> set (ExpirationPool s)" for a e
    using that assms(2) unfolding expired_def by (metis eq_key_imp_eq_value)
  with R r show "members (fst (RecyclePool t s)) = filter (\<lambda>p. \<not> expired t (ExpirationPool s) (Address p)) (members s)"
    "ExpirationPool (fst (RecyclePool t s))
      = filter (\<lambda>(a, e). \<not> (e < t \<and> a \<in> Address ` set (members s))) (ExpirationPool s)"
    "rs_Process (fst (RecyclePool t s)) = rs_Process s"
    "GoOnMemberUpdate p MEMBER_DELETE \<in> set (snd (RecyclePool t s))
      \<longleftrightarrow> p \<in> set (members s) \<and> expired t (ExpirationPool s) (Address p)"
    by (auto simp: RecyclePool_def fold_AList_delete intro!: filter_cong)
qed

section \<open>Invariant of the ring\<close>

text \<open>Every member that is not alive is waiting in the expiration pool, and addresses are unique.\<close>

definition ring_inv :: "ring_server \<Rightarrow> bool" where
  "ring_inv s \<longleftrightarrow> distinct (addresses s) \<and> wf_map (ExpirationPool s)
     \<and> (\<forall>p \<in> set (members s). status p \<noteq> Alive \<longrightarrow> mem_key (Address p) (ExpirationPool s))"

text \<open>No report brings a second incarnation of an address that is in use.\<close>

definition no_rejoin :: "process list \<Rightarrow> ring_server \<Rightarrow> bool" where
  "no_rejoin ps s \<longleftrightarrow>
     (\<forall>p \<in> set ps. \<forall>q \<in> set (members s) \<union> set ps. Address p = Address q \<longrightarrow> ident p = ident q)"

lemma modify_inv:
  assumes inv: "ring_inv s" and f: "\<And>q. Address (f q) = Address q" and i: "FindProcessIndex p s \<noteq> -1"
    and pool: "wf_map pool'" "\<And>a. a \<noteq> Address p \<Longrightarrow> mem_key a (ExpirationPool s) \<Longrightarrow> mem_key a pool'"
      "\<And>q. status (f q) \<noteq> Alive \<Longrightarrow> Address q = Address p \<Longrightarrow> q \<in> set (members s) \<Longrightarrow> mem_key (Address p) pool'"
  shows "ring_inv ((modify_member (nat (FindProcessIndex p s)) f s)\<lparr>ExpirationPool := pool'\<rparr>)"
proof -
  have dist: "distinct (addresses s)" using inv by (simp add: ring_inv_def)
  have m: "members (modify_member (nat (FindProcessIndex p s)) f s)
    = map (\<lambda>q. if ident q = ident p then f q else q) (members s)"
    by (rule members_modify [OF distinct_addresses_idents [OF dist] i])
  have "map Address (map (\<lambda>q. if ident q = ident p then f q else q) (members s)) = addresses s" using f by simp
  then have "distinct (map Address (map (\<lambda>q. if ident q = ident p then f q else q) (members s)))"
    using dist by (simp only:)
  moreover obtain q0 where q0: "q0 \<in> set (members s)" "ident q0 = ident p" using i by (auto simp: FindProcessIndex_none)
  have "mem_key (Address q') pool'"
    if "q' \<in> set (map (\<lambda>q. if ident q = ident p then f q else q) (members s))" "status q' \<noteq> Alive" for q'
  proof -
    from that(1) obtain q where q: "q \<in> set (members s)" "q' = (if ident q = ident p then f q else q)" by auto
    show ?thesis
    proof (cases "ident q = ident p")
      case True
      then show ?thesis using pool(3) [of q] q that(2) f ident_Address by (metis (full_types))
    next
      case False
      have "Address q \<noteq> Address p" 
      proof
        assume "Address q = Address p"
        with q0 q dist have "q = q0" by (metis distinct_map inj_on_def ident_Address)
        with q0 False show False by simp
      qed
      then show ?thesis using pool(2) [of "Address q"] q that(2) False inv by (auto simp: ring_inv_def)
    qed
  qed
  ultimately show ?thesis unfolding ring_inv_def using pool(1) by (simp add: m)
qed

lemma append_inv:
  assumes "ring_inv s" and "Address p \<notin> set (addresses s)" and "status p = Alive"
  shows "ring_inv (s\<lparr>MembershipList := MembershipList s @ [Peer p]\<rparr>)"
  using assms by (auto simp: ring_inv_def)

lemma OnPing_one_inv:
  assumes inv: "ring_inv s" and new: "\<And>q. q \<in> set (members s) \<Longrightarrow> Address p = Address q \<Longrightarrow> ident p = ident q"
  shows "ring_inv (fst (OnPing_one now p s))"
proof -
  have dist: "distinct (idents s)" using inv by (simp add: ring_inv_def distinct_addresses_idents)
  let ?i = "nat (FindProcessIndex p s)" and ?pool = "ExpirationPool s"
  let ?f = "\<lambda>c. c\<lparr>lastUpdateTime := lastUpdateTime p, status := status p\<rparr>"
  let ?s1 = "modify_member ?i ?f s"
  consider (skip) "fst (OnPing_one now p s) = s"
    | (new) "FindProcessIndex p s = -1" "status p = Alive" "fst (OnPing_one now p s) = s\<lparr>MembershipList := MembershipList s @ [Peer p]\<rparr>"
    | (up) "FindProcessIndex p s \<noteq> -1" "fst (OnPing_one now p s) = ?s1\<lparr>ExpirationPool :=
        (if status p = Alive then (if mem_key (Address p) ?pool then AList.delete (Address p) ?pool else ?pool)
         else if mem_key (Address p) ?pool then ?pool else AList.update (Address p) (now + EXPIRATION_TIME) ?pool)\<rparr>"
  proof (cases "FindProcessIndex p s = -1")
    case True
    show ?thesis
    proof (cases "ident p = ident (rs_Process s) \<or> status p \<noteq> Alive")
      case skip_it: True
      show ?thesis by (rule skip) (use True skip_it in \<open>auto simp: OnPing_one_def\<close>)
    next
      case False
      then show ?thesis by (intro new) (use True in \<open>simp_all add: OnPing_one_def\<close>)
    qed
  next
    case False
    note I = FindProcessIndex_some [OF False]
    have st: "status (members ?s1 ! ?i) = status p" using members_modify [OF dist False] I by simp
    show ?thesis
    proof (cases "ident p = ident (rs_Process s) \<or> \<not> lastUpdateTime (members s ! ?i) < lastUpdateTime p")
      case skip_it: True
      show ?thesis by (rule skip) (use False skip_it in \<open>auto simp: OnPing_one_def Let_def\<close>)
    next
      case upd: False
      show ?thesis by (rule up) (use False upd st in \<open>simp_all add: OnPing_one_def Let_def\<close>)
    qed
  qed
  then show ?thesis
  proof cases
    case new
    then have "Address p \<notin> set (addresses s)" using assms(2) by (auto simp: FindProcessIndex_none)
    with new inv append_inv show ?thesis by simp
  next
    case up
    show ?thesis unfolding up(2)
      by (rule modify_inv [OF inv _ up(1)]) (use inv in \<open>simp_all add: ring_inv_def del: not_None_eq\<close>)
  qed (use inv in simp)
qed

lemma OnPing_inv: "ring_inv s \<Longrightarrow> no_rejoin ps s \<Longrightarrow> ring_inv (fst (OnPing clock ps s))"
proof (induction ps arbitrary: clock s)
  case (Cons p ps)
  let ?s = "fst (OnPing_one (clock 0) p s)"
  have dist: "distinct (idents s)" using Cons.prems(1) by (simp add: ring_inv_def distinct_addresses_idents)
  have "\<exists>r \<in> insert p (set (members s)). ident r = ident q" if "q \<in> set (members ?s)" for q
    using that by (auto simp: OnPing_one_members [OF dist] split: if_splits)
  then have "no_rejoin ps ?s"
    using Cons.prems(2) ident_Address unfolding no_rejoin_def by (metis Un_iff insert_iff list.simps(15))
  moreover have "ring_inv ?s"
    by (rule OnPing_one_inv [OF Cons.prems(1)]) (use Cons.prems(2) in \<open>auto simp: no_rejoin_def\<close>)
  ultimately show ?case using Cons.IH by (simp add: split_beta Let_def)
qed simp

lemma OnAck_inv: "ring_inv s \<Longrightarrow> ring_inv (OnAck now p s)"
proof -
  assume inv: "ring_inv s"
  let ?f = "\<lambda>c. c\<lparr>lastUpdateTime := now\<rparr>"
  have "ring_inv ((modify_member (nat (FindProcessIndex p s)) ?f s)\<lparr>ExpirationPool := ExpirationPool s\<rparr>)"
    if "FindProcessIndex p s \<noteq> -1"
    by (rule modify_inv [OF inv _ that]) (use inv in \<open>fastforce simp: ring_inv_def simp del: not_None_eq\<close>)+
  then show ?thesis using inv by (simp add: OnAck_def Let_def)
qed

lemma OnFailure_inv: "ring_inv s \<Longrightarrow> ring_inv (OnFailure t1 t2 p s)"
proof -
  assume inv: "ring_inv s"
  let ?f = "\<lambda>c. c\<lparr>status := Timeout, lastUpdateTime := t1\<rparr>"
  let ?pool = "if mem_key (Address p) (ExpirationPool s) then ExpirationPool s
    else AList.update (Address p) (t2 + EXPIRATION_TIME) (ExpirationPool s)"
  have "ring_inv ((modify_member (nat (FindProcessIndex p s)) ?f s)\<lparr>ExpirationPool := ?pool\<rparr>)"
    if "FindProcessIndex p s \<noteq> -1"
    by (rule modify_inv [OF inv _ that]) (use inv in \<open>simp_all add: ring_inv_def del: not_None_eq\<close>)
  then show ?thesis using inv by (auto simp: OnFailure_def Let_def split: if_splits)
qed

lemma OnLeave_inv: "ring_inv s \<Longrightarrow> OnLeave now p s = Inr s' \<Longrightarrow> ring_inv s'"
proof -
  assume inv: "ring_inv s" and l: "OnLeave now p s = Inr s'"
  obtain q where p: "p = Some q" using l by (auto simp: OnLeave_def split: option.splits)
  have "ring_inv ((modify_member (nat (FindProcessIndex q s)) (\<lambda>c. c\<lparr>status := Leaved\<rparr>) s)\<lparr>ExpirationPool :=
      AList.update (Address q) (now + EXPIRATION_TIME) (ExpirationPool s)\<rparr>)"
    if "FindProcessIndex q s \<noteq> -1"
    by (rule modify_inv [OF inv _ that]) (use inv in \<open>simp_all add: ring_inv_def del: not_None_eq\<close>)
  with inv l p show "ring_inv s'" by (auto simp: OnLeave_def Let_def split: if_splits)
qed

lemma RecyclePool_inv: "ring_inv s \<Longrightarrow> ring_inv (fst (RecyclePool t s))"
proof -
  assume inv: "ring_inv s"
  then have "distinct (addresses s)" "wf_map (ExpirationPool s)" by (simp_all add: ring_inv_def)
  note R = RecyclePool_spec [OF this, where t = t]
  have "mem_key (Address p) (ExpirationPool (fst (RecyclePool t s)))"
    if "p \<in> set (members s)" "\<not> expired t (ExpirationPool s) (Address p)" "status p \<noteq> Alive" for p
  proof -
    have "mem_key (Address p) (ExpirationPool s)" using inv that by (simp add: ring_inv_def del: not_None_eq)
    then obtain e where e: "(Address p, e) \<in> set (ExpirationPool s)" by (auto dest: map_of_SomeD)
    then have "\<not> e < t" using that(2) by (auto simp: expired_def)
    with e have "(Address p, e) \<in> set (ExpirationPool (fst (RecyclePool t s)))" by (simp add: R(2))
    then show ?thesis by (metis not_None_eq weak_map_of_SomeI)
  qed
  then show ?thesis using inv by (auto simp: ring_inv_def R(1,2) distinct_map_filter)
qed

lemma sort_members_perm: "mset (members (sort_members s)) = mset (members s)"
  by (simp add: sort_members_def) (metis mset_map mset_sort_Sort map_deref)

lemma sort_members_other [simp]:
  "rs_Process (sort_members s) = rs_Process s" "ExpirationPool (sort_members s) = ExpirationPool s"
  by (simp_all add: sort_members_def)

lemma sort_members_set [simp]: "set (members (sort_members s)) = set (members s)"
  by (metis mset_eq_setD sort_members_perm)

lemma sort_members_distinct [simp]: "distinct (map f (members (sort_members s))) \<longleftrightarrow> distinct (map f (members s))"
  by (metis mset_map sort_members_perm mset_eq_imp_distinct_iff)

lemma sort_members_inv [simp]: "ring_inv (sort_members s) \<longleftrightarrow> ring_inv s"
  by (simp add: ring_inv_def)

section \<open>Reachable states\<close>

text \<open>
  The atomic steps of a server between the acquisition and the release of its lock, in any order:
  ticks and finished pings of \<open>Cron\<close>, handlers of received messages (however late), the sorting
  done by queries, leaving, and the two ends of \<open>Join\<close>. The environment is one in which an
  address is not reused while an earlier process of that address is still listed.
\<close>

inductive ring_step :: "ring_server \<Rightarrow> ring_server \<Rightarrow> bool" where
  tick: "Cron_tick t now s = (succs, s', sp) \<Longrightarrow> ring_step s s'"
| ping_done: "ring_step s (Cron_ping marshal unmarshal x now t1 t2 p s)"
| ping: "no_rejoin ps s \<Longrightarrow> ring_step s (fst (OnPing clock ps s))"
| join: "\<lbrakk>OnJoin marshal sent t1 t2 (Some p) s = Inr (s', reply, sp); Address p \<notin> set (addresses s)\<rbrakk> \<Longrightarrow> ring_step s s'"
| leave_received: "OnLeave now p s = Inr s' \<Longrightarrow> ring_step s s'"
| query: "ring_step s (sort_members s)"
| leave: "ring_step s (fst (Leave s))"
| join_alone: "Address (rs_Process s) \<notin> set (addresses s) \<Longrightarrow> ring_step s (fst (Join_alone t1 t2 s))"
| join_reply: "\<lbrakk>Address p \<notin> set (addresses s); status p = Alive\<rbrakk> \<Longrightarrow> ring_step s (fst (Join_reply p s))"

inductive ring_reachable :: "ring_server \<Rightarrow> bool" where
  init: "ring_reachable (NewRingServer ip0 port0)"
| step: "\<lbrakk>ring_reachable s; ring_step s s'\<rbrakk> \<Longrightarrow> ring_reachable s'"

lemma deref_in_members: "e \<in> set (MembershipList s) \<Longrightarrow> deref s e \<in> set (members s)"
  by (simp add: members_def del: map_deref)

lemma members_self:
  assumes "ident (rs_Process s) \<notin> ident ` set (members s)"
  shows "members (s\<lparr>rs_Process := p\<rparr>) = members s"
proof -
  have "deref (s\<lparr>rs_Process := p\<rparr>) e = deref s e" if "e \<in> set (MembershipList s)" for e
    using assms that deref_in_members [OF that] by (cases e) auto
  then show ?thesis by (simp add: members_def del: map_deref)
qed

lemma members_NewRingServer [simp]: "members (NewRingServer ip0 port0) = []"
  by (simp add: members_def NewRingServer_def del: map_deref)

lemma members_Join_reply: "members (fst (Join_reply p s)) = members s @ [p]"
  by (simp add: Join_reply_def members_def comp_def del: map_deref)

lemma members_Join_alone:
  assumes "ident (rs_Process s) \<notin> ident ` set (members s)"
  shows "members (fst (Join_alone t1 t2 s))
    = members s @ [(rs_Process s)\<lparr>lastUpdateTime := t1, joinTime := t2, status := Alive\<rparr>]"
proof -
  let ?s = "s\<lparr>rs_Process := (rs_Process s)\<lparr>lastUpdateTime := t1, joinTime := t2, status := Alive\<rparr>\<rparr>"
  have "map (deref ?s) (MembershipList s) = members ?s" by (simp add: members_def del: map_deref)
  with members_self [OF assms] show ?thesis by (simp add: Join_alone_def Let_def)
qed

lemma touch_self_inv:
  assumes "ring_inv s"
  shows "ring_inv (s\<lparr>rs_Process := (rs_Process s)\<lparr>lastUpdateTime := now\<rparr>\<rparr>)"
proof -
  let ?s = "s\<lparr>rs_Process := (rs_Process s)\<lparr>lastUpdateTime := now\<rparr>\<rparr>"
  have e: "Address (deref ?s e) = Address (deref s e)" "status (deref ?s e) = status (deref s e)" for e
    by (cases e; simp)+
  show ?thesis using assms by (simp add: ring_inv_def members_def e comp_def del: not_None_eq map_deref)
qed

lemma OnJoin_outcome:
  assumes "OnJoin marshal sent t1 t2 (Some p) s = Inr (s', reply, sp)"
  shows "s' = s \<or> s' = s\<lparr>MembershipList := MembershipList s @ [Peer (p\<lparr>lastUpdateTime := t1, joinTime := t2, status := Alive\<rparr>)]\<rparr>"
proof (cases "s' = s")
  case False
  then show ?thesis
    using assms by (simp add: OnJoin_def Let_def split: if_splits option.splits)
qed simp

lemma ring_step_inv:
  assumes "ring_step s s'" and "ring_inv s"
  shows "ring_inv s'"
  using assms
proof cases
  case (tick t now succs sp)
  then show ?thesis
    using touch_self_inv [OF RecyclePool_inv [OF assms(2)]]
    by (auto simp: Cron_tick_def Successors_def Let_def split_beta)
next
  case (ping_done marshal unmarshal x now t1 t2 p)
  then show ?thesis using assms(2)
    by (auto simp: Cron_ping_def Ping_def OnFailure_inv OnAck_inv split: option.splits exchange.splits prod.splits if_splits)
next
  case (join marshal sent t1 t2 p reply sp)
  from OnJoin_outcome [OF join(1)] show ?thesis
  proof
    assume s': "s' = s\<lparr>MembershipList := MembershipList s @ [Peer (p\<lparr>lastUpdateTime := t1, joinTime := t2, status := Alive\<rparr>)]\<rparr>"
    show ?thesis unfolding s' by (rule append_inv) (use join(2) assms(2) in simp_all)
  qed (use assms(2) in simp)
next
  case (join_alone t1 t2)
  then have "ident (rs_Process s) \<notin> ident ` set (members s)"
    by (metis ident_Address imageE imageI list.set_map)
  note members_Join_alone [OF this, of t1 t2]
  moreover have "ExpirationPool (fst (Join_alone t1 t2 s)) = ExpirationPool s" by (simp add: Join_alone_def Let_def)
  ultimately show ?thesis using join_alone assms(2) by (simp add: ring_inv_def del: not_None_eq)
next
  case (join_reply p)
  have "ExpirationPool (fst (Join_reply p s)) = ExpirationPool s" by (simp add: Join_reply_def)
  then show ?thesis using join_reply assms(2) members_Join_reply [of p s] by (simp add: ring_inv_def del: not_None_eq)
next
  case (ping ps clock)
  then show ?thesis using OnPing_inv [OF assms(2)] by simp
next
  case (leave_received now p)
  then show ?thesis using OnLeave_inv [OF assms(2)] by simp
next
  case query
  then show ?thesis using assms(2) by simp
next
  case leave
  then show ?thesis using assms(2) by (simp add: Leave_def ring_inv_def)
qed

lemma ring_reachable_inv: "ring_reachable s \<Longrightarrow> ring_inv s"
proof (induction rule: ring_reachable.induct)
  case (init ip0 port0)
  then show ?case by (simp add: ring_inv_def) (simp add: NewRingServer_def)
qed (rule ring_step_inv)

section \<open>Join order, successors and the leader\<close>

interpretation mem_sort: sort_interface mem_Less
  unfolding mem_Less_def by (rule sort_interface_key)

lemma members_sort_members: "members (sort_members s) = sort_Sort mem_Less (members s)"
  by (simp add: sort_members_def map_sort_Sort)

lemma members_sorted: "sorted_wrt (\<lambda>p q. joinTime p \<le> joinTime q) (members (sort_members s))"
  using mem_sort.sort_sorted [of "members s"] by (simp add: members_sort_members mem_Less_def not_less)

lemma Successors_loop_eq:
  assumes ms: "ms = xs @ me # ys" and me: "ident me = ident self"
    and other: "\<forall>p \<in> set (xs @ ys). ident p \<noteq> ident self" and "i \<le> length (ys @ xs)"
  shows "Successors_loop self ms (int (length xs)) i k = take k (drop i (ys @ xs))"
  using assms(4)
proof (induction k arbitrary: i)
  case (Suc k)
  let ?n = "length ms" and ?z = "ys @ xs"
  have len: "?n = Suc (length ?z)" using ms by simp
  let ?j = "nat ((int (length xs) + int i + 1) mod int ?n)"
  have j: "?j = (length xs + i + 1) mod ?n" by (metis nat_int of_nat_Suc of_nat_add of_nat_mod Suc_eq_plus1 of_nat_1)
  show ?case
  proof (cases "i < length ?z")
    case True
    have "ms ! ?j = ?z ! i"
    proof (cases "i < length ys")
      case True
      then show ?thesis unfolding j using ms by (simp add: nth_append)
    next
      case False
      then have "(length xs + i + 1) mod ?n = i - length ys"
        using \<open>i < length ?z\<close> ms by (simp add: mod_if)
      then show ?thesis unfolding j using ms False \<open>i < length ?z\<close> by (simp add: nth_append)
    qed
    moreover have "?z ! i \<in> set (xs @ ys)" using True by (metis nth_mem set_append sup_commute)
    ultimately have "Successors_loop self ms (int (length xs)) i (Suc k)
        = ?z ! i # take k (drop (i + 1) ?z)" using other Suc.IH [of "i + 1"] True by (simp add: Let_def)
    also have "\<dots> = take (Suc k) (drop i ?z)" using True by (metis Cons_nth_drop_Suc Suc_eq_plus1 take_Suc_Cons)
    finally show ?thesis .
  next
    case False
    then have "i = length ?z" using Suc.prems len by simp
    then have "?j = length xs" unfolding j using ms by (simp add: mod_if)
    then show ?thesis using ms me False by (simp add: Let_def)
  qed
qed simp

lemma Successors_eq:
  assumes "distinct (idents s)" and "ident (rs_Process s) \<in> set (idents s)"
  obtains xs me ys where "members (snd (Successors s)) = xs @ me # ys" and "ident me = ident (rs_Process s)"
    and "fst (Successors s) = take 6 (ys @ xs)"
proof -
  let ?s = "sort_members s" and ?self = "rs_Process s"
  have ex: "\<exists>p \<in> set (members ?s). IsSameProcess (Some p) (Some ?self)" using assms(2) by auto
  obtain xs me ys where f: "members ?s = xs @ me # ys" "IsSameProcess (Some me) (Some ?self)"
    "find_index (\<lambda>p. IsSameProcess (Some p) (Some ?self)) (members ?s) = int (length xs)"
    by (rule find_index_split [OF ex])
  have "distinct (map ident (xs @ me # ys))" using assms(1) f(1) by (metis sort_members_distinct)
  then have other: "\<forall>p \<in> set (xs @ ys). ident p \<noteq> ident ?self" using f(2) by (auto dest: sym)
  define k where "k = nat (min MAX_SUCCESSORS (int (length (members ?s))))"
  have "fst (Successors s) = Successors_loop ?self (members ?s) (int (length xs)) 0 k"
    using f(3) by (simp add: Successors_def Let_def FindProcessIndex_def k_def)
  also have "\<dots> = take k (ys @ xs)"
    using Successors_loop_eq [OF f(1) _ other, of 0 k] f(2) by (simp add: k_def)
  also have "\<dots> = take 6 (ys @ xs)"
    using arg_cong [OF f(1), of length] by (simp add: k_def MAX_SUCCESSORS_def min_def)
  finally show ?thesis using that f by (simp add: Successors_def Let_def)
qed

lemma leader_least:
  assumes "members s \<noteq> []"
  obtains p where "p \<in> set (members s)" and "members (sort_members s) ! 0 = p"
    and "\<And>q. q \<in> set (members s) \<Longrightarrow> joinTime p \<le> joinTime q"
proof -
  let ?p = "hd (members (sort_members s))"
  have ne: "members (sort_members s) \<noteq> []" using assms by (simp add: members_sort_members)
  then have "?p \<in> set (members s)" by (metis hd_in_set sort_members_set)
  moreover have "joinTime ?p \<le> joinTime q" if "q \<in> set (members s)" for q
    using mem_sort.sort_hd_least [OF that] by (simp add: members_sort_members mem_Less_def)
  ultimately show ?thesis using that ne by (simp add: hd_conv_nth)
qed

section \<open>Properties\<close>

text \<open>C31. The successors a server pings are the next (at most six) members after it in the cyclic
  order of join times: with unique members and the server among them, the sorted list is
  \<open>xs @ me # ys\<close> and the successors are the first six of \<open>ys @ xs\<close>, never the server itself.\<close>

theorem successors_next_in_join_order:
  assumes "distinct (idents s)" and "ident (rs_Process s) \<in> set (idents s)"
  shows "\<exists>xs me ys. members (snd (Successors s)) = xs @ me # ys \<and> ident me = ident (rs_Process s)
    \<and> fst (Successors s) = take 6 (ys @ xs)
    \<and> sorted_wrt (\<lambda>p q. joinTime p \<le> joinTime q) (xs @ me # ys) \<and> mset (xs @ me # ys) = mset (members s)"
proof -
  obtain xs me ys where S: "members (snd (Successors s)) = xs @ me # ys" "ident me = ident (rs_Process s)"
    "fst (Successors s) = take 6 (ys @ xs)" by (rule Successors_eq [OF assms])
  have "snd (Successors s) = sort_members s" by (simp add: Successors_def Let_def)
  with S members_sorted [of s] sort_members_perm [of s] show ?thesis by metis
qed

definition example_process :: "string \<Rightarrow> time \<Rightarrow> process" where
  "example_process host t = \<lparr>ip = host, port = 5000, joinTime = t, lastUpdateTime = t, status = Alive\<rparr>"

definition example_ring :: ring_server where
  "example_ring =
     \<lparr>rs_Process = example_process ''b'' 2,
      MembershipList = [Peer (example_process ''c'' 3), Self, Peer (example_process ''a'' 1)],
      ExpirationPool = []\<rparr>"

lemma example_members:
  "members example_ring = [example_process ''c'' 3, example_process ''b'' 2, example_process ''a'' 1]"
  by (simp add: members_def example_ring_def del: map_deref)

theorem successors_next_in_join_order_witness:
  "\<exists>xs me ys. members (snd (Successors example_ring)) = xs @ me # ys \<and> ident me = (''b'', 5000, 2)
    \<and> fst (Successors example_ring) = take 6 (ys @ xs)"
  using successors_next_in_join_order [of example_ring]
  by (simp add: example_members) (auto simp: example_ring_def example_process_def ident_def)

text \<open>Leader election: two servers that list the same processes, no two of which joined at the same
  time, name the same leader, the process that joined first; and only that process registers itself
  with the DNS service, so never two different ones.\<close>

lemma leader_agreement:
  assumes "set (idents s) = set (idents s')" and "members s \<noteq> []"
    and "distinct (map joinTime (members s))"
  shows "fst (LookupLeader dns s) = fst (LookupLeader dns' s')
    \<and> (\<exists>p \<in> set (members s). fst (LookupLeader dns s) = Some (Address p)
          \<and> (\<forall>q \<in> set (members s). joinTime p \<le> joinTime q)
          \<and> (fst (UpdateLeader s) \<noteq> None \<longleftrightarrow> ident (rs_Process s) = ident p)
          \<and> (fst (UpdateLeader s') \<noteq> None \<longleftrightarrow> ident (rs_Process s') = ident p))"
proof -
  obtain p where p: "p \<in> set (members s)" "members (sort_members s) ! 0 = p"
    "\<And>q. q \<in> set (members s) \<Longrightarrow> joinTime p \<le> joinTime q" by (rule leader_least [OF assms(2)]) blast
  have ne: "members s' \<noteq> []" using assms(1,2) by (metis list.set_map set_empty map_is_Nil_conv)
  obtain p' where p': "p' \<in> set (members s')" "members (sort_members s') ! 0 = p'"
    "\<And>q. q \<in> set (members s') \<Longrightarrow> joinTime p' \<le> joinTime q" by (rule leader_least [OF ne]) blast
  have "ident p' \<in> set (idents s)" "ident p \<in> set (idents s')" using p(1) p'(1) assms(1) by (metis imageI list.set_map)+
  then obtain q r where q: "q \<in> set (members s)" "ident q = ident p'" and r: "r \<in> set (members s')" "ident r = ident p"
    by (metis imageE list.set_map)
  have "joinTime q = joinTime p'" "joinTime r = joinTime p" using q(2) r(2) by (auto simp: ident_def)
  then have "joinTime p = joinTime q" using p(3) [OF q(1)] p'(3) [OF r(1)] by simp
  then have "p = q" using assms(3) p(1) q(1) by (auto simp: distinct_map dest: inj_onD)
  with q(2) have id: "ident p' = ident p" by simp
  have len: "0 < length (MembershipList s)" "0 < length (MembershipList s')"
    using assms(2) ne by (metis length_greater_0_conv length_members)+
  then have "0 < length (MembershipList (sort_members s))" "0 < length (MembershipList (sort_members s'))"
    by (simp_all add: sort_members_def)
  then have "fst (UpdateLeader s) \<noteq> None \<longleftrightarrow> ident (rs_Process s) = ident p"
    "fst (UpdateLeader s') \<noteq> None \<longleftrightarrow> ident (rs_Process s') = ident p"
    using p(2) p'(2) id by (simp_all add: UpdateLeader_def Let_def)
  moreover have "fst (LookupLeader dns s) = Some (Address p)" "fst (LookupLeader dns' s') = Some (Address p)"
    using len p(2) p'(2) ident_Address [OF id] by (simp_all add: LookupLeader_def Let_def)
  ultimately show ?thesis using p(1,3) by metis
qed

lemma leader_agreement_example:
  "fst (LookupLeader None example_ring) = fst (LookupLeader None (sort_members example_ring))"
proof -
  have "set (idents example_ring) = set (idents (sort_members example_ring))" by simp
  moreover have "members example_ring \<noteq> []" "distinct (map joinTime (members example_ring))"
    by (simp_all add: example_members) (simp_all add: example_process_def)
  ultimately show ?thesis using leader_agreement by blast
qed

text \<open>C7. Gossip is a merge: the view a server has after handling a ping message is its old view merged
  with the reports of the message in turn, ignoring reports about itself: a newer report replaces an
  older one, an unknown process is added only when reported alive, and nothing else changes.\<close>

theorem gossip_refines_merge:
  assumes "distinct (idents s)"
  shows "view (fst (OnPing clock ps s)) =
    fold merge_report (filter (\<lambda>p. ident p \<noteq> ident (rs_Process s)) ps) (view s)"
  by (rule OnPing_view [OF assms])

theorem gossip_refines_merge_witness:
  "view (fst (OnPing (\<lambda>_. 0) [(example_process ''a'' 1)\<lparr>lastUpdateTime := 9, status := Timeout\<rparr>] example_ring))
     (''a'', 5000, 1) = Some (9, Timeout)"
proof -
  have "distinct (idents example_ring)" by (simp add: example_members) (simp add: example_process_def ident_def)
  then show ?thesis
    by (subst gossip_refines_merge)
      (simp_all add: view_def example_members merge_report_def, simp add: example_process_def ident_def example_ring_def)
qed

text \<open>Merging reports about a known process keeps the newest one.\<close>

lemma merge_report_known:
  assumes "v (ident p) \<noteq> None"
  shows "merge_report p v i = (if i = ident p \<and> fst (the (v i)) < lastUpdateTime p then Some (lastUpdateTime p, status p) else v i)"
  using assms by (auto simp: merge_report_def split: option.splits)

lemma fold_merge_known:
  assumes "\<And>p. p \<in> set ps \<Longrightarrow> v (ident p) \<noteq> None" and "v i = Some (t, st)"
  shows "\<exists>t' st'. fold merge_report ps v i = Some (t', st') \<and> t \<le> t' \<and> (\<forall>p \<in> set ps. ident p = i \<longrightarrow> lastUpdateTime p \<le> t')
    \<and> ((t', st') = (t, st) \<or> (t < t' \<and> (\<exists>p \<in> set ps. ident p = i \<and> (t', st') = (lastUpdateTime p, status p))))"
  using assms
proof (induction ps arbitrary: v t st)
  case (Cons p ps)
  let ?v = "merge_report p v" let ?new = "ident p = i \<and> t < lastUpdateTime p"
  have v: "?v j = (if j = ident p \<and> fst (the (v j)) < lastUpdateTime p then Some (lastUpdateTime p, status p) else v j)" for j
    by (rule merge_report_known) (simp add: Cons.prems(1))
  have known: "?v (ident q) \<noteq> None" if "q \<in> set ps" for q using Cons.prems(1) that by (simp add: v)
  have at: "?v i = Some (if ?new then (lastUpdateTime p, status p) else (t, st))" using Cons.prems(2) by (auto simp: v)
  show ?case
  proof (cases ?new)
    case True
    with at have "?v i = Some (lastUpdateTime p, status p)" by simp
    from Cons.IH [OF known this] True show ?thesis by (simp, elim exE conjE) (intro exI conjI, assumption, auto)
  next
    case False
    with at have "?v i = Some (t, st)" by simp
    from Cons.IH [OF known this] False show ?thesis by (simp, elim exE conjE) (intro exI conjI, assumption, auto)
  qed
qed simp

lemma fold_merge_other: "i \<notin> ident ` set ps \<Longrightarrow> fold merge_report ps v i = v i"
  by (induction ps arbitrary: v) (auto simp: merge_report_def split: option.splits)

lemma fold_merge_order:
  assumes same: "set ps = set qs" and known: "\<And>p. p \<in> set ps \<Longrightarrow> v (ident p) \<noteq> None"
    and consistent: "\<And>p q. p \<in> set ps \<Longrightarrow> q \<in> set ps \<Longrightarrow> ident p = ident q \<Longrightarrow> lastUpdateTime p = lastUpdateTime q \<Longrightarrow> status p = status q"
  shows "fold merge_report ps v = fold merge_report qs v"
proof
  fix i
  show "fold merge_report ps v i = fold merge_report qs v i"
  proof (cases "v i")
    case None
    then have "i \<notin> ident ` set ps" using known by fastforce
    then show ?thesis using same by (simp add: fold_merge_other)
  next
    case (Some r)
    obtain t st where v: "v i = Some (t, st)" using Some by (cases r) simp
    obtain t1 s1 where 1: "fold merge_report ps v i = Some (t1, s1)" "t \<le> t1" "\<forall>p \<in> set ps. ident p = i \<longrightarrow> lastUpdateTime p \<le> t1"
      "(t1, s1) = (t, st) \<or> (t < t1 \<and> (\<exists>p \<in> set ps. ident p = i \<and> (t1, s1) = (lastUpdateTime p, status p)))"
      using fold_merge_known [of ps v, OF known v] by blast
    have "v (ident p) \<noteq> None" if "p \<in> set qs" for p using known that same by simp
    from fold_merge_known [of qs v, OF this v]
    obtain t2 s2 where 2: "fold merge_report qs v i = Some (t2, s2)" "t \<le> t2" "\<forall>p \<in> set ps. ident p = i \<longrightarrow> lastUpdateTime p \<le> t2"
      "(t2, s2) = (t, st) \<or> (t < t2 \<and> (\<exists>p \<in> set ps. ident p = i \<and> (t2, s2) = (lastUpdateTime p, status p)))"
      unfolding same by blast
    have "t1 = t2"
    proof (rule antisym)
      show "t1 \<le> t2" using 1(4) 2(2,3) by auto
      show "t2 \<le> t1" using 2(4) 1(2,3) by auto
    qed
    moreover have "s1 = s2"
    proof (cases "t < t1")
      case True
      then obtain p where p: "p \<in> set ps" "ident p = i" "t1 = lastUpdateTime p" "s1 = status p" using 1(4) by auto
      from True \<open>t1 = t2\<close> obtain q where q: "q \<in> set ps" "ident q = i" "t2 = lastUpdateTime q" "s2 = status q" using 2(4) by auto
      from consistent [OF p(1) q(1)] p q \<open>t1 = t2\<close> show ?thesis by simp
    next
      case False
      then show ?thesis using 1(2,4) 2(4) \<open>t1 = t2\<close> by auto
    qed
    ultimately show ?thesis by (simp add: 1(1) 2(1))
  qed
qed

text \<open>C8. Gossip does not depend on the order of messages. Two servers with the same view of the ring, which are given the
  same reports about known processes, in any order and any number of times each, end up with the same view, when
  reports about a process that bear the same time agree. (The reports are about other processes than the two.)\<close>

theorem gossip_order_irrelevant:
  assumes lists: "distinct (idents s)" "distinct (idents s')" and same: "view s = view s'" "set ps = set qs"
    and known: "\<And>p. p \<in> set ps \<Longrightarrow> view s (ident p) \<noteq> None"
    and others: "\<And>p. p \<in> set ps \<Longrightarrow> ident p \<noteq> ident (rs_Process s) \<and> ident p \<noteq> ident (rs_Process s')"
    and consistent: "\<And>p q. p \<in> set ps \<Longrightarrow> q \<in> set ps \<Longrightarrow> ident p = ident q \<Longrightarrow> lastUpdateTime p = lastUpdateTime q \<Longrightarrow> status p = status q"
  shows "view (fst (OnPing clock ps s)) = view (fst (OnPing clock' qs s'))"
proof -
  have "filter (\<lambda>p. ident p \<noteq> ident (rs_Process s)) ps = ps" "filter (\<lambda>p. ident p \<noteq> ident (rs_Process s')) qs = qs"
    using others same(2) by (auto simp: filter_id_conv)
  moreover have "fold merge_report ps (view s) = fold merge_report qs (view s)"
    by (rule fold_merge_order [OF same(2)]) (erule known, rule consistent)
  ultimately show ?thesis by (simp only: OnPing_view [OF lists(1)] OnPing_view [OF lists(2)] same(1))
qed

theorem gossip_order_irrelevant_witness:
  "let p = (example_process ''a'' 1)\<lparr>lastUpdateTime := 9, status := Timeout\<rparr>; q = (example_process ''c'' 3)\<lparr>lastUpdateTime := 8\<rparr> in
     view (fst (OnPing (\<lambda>_. 0) [p, q] example_ring)) = view (fst (OnPing (\<lambda>_. 5) [q, p, q] example_ring))"
proof -
  let ?p = "(example_process ''a'' 1)\<lparr>lastUpdateTime := 9, status := Timeout\<rparr>" and ?q = "(example_process ''c'' 3)\<lparr>lastUpdateTime := 8\<rparr>"
  have ids: "ident (example_process ''a'' 1) = (''a'', 5000, 1)" "ident (example_process ''c'' 3) = (''c'', 5000, 3)" "ident (rs_Process example_ring) = (''b'', 5000, 2)"
    by (simp_all add: example_ring_def example_process_def ident_def)
  have "distinct (idents example_ring)" by (simp add: example_members) (simp add: example_process_def ident_def)
  moreover have "view example_ring (''a'', 5000, 1) \<noteq> None" "view example_ring (''c'', 5000, 3) \<noteq> None"
    by (simp_all add: view_def example_members) (simp_all add: example_process_def ident_def)
  ultimately show ?thesis unfolding Let_def
    by (intro gossip_order_irrelevant) (auto simp: ids)
qed

text \<open>About an unknown process the order matters: a report that it has failed is dropped, and an older one that it is
  alive is then taken.\<close>

lemma gossip_order_unknown:
  assumes "p = (example_process ''d'' 4)\<lparr>lastUpdateTime := 9, status := Timeout\<rparr>" and "q = example_process ''d'' 4"
  shows "view (fst (OnPing clock [p, q] example_ring)) (''d'', 5000, 4) = Some (4, Alive)"
    and "view (fst (OnPing clock [q, p] example_ring)) (''d'', 5000, 4) = Some (9, Timeout)"
proof -
  have d: "distinct (idents example_ring)" by (simp add: example_members) (simp add: example_process_def ident_def)
  have ids: "ident p = (''d'', 5000, 4)" "ident q = (''d'', 5000, 4)" "ident (rs_Process example_ring) = (''b'', 5000, 2)"
    by (simp_all add: assms example_ring_def example_process_def ident_def)
  have "view example_ring (''d'', 5000, 4) = None" by (simp add: view_def example_members) (simp add: example_process_def ident_def)
  then show "view (fst (OnPing clock [p, q] example_ring)) (''d'', 5000, 4) = Some (4, Alive)"
    "view (fst (OnPing clock [q, p] example_ring)) (''d'', 5000, 4) = Some (9, Timeout)"
    by (simp_all add: OnPing_view [OF d] ids merge_report_def del: OnPing.simps) (simp_all add: assms example_process_def)
qed

text \<open>C6. Failure detection is complete: in every state a server can reach (when addresses are not reused
  by a new process while the old one is listed), once the deadlines of the expiration pool have passed a
  recycling leaves only members that are alive; it removes exactly the members whose deadline has
  passed and tells the file system about each of them.\<close>

theorem expired_members_removed:
  assumes "ring_reachable s"
  shows "members (fst (RecyclePool t s)) = filter (\<lambda>p. \<not> expired t (ExpirationPool s) (Address p)) (members s)
    \<and> ((\<forall>(a, e) \<in> set (ExpirationPool s). e < t) \<longrightarrow> (\<forall>p \<in> set (members (fst (RecyclePool t s))). status p = Alive))
    \<and> (\<forall>p. GoOnMemberUpdate p MEMBER_DELETE \<in> set (snd (RecyclePool t s))
         \<longleftrightarrow> p \<in> set (members s) \<and> expired t (ExpirationPool s) (Address p))"
proof -
  have inv: "ring_inv s" by (rule ring_reachable_inv [OF assms])
  then have "distinct (addresses s)" "wf_map (ExpirationPool s)" by (simp_all add: ring_inv_def)
  note R = RecyclePool_spec [OF this, where t = t]
  have "status p = Alive" if "\<forall>(a, e) \<in> set (ExpirationPool s). e < t"
    "p \<in> set (members s)" "\<not> expired t (ExpirationPool s) (Address p)" for p
  proof (rule ccontr)
    assume "status p \<noteq> Alive"
    with inv that(2) obtain e where "map_of (ExpirationPool s) (Address p) = Some e" by (auto simp: ring_inv_def)
    then have "(Address p, e) \<in> set (ExpirationPool s)" by (rule map_of_SomeD)
    with that(1,3) show False by (auto simp: expired_def)
  qed
  with R show ?thesis by simp
qed

text \<open>A server that started a ring, admitted a second process and then failed to reach it.\<close>

definition failed_peer_ring :: ring_server where
  "failed_peer_ring =
     (let p = (example_process ''b'' 2) in
      case OnJoin (\<lambda>_. Some []) True 2 2 (Some p) (fst (Join_alone 1 1 (NewRingServer ''a'' 5000))) of
        Inr (s, _, _) \<Rightarrow> Cron_ping (\<lambda>_. Some []) (\<lambda>_. (Ack_message, False)) DialError 3 3 3 p s
      | Inl _ \<Rightarrow> NewRingServer ''a'' 5000)"

lemma failed_peer_ring_eq:
  "failed_peer_ring = \<lparr>rs_Process = example_process ''a'' 1,
     MembershipList = [Self, Peer ((example_process ''b'' 2)\<lparr>lastUpdateTime := 3, status := Timeout\<rparr>)],
     ExpirationPool = [(Address (example_process ''b'' 2), 3 + EXPIRATION_TIME)]\<rparr>"
  by (simp add: failed_peer_ring_def OnJoin_def Join_alone_def NewRingServer_def Let_def Cron_ping_def Ping_def
      OnFailure_def FindProcessIndex_def find_index_def members_def modify_member_def example_process_def ident_def
      del: map_deref)

lemma failed_peer_ring_reachable: "ring_reachable failed_peer_ring"
proof -
  let ?s0 = "NewRingServer ''a'' 5000" and ?p = "example_process ''b'' 2"
  let ?s1 = "fst (Join_alone 1 1 ?s0)"
  let ?s2 = "?s1\<lparr>MembershipList := [Self, Peer ?p]\<rparr>"
  have m1: "members ?s1 = [example_process ''a'' 1]"
    by (simp add: members_Join_alone) (simp add: NewRingServer_def example_process_def)
  have "ring_reachable ?s1" by (intro ring_reachable.step [OF ring_reachable.init ring_step.join_alone]) simp
  moreover have "OnJoin (\<lambda>_. Some []) True 2 2 (Some ?p) ?s1
      = Inr (?s2, Some [], NotifyMemberUpdate ?p MEMBER_INSERT)"
    using m1 by (simp add: OnJoin_def FindProcessIndex_none Let_def)
      (simp add: example_process_def ident_def Join_alone_def NewRingServer_def Let_def)
  moreover have "Address ?p \<notin> set (addresses ?s1)" by (simp add: m1) (simp add: Address_eq_iff example_process_def)
  ultimately have "ring_reachable ?s2" by (blast intro: ring_reachable.step ring_step.join)
  then show ?thesis unfolding failed_peer_ring_def Let_def
    using \<open>OnJoin _ _ _ _ _ _ = _\<close> by (auto intro: ring_reachable.step ring_step.ping_done)
qed

theorem expired_members_removed_witness:
  "list_all (\<lambda>p. status p = Alive) (members (fst (RecyclePool (4 + EXPIRATION_TIME) failed_peer_ring)))"
  unfolding list_all_iff using expired_members_removed [OF failed_peer_ring_reachable, of "4 + EXPIRATION_TIME"]
  by (auto simp: failed_peer_ring_eq)

text \<open>The join handshake: when the codec decodes what it encodes, a process that is in no ring and is
  referred to an introducer ends up, through the introducer's reply, as the very member the introducer
  added, with the join time the introducer's clock gave it, and it is in its own list.\<close>

lemma join_handshake:
  assumes codec: "\<And>m b. marshal m = Some b \<Longrightarrow> unmarshal b = (m, False)"
    and leader: "OnJoin marshal True t1 t2 (Some (rs_Process s)) l = Inr (l', Some b, sp)"
    and fresh: "MembershipList s = []" and "addr \<noteq> ''''"
    and sent: "marshal \<lparr>meta_type = MT_Join, meta_message = Some (JoinMessage (Some (rs_Process s)))\<rparr> \<noteq> None"
  shows "\<exists>s' sp'. Join marshal unmarshal (Some addr) (Reply b) u1 u2 s = Inr (JoinOK, s', sp')
    \<and> joinTime (rs_Process s') = t2 \<and> Address (rs_Process s') = Address (rs_Process s)
    \<and> members s' = [rs_Process s'] \<and> rs_Process s' \<in> set (members l') \<and> status (rs_Process s') = Alive"
proof -
  let ?p = "(rs_Process s)\<lparr>lastUpdateTime := t1, joinTime := t2, status := Alive\<rparr>"
  have b: "marshal \<lparr>meta_type = MT_Join, meta_message = Some (JoinMessage (Some ?p))\<rparr> = Some b"
    and l': "l' = l\<lparr>MembershipList := MembershipList l @ [Peer ?p]\<rparr>"
    using leader by (auto simp: OnJoin_def Let_def split: if_splits option.splits)
  have "members s = []" using fresh by (simp add: members_def del: map_deref)
  then have "Join marshal unmarshal (Some addr) (Reply b) u1 u2 s
      = Inr (JoinOK, fst (Join_reply ?p s), snd (Join_reply ?p s))"
    using codec [OF b] sent assms(4) fresh
    by (simp add: Join_def FindProcessIndex_none LookupLeader_def split_beta split: option.splits)
  moreover have "rs_Process (fst (Join_reply ?p s)) = ?p" by (simp add: Join_reply_def)
  moreover have "members (fst (Join_reply ?p s)) = [?p]" using members_Join_reply [of ?p s] \<open>members s = []\<close> by simp
  moreover have "?p \<in> set (members l')" by (simp add: l')
  ultimately show ?thesis by (intro exI [of _ "fst (Join_reply ?p s)"] exI [of _ "snd (Join_reply ?p s)"]) simp
qed

text \<open>A codec for the witness: any injective encoding will do, here of join messages only.\<close>

definition toy_marshal :: "metadata \<Rightarrow> string option" where
  "toy_marshal m =
     (if m = \<lparr>meta_type = MT_Join, meta_message = Some (JoinMessage (Some (example_process ''b'' 0)))\<rparr> then Some ''q''
      else if m = \<lparr>meta_type = MT_Join, meta_message = Some (JoinMessage (Some (example_process ''b'' 2)))\<rparr> then Some ''r''
      else None)"

definition toy_unmarshal :: "string \<Rightarrow> metadata \<times> bool" where
  "toy_unmarshal b =
     (if b = ''q'' then (\<lparr>meta_type = MT_Join, meta_message = Some (JoinMessage (Some (example_process ''b'' 0)))\<rparr>, False)
      else if b = ''r'' then (\<lparr>meta_type = MT_Join, meta_message = Some (JoinMessage (Some (example_process ''b'' 2)))\<rparr>, False)
      else (Ack_message, True))"

lemma join_handshake_example:
  "\<exists>s' sp'. Join toy_marshal toy_unmarshal (Some ''a:5000'') (Reply ''r'') 5 5 (NewRingServer ''b'' 5000) = Inr (JoinOK, s', sp')
    \<and> joinTime (rs_Process s') = 2"
proof -
  have p: "rs_Process (NewRingServer ''b'' 5000) = example_process ''b'' 0"
    "(example_process ''b'' 0)\<lparr>lastUpdateTime := 2, joinTime := 2, status := Alive\<rparr> = example_process ''b'' 2"
    by (simp_all add: NewRingServer_def example_process_def)
  have ne: "example_process ''b'' 0 \<noteq> example_process ''b'' 2" by (simp add: example_process_def)
  have codec: "toy_unmarshal b = (m, False)" if "toy_marshal m = Some b" for m b
    using that by (auto simp: toy_marshal_def toy_unmarshal_def split: if_splits)
  obtain l' sp where on: "OnJoin toy_marshal True 2 2 (Some (rs_Process (NewRingServer ''b'' 5000))) (NewRingServer ''a'' 5000)
      = Inr (l', Some ''r'', sp)"
    unfolding p by (simp add: OnJoin_def FindProcessIndex_none Let_def p(2)) (simp add: toy_marshal_def ne ne [symmetric])
  have empty: "MembershipList (NewRingServer ''b'' 5000) = []" by (simp add: NewRingServer_def)
  have sent: "toy_marshal \<lparr>meta_type = MT_Join, meta_message = Some (JoinMessage (Some (rs_Process (NewRingServer ''b'' 5000))))\<rparr> \<noteq> None"
    unfolding p by (simp add: toy_marshal_def)
  have "''a:5000'' \<noteq> ''''" by simp
  from join_handshake [where unmarshal = toy_unmarshal, OF _ on empty this sent] codec show ?thesis by blast
qed

text \<open>An expiration entry whose process is no longer listed is never removed: after leaving the ring,
  which empties the list and keeps the pool, no recycling ever shortens the pool again, so the server
  counts as not converged for good.\<close>

lemma leave_keeps_pool_forever:
  "ExpirationPool (fst (RecyclePool t (fst (Leave s)))) = ExpirationPool s"
proof -
  have m: "members (fst (Leave s)) = []" by (simp add: Leave_def Let_def members_def del: map_deref)
  have "RecyclePool_loop t pool s' = (s', [], [])" if "members s' = []" for pool s'
    using that by (induction pool) (auto simp: Let_def)
  then show ?thesis using m by (simp add: RecyclePool_def Let_def Leave_def)
qed

definition rejoined_ring :: ring_server where
  "rejoined_ring =
     fst (OnPing (\<lambda>_. 5) [(example_process ''b'' 4)\<lparr>lastUpdateTime := 5\<rparr>]
       (fst (OnPing (\<lambda>_. 4) [example_process ''b'' 4] failed_peer_ring)))"

text \<open>The pool is keyed by address while members are told apart by join time as well: when a failed
  process has rejoined under its address, a newer report on the new process cancels the removal of
  the old one, which then stays in the list, timed out, through every later recycling.\<close>

lemma rejoin_cancels_removal:
  "\<exists>p \<in> set (members (fst (RecyclePool t rejoined_ring))). ident p = (''b'', 5000, 2) \<and> status p = Timeout"
proof -
  have eq: "rejoined_ring = \<lparr>rs_Process = example_process ''a'' 1,
     MembershipList = [Self, Peer ((example_process ''b'' 2)\<lparr>lastUpdateTime := 3, status := Timeout\<rparr>),
       Peer ((example_process ''b'' 4)\<lparr>lastUpdateTime := 5\<rparr>)], ExpirationPool = []\<rparr>"
    by (simp add: rejoined_ring_def failed_peer_ring_eq OnPing_one_def FindProcessIndex_def find_index_def members_def
        modify_member_def example_process_def ident_def Let_def Address_def del: map_deref)
  have "fst (RecyclePool t rejoined_ring) = rejoined_ring"
    "(example_process ''b'' 2)\<lparr>lastUpdateTime := 3, status := Timeout\<rparr> \<in> set (members rejoined_ring)"
    by (simp_all add: eq RecyclePool_def members_def del: map_deref)
  then show ?thesis by (intro bexI [of _ "(example_process ''b'' 2)\<lparr>lastUpdateTime := 3, status := Timeout\<rparr>"])
      (simp_all add: example_process_def ident_def)
qed

text \<open>Only the two ends of \<open>Join\<close> change the identity of a server's process, and with it its join time.\<close>

lemma ident_report:
  "ident (q\<lparr>lastUpdateTime := t\<rparr>) = ident q" "ident (q\<lparr>status := st\<rparr>) = ident q" "ident (q\<lparr>status := st, lastUpdateTime := t\<rparr>) = ident q"
  by (simp_all add: ident_def)

lemma RecyclePool_loop_self: "rs_Process (fst (RecyclePool_loop t pool s)) = rs_Process s"
proof (induction pool arbitrary: s)
  case (Cons e pool)
  obtain a expired where e: "e = (a, expired)" by (cases e)
  let ?i = "nat (find_index (\<lambda>p. a = Address p) (members s))"
  have "rs_Process (fst (RecyclePool_loop t pool (s\<lparr>MembershipList := take ?i (MembershipList s) @ drop (Suc ?i) (MembershipList s)\<rparr>))) = rs_Process s"
    by (simp add: Cons.IH)
  then show ?case using Cons.IH [of s] by (simp add: e Let_def split_def)
qed simp

lemma OnAck_self: "ident (rs_Process (OnAck now p s)) = ident (rs_Process s)"
  by (simp add: OnAck_def Let_def modify_member_self ident_report)

lemma OnFailure_self: "ident (rs_Process (OnFailure t1 t2 p s)) = ident (rs_Process s)"
  by (simp add: OnFailure_def Let_def modify_member_self ident_report)

lemma Cron_ping_self: "ident (rs_Process (Cron_ping marshal unmarshal x now t1 t2 p s)) = ident (rs_Process s)"
proof -
  have "ident (rs_Process (snd (Ping marshal unmarshal x now p s))) = ident (rs_Process s)"
    by (simp add: Ping_def OnAck_self split: option.splits exchange.splits prod.splits)
  then show ?thesis
    by (cases "Ping marshal unmarshal x now p s") (simp add: Cron_ping_def OnFailure_self)
qed

lemma OnLeave_self: "OnLeave now p s = Inr s' \<Longrightarrow> ident (rs_Process s') = ident (rs_Process s)"
  by (auto simp: OnLeave_def Let_def modify_member_self ident_report split: option.splits if_splits)

lemma Cron_tick_self:
  assumes "Cron_tick t now s = (succs, s', sp)"
  shows "ident (rs_Process s') = ident (rs_Process s)"
proof -
  have "rs_Process (snd (Successors r)) = rs_Process r" for r by (simp add: Successors_def Let_def)
  moreover have "rs_Process (fst (RecyclePool t s)) = rs_Process s" using RecyclePool_loop_self [of t "ExpirationPool s" s] by (simp add: RecyclePool_def Let_def split_def)
  ultimately show ?thesis using assms by (auto simp: Cron_tick_def Let_def split_def ident_report)
qed

lemma ring_step_self:
  assumes "ring_step s s'"
  shows "ident (rs_Process s') = ident (rs_Process s) \<or> (\<exists>t1 t2. s' = fst (Join_alone t1 t2 s)) \<or> (\<exists>p. s' = fst (Join_reply p s))"
  using assms
proof cases
  case tick
  then show ?thesis using Cron_tick_self by blast
next
  case join
  then have "rs_Process s' = rs_Process s" by (auto simp: OnJoin_def Let_def split: if_splits option.splits)
  then show ?thesis by simp
next
  case leave_received
  then show ?thesis using OnLeave_self by blast
next
  case leave
  then show ?thesis by (simp add: Leave_def Let_def ident_def)
qed (auto simp: Cron_ping_self OnPing_self)

end
