(* ===== verification/Ring_Cluster.thy ===== *)
theory Ring_Cluster
  imports Ring
begin

text \<open>
  The ring servers of all machines together. Datagrams (pings, join requests and the introducers' replies) can be
  delayed, lost, reordered and, but for replies, delivered again; a process can leave, crash and start again. No two
  joins read the same time from the clock. \<open>ring_cluster_reachable\<close> is the set of states.
\<close>

section \<open>State and steps\<close>

text \<open>\<open>PingSends\<close>: the goroutines that \<open>Cron\<close> started, by machine. \<open>Pings\<close>: membership lists that were sent.
  \<open>JoinRequests\<close>, \<open>JoinReplies\<close>: processes in join messages and in the answers to them. \<open>Joined\<close>: the identities
  that joins have given so far, which no step but the joins' own conditions reads.\<close>

record ring_cluster =
  ring_at :: "string \<Rightarrow> ring_server"
  PingSends :: "(string \<times> process) set"
  Pings :: "process list set"
  JoinRequests :: "process set"
  JoinReplies :: "process set"
  Joined :: "(string \<times> int \<times> time) set"

abbreviation join_time_of :: "string \<times> int \<times> time \<Rightarrow> time" where "join_time_of i \<equiv> snd (snd i)"

definition put_ring :: "string \<Rightarrow> ring_server \<Rightarrow> ring_cluster \<Rightarrow> ring_cluster" where
  "put_ring a s k = k\<lparr>ring_at := (ring_at k)(a := s)\<rparr>"

definition note_join :: "process \<Rightarrow> ring_cluster \<Rightarrow> ring_cluster" where
  "note_join p k = k\<lparr>Joined := insert (ident p) (Joined k)\<rparr>"

definition new_time :: "time \<Rightarrow> ring_cluster \<Rightarrow> bool" where
  "new_time t k \<longleftrightarrow> t \<noteq> 0 \<and> t \<notin> join_time_of ` Joined k"

inductive ring_cluster_reachable :: "ring_cluster \<Rightarrow> bool" where
  boot: "(\<And>a. \<exists>host port0. ring_at k a = NewRingServer host port0) \<Longrightarrow> PingSends k = {} \<Longrightarrow> Pings k = {} \<Longrightarrow> JoinRequests k = {}
    \<Longrightarrow> JoinReplies k = {} \<Longrightarrow> Joined k = {} \<Longrightarrow> ring_cluster_reachable k"
| restart: "ring_cluster_reachable k \<Longrightarrow> ring_cluster_reachable (put_ring a (NewRingServer host port0) k)"
| tick: "ring_cluster_reachable k \<Longrightarrow> Cron_tick t now (ring_at k a) = (succs, s', sp)
    \<Longrightarrow> ring_cluster_reachable (put_ring a s' (k\<lparr>PingSends := (\<lambda>p. (a, p)) ` set succs \<union> PingSends k\<rparr>))"
| ping_sent: "ring_cluster_reachable k \<Longrightarrow> (a, p) \<in> PingSends k
    \<Longrightarrow> ring_cluster_reachable (k\<lparr>Pings := insert (GetPing_processes (Ping_message (ring_at k a))) (Pings k)\<rparr>)"
| ping_received: "ring_cluster_reachable k \<Longrightarrow> ps \<in> Pings k \<Longrightarrow> status (rs_Process (ring_at k b)) \<noteq> Leaved
    \<Longrightarrow> ring_cluster_reachable (put_ring b (fst (OnPing clock ps (ring_at k b))) k)"
| ping_done: "ring_cluster_reachable k \<Longrightarrow> (a, p) \<in> PingSends k
    \<Longrightarrow> ring_cluster_reachable (put_ring a (Cron_ping marshal unmarshal x now t1 t2 p (ring_at k a)) k)"
| leave_received: "ring_cluster_reachable k \<Longrightarrow> OnLeave now p (ring_at k a) = Inr s' \<Longrightarrow> ring_cluster_reachable (put_ring a s' k)"
| query: "ring_cluster_reachable k \<Longrightarrow> ring_cluster_reachable (put_ring a (sort_members (ring_at k a)) k)"
| leave: "ring_cluster_reachable k \<Longrightarrow> ring_cluster_reachable (put_ring a (fst (Leave (ring_at k a))) k)"
| join_alone: "ring_cluster_reachable k \<Longrightarrow> FindProcessIndex (rs_Process (ring_at k a)) (ring_at k a) = -1 \<Longrightarrow> new_time t2 k
    \<Longrightarrow> Join_alone t1 t2 (ring_at k a) = (s', sp) \<Longrightarrow> ring_cluster_reachable (put_ring a s' (note_join (rs_Process s') k))"
| join_sent: "ring_cluster_reachable k \<Longrightarrow> FindProcessIndex (rs_Process (ring_at k a)) (ring_at k a) = -1
    \<Longrightarrow> ring_cluster_reachable (k\<lparr>JoinRequests := insert (rs_Process (ring_at k a)) (JoinRequests k)\<rparr>)"
| join_received: "ring_cluster_reachable k \<Longrightarrow> p \<in> JoinRequests k \<Longrightarrow> status (rs_Process (ring_at k b)) \<noteq> Leaved \<Longrightarrow> new_time t2 k
    \<Longrightarrow> OnJoin marshal sent t1 t2 (Some p) (ring_at k b) = Inr (s', Some reply, sp)
    \<Longrightarrow> q = p\<lparr>lastUpdateTime := t1, joinTime := t2, status := Alive\<rparr>
    \<Longrightarrow> ring_cluster_reachable (put_ring b s' (note_join q (k\<lparr>JoinReplies := insert q (JoinReplies k)\<rparr>)))"
| join_refused: "ring_cluster_reachable k \<Longrightarrow> p \<in> JoinRequests k
    \<Longrightarrow> OnJoin marshal sent t1 t2 (Some p) (ring_at k b) = Inr (s', None, sp) \<Longrightarrow> ring_cluster_reachable (put_ring b s' k)"
| join_replied: "ring_cluster_reachable k \<Longrightarrow> p \<in> JoinReplies k
    \<Longrightarrow> ring_cluster_reachable (put_ring a (fst (Join_reply p (ring_at k a))) (k\<lparr>JoinReplies := JoinReplies k - {p}\<rparr>))"

section \<open>Which identities a server lists\<close>

definition ids :: "ring_server \<Rightarrow> (string \<times> int \<times> time) set" where
  "ids s = ident ` set (members s)"

lemma ids_entries: "ids s = (\<lambda>e. ident (deref s e)) ` set (MembershipList s)"
  by (simp add: ids_def members_def image_image del: map_deref)

lemma ids_updates [simp]:
  "ids (s\<lparr>ExpirationPool := pool\<rparr>) = ids s"
  "ids (s\<lparr>MembershipList := MembershipList s @ [Peer p]\<rparr>) = insert (ident p) (ids s)"
  "ids (NewRingServer host port0) = {}" "ids (sort_members s) = ids s" "ids (fst (Leave s)) = {}"
  by (auto simp: ids_def Leave_def Let_def)

lemma deref_frame: "deref (s\<lparr>MembershipList := es\<rparr>) = deref s"
  by (rule ext) (simp add: deref_def split: entry.splits)

lemma ids_self: "ident q = ident (rs_Process s) \<Longrightarrow> ids (s\<lparr>rs_Process := q\<rparr>) = ids s"
proof -
  assume "ident q = ident (rs_Process s)"
  then have "ident (deref (s\<lparr>rs_Process := q\<rparr>) e) = ident (deref s e)" for e by (cases e) simp_all
  then show ?thesis by (simp add: ids_entries)
qed

lemma ids_modify:
  assumes "\<And>q. ident (f q) = ident q"
  shows "ids (modify_member i f s) \<subseteq> ids s"
proof (cases "MembershipList s ! i")
  case Self
  then show ?thesis by (simp add: modify_member_def ids_self assms)
next
  case (Peer p)
  have "(\<lambda>e. ident (deref s e)) ` set ((MembershipList s)[i := Peer (f p)]) \<subseteq> (\<lambda>e. ident (deref s e)) ` set (MembershipList s)"
    if "i < length (MembershipList s)"
  proof -
    have "set ((MembershipList s)[i := Peer (f p)]) \<subseteq> insert (Peer (f p)) (set (MembershipList s))" by (rule set_update_subset_insert)
    moreover have "Peer p \<in> set (MembershipList s)" using that Peer by (metis nth_mem)
    ultimately show ?thesis using assms [of p] by force
  qed
  then show ?thesis using Peer
    by (cases "i < length (MembershipList s)") (simp_all add: modify_member_def ids_entries deref_frame list_update_beyond)
qed

lemmas ids_report = ids_modify [OF ident_report(1)] ids_modify [OF ident_report(2)] ids_modify [OF ident_report(3)]

lemma ids_OnAck: "ids (OnAck now p s) \<subseteq> ids s"
  by (simp add: OnAck_def Let_def ids_report)

lemma ids_OnFailure: "ids (OnFailure t1 t2 p s) \<subseteq> ids s"
  by (simp add: OnFailure_def Let_def ids_report)

lemma ids_OnLeave: "OnLeave now q s = Inr s' \<Longrightarrow> ids s' \<subseteq> ids s"
  using ids_report(2) by (fastforce simp: OnLeave_def Let_def split: option.splits if_splits)

lemma ids_Cron_ping: "ids (Cron_ping marshal unmarshal x now t1 t2 p s) \<subseteq> ids s"
proof -
  have "ids (snd (Ping marshal unmarshal x now p s)) \<subseteq> ids s"
    by (simp add: Ping_def ids_OnAck split: option.splits exchange.splits prod.splits)
  with ids_OnFailure [of t1 t2 p "snd (Ping marshal unmarshal x now p s)"] show ?thesis
    by (auto simp: Cron_ping_def split: prod.splits)
qed

lemma ids_OnPing: "ids (fst (OnPing clock ps s)) \<subseteq> ident ` set ps \<union> ids s"
proof (induction ps arbitrary: clock s)
  case (Cons p ps)
  have "ids (fst (OnPing_one (clock 0) p s)) \<subseteq> insert (ident p) (ids s)"
    using ids_modify [of "\<lambda>c. c\<lparr>lastUpdateTime := lastUpdateTime p, status := status p\<rparr>" "nat (FindProcessIndex p s)" s]
    by (auto simp: OnPing_one_def Let_def ident_def)
  with Cons.IH [of "\<lambda>i. clock (Suc i)" "fst (OnPing_one (clock 0) p s)"] show ?case by (auto simp: Let_def split_beta)
qed simp

lemma ids_RecyclePool: "ids (fst (RecyclePool t s)) \<subseteq> ids s"
proof -
  have "ids (fst (RecyclePool_loop t pool s)) \<subseteq> ids s" for pool
  proof (induction pool arbitrary: s)
    case (Cons e pool)
    obtain a expired where e: "e = (a, expired)" by (cases e)
    let ?i = "nat (find_index (\<lambda>p. a = Address p) (members s))"
    let ?s = "s\<lparr>MembershipList := take ?i (MembershipList s) @ drop (Suc ?i) (MembershipList s)\<rparr>"
    have "ids ?s \<subseteq> ids s" by (auto simp: ids_entries deref_frame dest: in_set_takeD in_set_dropD)
    then show ?case using Cons.IH [of s] Cons.IH [of ?s] by (auto simp: e Let_def split_def)
  qed simp
  then show ?thesis by (simp add: RecyclePool_def Let_def split_def)
qed

lemma ids_Cron_tick:
  assumes "Cron_tick t now s = (succs, s', sp)"
  shows "ids s' \<subseteq> ids s"
proof -
  let ?s = "fst (RecyclePool t s)"
  have "s' = sort_members (?s\<lparr>rs_Process := (rs_Process ?s)\<lparr>lastUpdateTime := now\<rparr>\<rparr>)"
    using assms by (auto simp: Cron_tick_def Successors_def Let_def split_def)
  then have "ids s' = ids ?s" by (simp add: ids_self ident_report)
  with ids_RecyclePool show ?thesis by simp
qed

lemma ids_joins:
  "FindProcessIndex (rs_Process s) s = -1 \<Longrightarrow> ids (fst (Join_alone t1 t2 s)) = insert (ident (rs_Process (fst (Join_alone t1 t2 s)))) (ids s)"
  "ids (fst (Join_reply p s)) = insert (ident p) (ids s)"
  by (auto simp: ids_def FindProcessIndex_none members_Join_alone members_Join_reply) (auto simp: Join_alone_def Let_def)

section \<open>Invariant\<close>

definition ring_cluster_inv :: "ring_cluster \<Rightarrow> bool" where
  "ring_cluster_inv k \<longleftrightarrow>
     (\<forall>a. ids (ring_at k a) \<subseteq> Joined k) \<and> (\<forall>ps \<in> Pings k. ident ` set ps \<subseteq> Joined k) \<and> ident ` JoinReplies k \<subseteq> Joined k
     \<and> inj_on join_time_of (Joined k) \<and> 0 \<notin> join_time_of ` Joined k"

lemma put_ring_simps [simp]:
  "ring_at (put_ring a s k) b = (if b = a then s else ring_at k b)" "Pings (put_ring a s k) = Pings k"
  "JoinReplies (put_ring a s k) = JoinReplies k" "Joined (put_ring a s k) = Joined k"
  by (simp_all add: put_ring_def)

lemma note_join_simps [simp]:
  "ring_at (note_join p k) = ring_at k" "Pings (note_join p k) = Pings k" "JoinReplies (note_join p k) = JoinReplies k"
  "Joined (note_join p k) = insert (ident p) (Joined k)"
  by (simp_all add: note_join_def)

lemma ring_cluster_inv_server:
  assumes "ring_cluster_inv k" and "ids s \<subseteq> Joined k"
  shows "ring_cluster_inv (put_ring a s k)"
  using assms by (simp add: ring_cluster_inv_def)

lemma ring_cluster_inv_keeps:
  assumes "ring_cluster_inv k" and "ids s \<subseteq> ids (ring_at k a)"
  shows "ring_cluster_inv (put_ring a s k)"
  by (rule ring_cluster_inv_server [OF assms(1)]) (use assms in \<open>auto simp: ring_cluster_inv_def\<close>)

lemma ring_cluster_inv_join:
  assumes "ring_cluster_inv k" and "new_time t k" and "joinTime p = t"
  shows "ring_cluster_inv (note_join p k)"
proof -
  have "join_time_of (ident p) = t" using assms(3) by (simp add: ident_def)
  with assms(1,2) show ?thesis by (simp add: ring_cluster_inv_def new_time_def subset_insertI2) blast
qed

lemma ring_cluster_reachable_inv: "ring_cluster_reachable k \<Longrightarrow> ring_cluster_inv k"
proof (induction rule: ring_cluster_reachable.induct)
  case (boot k)
  have "ids (ring_at k a) = {}" for a
  proof -
    obtain host port0 where "ring_at k a = NewRingServer host port0" using boot(1) by blast
    then show ?thesis by simp
  qed
  with boot show ?case by (simp add: ring_cluster_inv_def)
next
  case (restart k a host port0)
  then show ?case by (intro ring_cluster_inv_keeps) simp_all
next
  case (tick k t now a succs s' sp)
  then have "ring_cluster_inv (k\<lparr>PingSends := (\<lambda>p. (a, p)) ` set succs \<union> PingSends k\<rparr>)" by (simp add: ring_cluster_inv_def)
  then show ?case by (rule ring_cluster_inv_keeps) (use ids_Cron_tick [OF tick(2)] in simp)
next
  case (ping_sent k a p)
  then show ?case by (auto simp: ring_cluster_inv_def ids_def GetPing_processes_def Ping_message_def)
next
  case (ping_received k ps b clock)
  then have "ident ` set ps \<union> ids (ring_at k b) \<subseteq> Joined k" by (simp add: ring_cluster_inv_def)
  with ids_OnPing [of clock ps "ring_at k b"] ping_received(4) show ?case by (intro ring_cluster_inv_server) (simp_all, blast)
next
  case (ping_done k a p)
  then show ?case by (intro ring_cluster_inv_keeps ids_Cron_ping)
next
  case (leave_received k now p a s')
  then show ?case by (intro ring_cluster_inv_keeps ids_OnLeave)
next
  case (query k a)
  then show ?case by (intro ring_cluster_inv_keeps) simp_all
next
  case (leave k a)
  then show ?case by (intro ring_cluster_inv_keeps) simp_all
next
  case (join_alone k a t2 t1 s' sp)
  have s': "s' = fst (Join_alone t1 t2 (ring_at k a))" using join_alone(4) by simp
  have "joinTime (rs_Process s') = t2" by (simp add: s' Join_alone_def Let_def)
  with join_alone have inv: "ring_cluster_inv (note_join (rs_Process s') k)" by (intro ring_cluster_inv_join)
  then show ?case
    by (rule ring_cluster_inv_server) (use inv ids_joins(1) [OF join_alone(2), of t1 t2] s' in \<open>auto simp: ring_cluster_inv_def\<close>)
next
  case (join_sent k a)
  then show ?case by (simp add: ring_cluster_inv_def)
next
  case (join_received k p b t2 marshal sent t1 s' reply sp q)
  have s': "s' = (ring_at k b)\<lparr>MembershipList := MembershipList (ring_at k b) @ [Peer q]\<rparr>"
    using join_received(5,6) by (auto simp: OnJoin_def Let_def split: if_splits option.splits)
  have "ring_cluster_inv (note_join q k)" by (rule ring_cluster_inv_join [OF join_received(7,4)]) (simp add: join_received(6))
  then have inv: "ring_cluster_inv (note_join q (k\<lparr>JoinReplies := insert q (JoinReplies k)\<rparr>))"
    by (auto simp: ring_cluster_inv_def)
  then show ?case by (rule ring_cluster_inv_server) (use inv in \<open>auto simp: s' ring_cluster_inv_def\<close>)
next
  case (join_refused k p marshal sent t1 t2 b s' sp)
  then have "s' = ring_at k b" by (auto simp: OnJoin_def Let_def split: if_splits option.splits)
  with join_refused(4) show ?case by (intro ring_cluster_inv_keeps) simp_all
next
  case (join_replied k p a)
  then have "ring_cluster_inv (k\<lparr>JoinReplies := JoinReplies k - {p}\<rparr>)" by (auto simp: ring_cluster_inv_def)
  then show ?case
    by (rule ring_cluster_inv_server) (use join_replied ids_joins(2) [of p "ring_at k a"] in \<open>auto simp: ring_cluster_inv_def\<close>)
qed

section \<open>Leaders of a cluster\<close>

lemma listed_joined:
  assumes "ring_cluster_reachable k" and "p \<in> set (members (ring_at k a))" and "q \<in> set (members (ring_at k b))"
  shows "ident p \<in> Joined k" and "joinTime p \<noteq> 0" and "joinTime p = joinTime q \<Longrightarrow> ident p = ident q"
proof -
  have inv: "ring_cluster_inv k" by (rule ring_cluster_reachable_inv [OF assms(1)])
  then have "ident r \<in> Joined k" if "r \<in> set (members (ring_at k c))" for r c
    using that by (auto simp: ring_cluster_inv_def ids_def)
  then have j: "ident p \<in> Joined k" "ident q \<in> Joined k" using assms(2,3) by blast+
  then show "ident p \<in> Joined k" by simp
  have t: "join_time_of (ident r) = joinTime r" for r by (simp add: ident_def)
  have "0 \<notin> join_time_of ` Joined k" using inv by (simp add: ring_cluster_inv_def)
  with imageI [OF j(1), of join_time_of] show "joinTime p \<noteq> 0" unfolding t by metis
  show "ident p = ident q" if "joinTime p = joinTime q"
    using inv j that inj_onD [of join_time_of "Joined k" "ident p" "ident q"] by (simp add: ring_cluster_inv_def t)
qed


text \<open>The first process of the sorted list; a server that registers is this process.\<close>

lemma first_member:
  assumes "members s \<noteq> []"
  obtains p where "p \<in> set (members s)" and "\<And>q. q \<in> set (members s) \<Longrightarrow> joinTime p \<le> joinTime q"
    and "\<And>dns. fst (LookupLeader dns s) = Some (Address p)" and "fst (UpdateLeader s) \<noteq> None \<longleftrightarrow> ident (rs_Process s) = ident p"
proof -
  obtain p where p: "p \<in> set (members s)" "members (sort_members s) ! 0 = p"
    "\<And>q. q \<in> set (members s) \<Longrightarrow> joinTime p \<le> joinTime q" by (rule leader_least [OF assms]) blast
  have len: "0 < length (MembershipList s)" "0 < length (MembershipList (sort_members s))"
    using assms by (simp_all flip: length_members) (metis sort_members_set set_empty)
  show thesis by (rule that [OF p(1,3)]) (use p(2) len in \<open>simp_all add: LookupLeader_def UpdateLeader_def Let_def\<close>)
qed

lemma registered_listed: "fst (UpdateLeader s) \<noteq> None \<Longrightarrow> members s \<noteq> []"
  using sort_members_perm [of s] by (auto simp: UpdateLeader_def Let_def simp flip: length_members)

text \<open>When the first members of two lists are in both lists, they are the same process.\<close>

lemma first_members_same:
  assumes reach: "ring_cluster_reachable k"
    and p: "p \<in> set (members (ring_at k a))" "\<And>r. r \<in> set (members (ring_at k a)) \<Longrightarrow> joinTime p \<le> joinTime r"
      "\<exists>r \<in> set (members (ring_at k b)). ident r = ident p"
    and q: "q \<in> set (members (ring_at k b))" "\<And>r. r \<in> set (members (ring_at k b)) \<Longrightarrow> joinTime q \<le> joinTime r"
      "\<exists>r \<in> set (members (ring_at k a)). ident r = ident q"
  shows "ident p = ident q"
proof -
  obtain r r' where r: "r \<in> set (members (ring_at k b))" "ident r = ident p" and r': "r' \<in> set (members (ring_at k a))" "ident r' = ident q"
    using p(3) q(3) by blast
  then have "joinTime q \<le> joinTime p" "joinTime p \<le> joinTime q" using q(2) p(2) by (force simp: ident_def)+
  then show ?thesis by (intro listed_joined(3) [OF reach p(1) q(1)]) simp
qed

text \<open>C4. Leader election in a cluster. In every state the ring servers of a cluster can reach (with messages delayed, lost
  and repeated, with processes that leave, crash, start again and join again), two servers that list the same
  processes name the same leader; and two different processes that both register themselves with the DNS service
  do not know each other: one of them is not in the list of the other.\<close>

theorem ring_leaders_agree:
  assumes reach: "ring_cluster_reachable k"
  shows "(set (idents (ring_at k a)) = set (idents (ring_at k b)) \<and> members (ring_at k a) \<noteq> []
      \<longrightarrow> fst (LookupLeader dns (ring_at k a)) = fst (LookupLeader dns' (ring_at k b)))
    \<and> (fst (UpdateLeader (ring_at k a)) \<noteq> None \<and> fst (UpdateLeader (ring_at k b)) \<noteq> None
      \<longrightarrow> ident (rs_Process (ring_at k a)) = ident (rs_Process (ring_at k b))
        \<or> ident (rs_Process (ring_at k b)) \<notin> set (idents (ring_at k a)) \<or> ident (rs_Process (ring_at k a)) \<notin> set (idents (ring_at k b)))"
    (is "?agree \<and> ?rivals")
proof
  let ?a = "ring_at k a" and ?b = "ring_at k b"
  note same = first_members_same [where k = k and a = a and b = b, OF reach]
  show ?agree
  proof
    assume "set (idents ?a) = set (idents ?b) \<and> members ?a \<noteq> []"
    then have ids: "ident ` set (members ?a) = ident ` set (members ?b)" and a: "members ?a \<noteq> []" by auto
    then have b: "members ?b \<noteq> []" by auto
    obtain p where p: "p \<in> set (members ?a)" "\<And>q. q \<in> set (members ?a) \<Longrightarrow> joinTime p \<le> joinTime q"
      "\<And>dns. fst (LookupLeader dns ?a) = Some (Address p)" by (rule first_member [OF a]) blast
    obtain q where q: "q \<in> set (members ?b)" "\<And>r. r \<in> set (members ?b) \<Longrightarrow> joinTime q \<le> joinTime r"
      "\<And>dns. fst (LookupLeader dns ?b) = Some (Address q)" by (rule first_member [OF b]) blast
    have "ident p \<in> ident ` set (members ?b)" "ident q \<in> ident ` set (members ?a)" using ids p(1) q(1) by blast+
    then have "\<exists>r \<in> set (members ?b). ident r = ident p" "\<exists>r \<in> set (members ?a). ident r = ident q" by auto
    with same [OF p(1,2) _ q(1,2)] have "ident p = ident q" by blast
    from ident_Address [OF this] show "fst (LookupLeader dns ?a) = fst (LookupLeader dns' ?b)" by (simp only: p(3) q(3))
  qed
  show ?rivals
  proof
    assume reg: "fst (UpdateLeader ?a) \<noteq> None \<and> fst (UpdateLeader ?b) \<noteq> None"
    then have ne: "members ?a \<noteq> []" "members ?b \<noteq> []" using registered_listed by blast+
    obtain p where p: "p \<in> set (members ?a)" "\<And>q. q \<in> set (members ?a) \<Longrightarrow> joinTime p \<le> joinTime q" "ident (rs_Process ?a) = ident p"
      by (rule first_member [OF ne(1)]) (use reg in blast)
    obtain q where q: "q \<in> set (members ?b)" "\<And>r. r \<in> set (members ?b) \<Longrightarrow> joinTime q \<le> joinTime r" "ident (rs_Process ?b) = ident q"
      by (rule first_member [OF ne(2)]) (use reg in blast)
    show "ident (rs_Process ?a) = ident (rs_Process ?b) \<or> ident (rs_Process ?b) \<notin> set (idents ?a) \<or> ident (rs_Process ?a) \<notin> set (idents ?b)"
    proof (cases "ident q \<in> ident ` set (members ?a) \<and> ident p \<in> ident ` set (members ?b)")
      case True
      then have "\<exists>r \<in> set (members ?b). ident r = ident p" "\<exists>r \<in> set (members ?a). ident r = ident q" by auto
      from same [OF p(1,2) this(1) q(1,2) this(2)] p(3) q(3) show ?thesis by simp
    qed (use p(3) q(3) in simp)
  qed
qed

text \<open>For evaluating steps on examples.\<close>

lemmas ring_eval = FindProcessIndex_def find_index_def members_def example_process_def ident_def Let_def
lemmas tick_eval = ring_eval Cron_tick_def RecyclePool_def Successors_def sort_members_def sort_Sort_def mem_Less_def MAX_SUCCESSORS_def
  numeral_2_eq_2 numeral_3_eq_3 Address_def

text \<open>A process starts a ring, a second one joins it and hears of the first by a ping.\<close>

definition duo_first :: ring_server where
  "duo_first = \<lparr>rs_Process = (example_process ''a'' 1)\<lparr>lastUpdateTime := 3\<rparr>, MembershipList = [Self, Peer (example_process ''b'' 2)], ExpirationPool = []\<rparr>"

definition duo_second :: ring_server where
  "duo_second = \<lparr>rs_Process = example_process ''b'' 2, MembershipList = [Self, Peer ((example_process ''a'' 1)\<lparr>lastUpdateTime := 3\<rparr>)], ExpirationPool = []\<rparr>"

lemma duo_members:
  "members duo_first = [(example_process ''a'' 1)\<lparr>lastUpdateTime := 3\<rparr>, example_process ''b'' 2]"
  "members duo_second = [example_process ''b'' 2, (example_process ''a'' 1)\<lparr>lastUpdateTime := 3\<rparr>]"
  by (simp_all add: duo_first_def duo_second_def members_def del: map_deref)

lemma duo_steps:
  "Join_alone 1 1 (NewRingServer ''a'' 5000) = (\<lparr>rs_Process = example_process ''a'' 1, MembershipList = [Self], ExpirationPool = []\<rparr>,
     NotifyMemberUpdate (example_process ''a'' 1) MEMBER_INSERT)"
  "OnJoin (\<lambda>_. Some ''r'') True 2 2 (Some (example_process ''b'' 0)) \<lparr>rs_Process = example_process ''a'' 1, MembershipList = [Self], ExpirationPool = []\<rparr>
     = Inr (\<lparr>rs_Process = example_process ''a'' 1, MembershipList = [Self, Peer (example_process ''b'' 2)], ExpirationPool = []\<rparr>, Some ''r'',
         NotifyMemberUpdate (example_process ''b'' 2) MEMBER_INSERT)"
  "Cron_tick 3 3 \<lparr>rs_Process = example_process ''a'' 1, MembershipList = [Self, Peer (example_process ''b'' 2)], ExpirationPool = []\<rparr>
     = ([example_process ''b'' 2], duo_first, [])"
  "fst (Join_reply (example_process ''b'' 2) (NewRingServer ''b'' 5000)) = \<lparr>rs_Process = example_process ''b'' 2, MembershipList = [Self], ExpirationPool = []\<rparr>"
  "fst (OnPing (\<lambda>_. 4) (members duo_first) \<lparr>rs_Process = example_process ''b'' 2, MembershipList = [Self], ExpirationPool = []\<rparr>) = duo_second"
      apply (simp add: Join_alone_def NewRingServer_def ring_eval)
     apply (simp add: OnJoin_def ring_eval del: map_deref)
    apply (simp add: tick_eval duo_first_def del: map_deref)
   apply (simp add: Join_reply_def NewRingServer_def example_process_def)
  apply (unfold duo_members)
  apply (simp add: OnPing_one_def ring_eval duo_second_def del: map_deref)
  done

definition duo :: "ring_server \<Rightarrow> ring_server \<Rightarrow> (string \<times> process) set \<Rightarrow> process list set \<Rightarrow> process set \<Rightarrow> process set
    \<Rightarrow> (string \<times> int \<times> time) set \<Rightarrow> ring_cluster" where
  "duo s1 s2 S P Q R J = \<lparr>ring_at = (\<lambda>_. NewRingServer ''c'' 5000)(''a'' := s1, ''b'' := s2), PingSends = S, Pings = P, JoinRequests = Q,
     JoinReplies = R, Joined = J\<rparr>"

lemma duo_simps [simp]:
  "ring_at (duo s1 s2 S P Q R J) ''a'' = s1" "ring_at (duo s1 s2 S P Q R J) ''b'' = s2"
  "put_ring ''a'' s (duo s1 s2 S P Q R J) = duo s s2 S P Q R J" "put_ring ''b'' s (duo s1 s2 S P Q R J) = duo s1 s S P Q R J"
  "PingSends (duo s1 s2 S P Q R J) = S" "Pings (duo s1 s2 S P Q R J) = P" "JoinRequests (duo s1 s2 S P Q R J) = Q"
  "JoinReplies (duo s1 s2 S P Q R J) = R" "Joined (duo s1 s2 S P Q R J) = J"
  "(duo s1 s2 S P Q R J)\<lparr>PingSends := S'\<rparr> = duo s1 s2 S' P Q R J" "(duo s1 s2 S P Q R J)\<lparr>Pings := P'\<rparr> = duo s1 s2 S P' Q R J"
  "(duo s1 s2 S P Q R J)\<lparr>JoinRequests := Q'\<rparr> = duo s1 s2 S P Q' R J" "(duo s1 s2 S P Q R J)\<lparr>JoinReplies := R'\<rparr> = duo s1 s2 S P Q R' J"
  "note_join p (duo s1 s2 S P Q R J) = duo s1 s2 S P Q R (insert (ident p) J)"
  by (simp_all add: duo_def put_ring_def note_join_def fun_upd_twist)

lemma duo_reachable:
  obtains S P Q R J where "ring_cluster_reachable (duo duo_first duo_second S P Q R J)"
proof -
  let ?a = "example_process ''a''" and ?b = "example_process ''b''" and ?new = "\<lambda>h. NewRingServer h 5000"
  let ?a1 = "\<lparr>rs_Process = ?a 1, MembershipList = [Self], ExpirationPool = []\<rparr>"
  let ?a2 = "\<lparr>rs_Process = ?a 1, MembershipList = [Self, Peer (?b 2)], ExpirationPool = []\<rparr>"
  let ?b1 = "\<lparr>rs_Process = ?b 2, MembershipList = [Self], ExpirationPool = []\<rparr>"
  have self: "rs_Process (?new ''b'') = ?b 0" "ident (?a 1) = (''a'', 5000, 1)" "ident (?b 2) = (''b'', 5000, 2)" "status (?a t) = Alive" "status (?b t) = Alive" for t
    by (simp_all add: NewRingServer_def example_process_def ident_def)
  have q: "?b 2 = (?b 0)\<lparr>lastUpdateTime := 2, joinTime := 2, status := Alive\<rparr>" by (simp add: example_process_def)
  have 0: "ring_cluster_reachable (duo (?new ''a'') (?new ''b'') {} {} {} {} {})"
    by (rule ring_cluster_reachable.boot) (auto simp: duo_def)
  from ring_cluster_reachable.join_alone [OF 0, of "''a''" 1 1] duo_steps(1) self
  have 1: "ring_cluster_reachable (duo ?a1 (?new ''b'') {} {} {} {} {(''a'', 5000, 1)})" by (simp add: new_time_def FindProcessIndex_none)
  from ring_cluster_reachable.join_sent [OF 1, of "''b''"]
  have 2: "ring_cluster_reachable (duo ?a1 (?new ''b'') {} {} {?b 0} {} {(''a'', 5000, 1)})" by (simp add: self FindProcessIndex_none)
  from ring_cluster_reachable.join_received [OF 2, of "?b 0" "''a''" 2 "\<lambda>_. Some ''r''" True 2 ?a2 "''r''" _ "?b 2"] duo_steps(2) self q
  have 3: "ring_cluster_reachable (duo ?a2 (?new ''b'') {} {} {?b 0} {?b 2} {(''b'', 5000, 2), (''a'', 5000, 1)})" by (simp add: new_time_def)
  from ring_cluster_reachable.join_replied [OF 3, of "?b 2" "''b''"] duo_steps(4)
  have 4: "ring_cluster_reachable (duo ?a2 ?b1 {} {} {?b 0} {} {(''b'', 5000, 2), (''a'', 5000, 1)})" by simp
  from ring_cluster_reachable.tick [OF 4, of 3 3 "''a''" "[?b 2]" duo_first "[]"] duo_steps(3)
  have 5: "ring_cluster_reachable (duo duo_first ?b1 {(''a'', ?b 2)} {} {?b 0} {} {(''b'', 5000, 2), (''a'', 5000, 1)})" by simp
  from ring_cluster_reachable.ping_sent [OF 5, of "''a''" "?b 2"]
  have 6: "ring_cluster_reachable (duo duo_first ?b1 {(''a'', ?b 2)} {members duo_first} {?b 0} {} {(''b'', 5000, 2), (''a'', 5000, 1)})"
    by (simp add: GetPing_processes_def Ping_message_def)
  from ring_cluster_reachable.ping_received [OF 6, of "members duo_first" "''b''" "\<lambda>_. 4"] duo_steps(5) self
  have "ring_cluster_reachable (duo duo_first duo_second {(''a'', ?b 2)} {members duo_first} {?b 0} {} {(''b'', 5000, 2), (''a'', 5000, 1)})" by simp
  then show thesis by (rule that)
qed

theorem ring_leaders_agree_witness:
  "\<exists>k. ring_cluster_reachable k \<and> set (idents (ring_at k ''a'')) = {(''a'', 5000, 1), (''b'', 5000, 2)}
    \<and> fst (LookupLeader None (ring_at k ''a'')) = fst (LookupLeader None (ring_at k ''b''))"
proof -
  obtain S P Q R J where k: "ring_cluster_reachable (duo duo_first duo_second S P Q R J)" (is "ring_cluster_reachable ?k") by (rule duo_reachable)
  have ids: "set (idents (ring_at ?k ''a'')) = {(''a'', 5000, 1), (''b'', 5000, 2)}" "set (idents (ring_at ?k ''b'')) = {(''a'', 5000, 1), (''b'', 5000, 2)}"
    by (auto simp: duo_members) (auto simp: example_process_def ident_def)
  have "set (idents (ring_at ?k ''a'')) = set (idents (ring_at ?k ''b'')) \<and> members (ring_at ?k ''a'') \<noteq> []"
    unfolding ids by (simp add: duo_members)
  with ring_leaders_agree [OF k, of "''a''" "''b''" None None]
  have "fst (LookupLeader None (ring_at ?k ''a'')) = fst (LookupLeader None (ring_at ?k ''b''))" by blast
  with k ids(1) show ?thesis by (intro exI [of _ ?k] conjI)
qed


section \<open>A lost reply\<close>

text \<open>The first reply to a process is lost and it asks again; then the introducer stops.\<close>

abbreviation phantom_list :: "entry list \<Rightarrow> time \<Rightarrow> ring_server" where
  "phantom_list es t \<equiv> \<lparr>rs_Process = (example_process ''b'' 3)\<lparr>lastUpdateTime := t\<rparr>, MembershipList = es, ExpirationPool = []\<rparr>"

lemma phantom_steps:
  "OnJoin (\<lambda>_. Some ''r'') True 3 3 (Some (example_process ''b'' 0))
      \<lparr>rs_Process = example_process ''a'' 1, MembershipList = [Self, Peer (example_process ''b'' 2)], ExpirationPool = []\<rparr>
     = Inr (\<lparr>rs_Process = example_process ''a'' 1, MembershipList = [Self, Peer (example_process ''b'' 2), Peer (example_process ''b'' 3)], ExpirationPool = []\<rparr>,
         Some ''r'', NotifyMemberUpdate (example_process ''b'' 3) MEMBER_INSERT)"
  "Cron_tick 4 4 \<lparr>rs_Process = example_process ''a'' 1, MembershipList = [Self, Peer (example_process ''b'' 2), Peer (example_process ''b'' 3)], ExpirationPool = []\<rparr>
     = ([example_process ''b'' 2, example_process ''b'' 3],
        \<lparr>rs_Process = (example_process ''a'' 1)\<lparr>lastUpdateTime := 4\<rparr>, MembershipList = [Self, Peer (example_process ''b'' 2), Peer (example_process ''b'' 3)], ExpirationPool = []\<rparr>, [])"
  "fst (OnPing (\<lambda>_. 5) [(example_process ''a'' 1)\<lparr>lastUpdateTime := 4\<rparr>, example_process ''b'' 2, example_process ''b'' 3] (phantom_list [Self] 3))
     = phantom_list [Self, Peer ((example_process ''a'' 1)\<lparr>lastUpdateTime := 4\<rparr>), Peer (example_process ''b'' 2)] 3"
  "Cron_tick 6 6 (phantom_list [Self, Peer ((example_process ''a'' 1)\<lparr>lastUpdateTime := 4\<rparr>), Peer (example_process ''b'' 2)] 3)
     = ([(example_process ''a'' 1)\<lparr>lastUpdateTime := 4\<rparr>, example_process ''b'' 2],
        phantom_list [Peer ((example_process ''a'' 1)\<lparr>lastUpdateTime := 4\<rparr>), Peer (example_process ''b'' 2), Self] 6, [])"
  "Cron_ping (\<lambda>_. Some []) (\<lambda>_. (Ack_message, False)) DialError 7 7 7 ((example_process ''a'' 1)\<lparr>lastUpdateTime := 4\<rparr>)
      (phantom_list [Peer ((example_process ''a'' 1)\<lparr>lastUpdateTime := 4\<rparr>), Peer (example_process ''b'' 2), Self] 6)
     = (phantom_list [Peer ((example_process ''a'' 1)\<lparr>lastUpdateTime := 7, status := Timeout\<rparr>), Peer (example_process ''b'' 2), Self] 6)
         \<lparr>ExpirationPool := [(Address (example_process ''a'' 1), 7 + EXPIRATION_TIME)]\<rparr>"
  "Cron_tick (8 + EXPIRATION_TIME) 8 ((phantom_list [Peer ((example_process ''a'' 1)\<lparr>lastUpdateTime := 7, status := Timeout\<rparr>), Peer (example_process ''b'' 2), Self] 6)
         \<lparr>ExpirationPool := [(Address (example_process ''a'' 1), 7 + EXPIRATION_TIME)]\<rparr>)
     = ([example_process ''b'' 2], phantom_list [Peer (example_process ''b'' 2), Self] 8,
        NotifyMemberUpdate ((example_process ''a'' 1)\<lparr>lastUpdateTime := 7, status := Timeout\<rparr>) MEMBER_DELETE)"
       apply (simp add: OnJoin_def ring_eval del: map_deref)
      apply (simp add: tick_eval del: map_deref)
     apply (simp add: OnPing_one_def ring_eval del: map_deref)
    apply (simp add: tick_eval del: map_deref)
   apply (simp add: Cron_ping_def Ping_def OnFailure_def modify_member_def Address_def ring_eval del: map_deref)
  apply (simp add: tick_eval del: map_deref)
  done

lemma phantom_reachable:
  obtains s S P Q R J where "ring_cluster_reachable (duo s (phantom_list [Peer (example_process ''b'' 2), Self] 8) S P Q R J)"
proof -
  let ?a = "example_process ''a''" and ?b = "example_process ''b''" and ?new = "\<lambda>h. NewRingServer h 5000"
  let ?A = "\<lambda>es t. \<lparr>rs_Process = (?a 1)\<lparr>lastUpdateTime := t\<rparr>, MembershipList = es, ExpirationPool = []\<rparr>" let ?B = phantom_list
  let ?a4 = "Peer ((?a 1)\<lparr>lastUpdateTime := 4\<rparr>)" and ?es = "[Self, Peer (?b 2), Peer (?b 3)]"
  let ?ps = "[(?a 1)\<lparr>lastUpdateTime := 4\<rparr>, ?b 2, ?b 3]"
  have self: "rs_Process (?new ''b'') = ?b 0" "ident (?a 1) = (''a'', 5000, 1)" "status (?a t) = Alive" "status (?b t) = Alive"
    "ident (?b t) = (''b'', 5000, t)" "(?a 1)\<lparr>lastUpdateTime := 1\<rparr> = ?a 1" "(?b 3)\<lparr>lastUpdateTime := 3\<rparr> = ?b 3" for t
    by (simp_all add: NewRingServer_def example_process_def ident_def)
  have q: "?b t = (?b 0)\<lparr>lastUpdateTime := t, joinTime := t, status := Alive\<rparr>" for t by (simp add: example_process_def)
  have 0: "ring_cluster_reachable (duo (?new ''a'') (?new ''b'') {} {} {} {} {})"
    by (rule ring_cluster_reachable.boot) (auto simp: duo_def)
  from ring_cluster_reachable.join_alone [OF 0, of "''a''" 1 1] duo_steps(1) self
  have 1: "ring_cluster_reachable (duo (?A [Self] 1) (?new ''b'') {} {} {} {} {(''a'', 5000, 1)})" by (simp add: new_time_def FindProcessIndex_none)
  from ring_cluster_reachable.join_sent [OF 1, of "''b''"]
  have 2: "ring_cluster_reachable (duo (?A [Self] 1) (?new ''b'') {} {} {?b 0} {} {(''a'', 5000, 1)})" by (simp add: self FindProcessIndex_none)
  from ring_cluster_reachable.join_received [OF 2, of "?b 0" "''a''" 2 "\<lambda>_. Some ''r''" True 2 "?A [Self, Peer (?b 2)] 1" "''r''" _ "?b 2", OF _ _ _ _ q] duo_steps(2) self
  have 3: "ring_cluster_reachable (duo (?A [Self, Peer (?b 2)] 1) (?new ''b'') {} {} {?b 0} {?b 2} {(''b'', 5000, 2), (''a'', 5000, 1)})" by (simp add: new_time_def)
  let ?J = "{(''b'', 5000, 3), (''b'', 5000, 2), (''a'', 5000, 1)}"
  from ring_cluster_reachable.join_received [OF 3, of "?b 0" "''a''" 3 "\<lambda>_. Some ''r''" True 3 "?A ?es 1" "''r''" _ "?b 3", OF _ _ _ _ q] phantom_steps(1) self
  have 4: "ring_cluster_reachable (duo (?A ?es 1) (?new ''b'') {} {} {?b 0} {?b 3, ?b 2} ?J)" by (simp add: new_time_def)
  have "fst (Join_reply (?b 3) (?new ''b'')) = ?B [Self] 3" by (simp add: Join_reply_def NewRingServer_def example_process_def)
  with ring_cluster_reachable.join_replied [OF 4, of "?b 3" "''b''"]
  obtain R where 5: "ring_cluster_reachable (duo (?A ?es 1) (?B [Self] 3) {} {} {?b 0} R ?J)" by simp
  from ring_cluster_reachable.tick [OF 5, of 4 4 "''a''"] phantom_steps(2) self
  have 6: "ring_cluster_reachable (duo (?A ?es 4) (?B [Self] 3) {(''a'', ?b 2), (''a'', ?b 3)} {} {?b 0} R ?J)" by simp
  have "members (?A ?es 4) = ?ps" by (simp add: members_def del: map_deref)
  with ring_cluster_reachable.ping_sent [OF 6, of "''a''" "?b 2"]
  obtain S where 7: "ring_cluster_reachable (duo (?A ?es 4) (?B [Self] 3) S {?ps} {?b 0} R ?J)" by (simp add: GetPing_processes_def Ping_message_def)
  from ring_cluster_reachable.ping_received [OF 7, of ?ps "''b''" "\<lambda>_. 5"] phantom_steps(3) self
  have 8: "ring_cluster_reachable (duo (?A ?es 4) (?B [Self, ?a4, Peer (?b 2)] 3) S {?ps} {?b 0} R ?J)" by simp
  from ring_cluster_reachable.tick [OF 8, of 6 6 "''b''"] phantom_steps(4)
  have 9: "ring_cluster_reachable (duo (?A ?es 4) (?B [?a4, Peer (?b 2), Self] 6) ({(''b'', (?a 1)\<lparr>lastUpdateTime := 4\<rparr>), (''b'', ?b 2)} \<union> S) {?ps} {?b 0} R ?J)"
    by simp
  from ring_cluster_reachable.ping_done [OF 9, of "''b''" "(?a 1)\<lparr>lastUpdateTime := 4\<rparr>" "\<lambda>_. Some []" "\<lambda>_. (Ack_message, False)" DialError 7 7 7]
    phantom_steps(5)
  obtain S' where 10: "ring_cluster_reachable (duo (?A ?es 4) ((?B [Peer ((?a 1)\<lparr>lastUpdateTime := 7, status := Timeout\<rparr>), Peer (?b 2), Self] 6)
      \<lparr>ExpirationPool := [(Address (?a 1), 7 + EXPIRATION_TIME)]\<rparr>) S' {?ps} {?b 0} R ?J)" by simp
  from ring_cluster_reachable.tick [OF 10, of "8 + EXPIRATION_TIME" 8 "''b''"] phantom_steps(6)
  have "ring_cluster_reachable (duo (?A ?es 4) (?B [Peer (?b 2), Self] 8) ({(''b'', ?b 2)} \<union> S') {?ps} {?b 0} R ?J)" by simp
  then show thesis by (rule that)
qed


end
