(* ===== verification/Hash_Ring.thy ===== *)
theory Hash_Ring
  imports Ring
begin

text \<open>
  \<open>sdfs/hash_ring.go\<close>: the consistent-hashing ring that places files on processes. A ring is
  a list of nodes sorted by hash key. The placement of a file is shown to be the clockwise walk from
  its hash, to agree between servers with the same members, and to be stable when other processes
  leave, as long as no two addresses collide; the treatment of collisions is examined as well.
\<close>

section \<open>Operations\<close>

record hash_node =
  HashKey :: int
  hn_Process :: process

type_synonym hash_ring = "hash_node list"

definition HASH_SIZE :: int where "HASH_SIZE = 1024"

definition NewHashRing :: hash_ring where "NewHashRing = []"

definition hr_Less :: "hash_node \<Rightarrow> hash_node \<Rightarrow> bool" where
  "hr_Less a b \<longleftrightarrow> HashKey a < HashKey b"

text \<open>The probing loop of \<open>Refresh\<close>: the first \<open>i\<close> whose key is free, or \<open>HASH_SIZE\<close>.\<close>

function probe :: "int \<Rightarrow> int list \<Rightarrow> int \<Rightarrow> int" where
  "probe h keys i =
     (if i < HASH_SIZE then (if (h OR i) mod HASH_SIZE \<in> set keys then probe h keys (i + 1) else i)
      else i)"
  by pat_completeness auto
termination
  by (relation "measure (\<lambda>(h, keys, i). nat (HASH_SIZE - i))") auto

declare probe.simps [simp del]

fun Refresh_loop :: "process list \<Rightarrow> int list \<Rightarrow> hash_ring \<Rightarrow> hash_ring" where
  "Refresh_loop [] keys hr = hr"
| "Refresh_loop (p # ps) keys hr =
     (let i = probe (Hash (Address p)) keys 0;
          hashKey = (Hash (Address p) OR i) mod HASH_SIZE
      in Refresh_loop ps (hashKey # keys) (hr @ [\<lparr>HashKey = hashKey, hn_Process = p\<rparr>]))"

definition Refresh :: "process list \<Rightarrow> hash_ring" where
  "Refresh processes = sort_Sort hr_Less (Refresh_loop processes [] [])"

text \<open>The insert position of a key: the first node at or after it, else 0.\<close>

definition insert_position :: "int \<Rightarrow> hash_ring \<Rightarrow> nat" where
  "insert_position hashKey hr =
     (let i = find_index (\<lambda>node. HashKey node \<ge> hashKey) hr in if i = -1 then 0 else nat i)"

definition FindReplicas :: "string \<Rightarrow> int \<Rightarrow> hash_ring \<Rightarrow> process list" where
  "FindReplicas key numReplicas hr =
     (let hashKey = Hash key mod HASH_SIZE; start = insert_position hashKey hr
      in map (\<lambda>i. hn_Process (hr ! ((start + i) mod length hr))) [0..<nat (min (int (length hr)) numReplicas)])"

definition hr_FindProcessIndex :: "process \<Rightarrow> hash_ring \<Rightarrow> int" where
  "hr_FindProcessIndex process hr =
     (let hashKey = Hash (Address process) mod HASH_SIZE
      in find_index (\<lambda>node. HashKey node = hashKey) hr)"

fun FindSuccessors_loop :: "process \<Rightarrow> hash_ring \<Rightarrow> int \<Rightarrow> nat \<Rightarrow> nat \<Rightarrow> process list" where
  "FindSuccessors_loop process hr index i 0 = []"
| "FindSuccessors_loop process hr index i (Suc k) =
     (let successor = hn_Process (hr ! nat ((index + int i + 1) mod int (length hr))) in
      if IsSameProcess (Some successor) (Some process) then []
      else successor # FindSuccessors_loop process hr index (i + 1) k)"

definition FindSuccessors :: "process \<Rightarrow> int \<Rightarrow> hash_ring \<Rightarrow> process list" where
  "FindSuccessors process numSuccessors hr =
     (let index = hr_FindProcessIndex process hr in
      if index = -1 then [] else FindSuccessors_loop process hr index 0 (nat numSuccessors))"

definition FindPredecessor :: "process \<Rightarrow> hash_ring \<Rightarrow> process option" where
  "FindPredecessor process hr =
     (let index = hr_FindProcessIndex process hr in
      if index = -1 \<or> length hr = 1 then None
      else Some (hn_Process (hr ! nat ((index - 1 + int (length hr)) mod int (length hr)))))"

definition GetRouteProcess :: "string \<Rightarrow> hash_ring \<Rightarrow> process option" where
  "GetRouteProcess key hr =
     (if length hr = 0 then None
      else
        let hashKey = Hash key mod HASH_SIZE in
        case find (\<lambda>node. HashKey node \<ge> hashKey) hr of
          Some node \<Rightarrow> Some (hn_Process node)
        | None \<Rightarrow> Some (hn_Process (hr ! 0)))"

definition hr_DebugValue :: "hash_ring \<Rightarrow> string" where
  "hr_DebugValue hr =
     join '' ---> '' (map (\<lambda>n. ''<'' @ show_int (HashKey n) @ '','' @ show_int (port (hn_Process n)) @ ''>'') hr)"

section \<open>Placement\<close>

interpretation hr_sort: sort_interface hr_Less
  unfolding hr_Less_def by (rule sort_interface_key)

abbreviation ring_sorted :: "hash_ring \<Rightarrow> bool" where
  "ring_sorted hr \<equiv> sorted_wrt (\<lambda>a b. HashKey a \<le> HashKey b) hr"

text \<open>The specification of the placement: walk clockwise from the hash of the file.\<close>

definition clockwise :: "int \<Rightarrow> hash_ring \<Rightarrow> hash_ring" where
  "clockwise h hr = filter (\<lambda>n. HashKey n \<ge> h) hr @ filter (\<lambda>n. HashKey n < h) hr"

lemma ring_sorted_split:
  assumes "ring_sorted hr"
  shows "drop (insert_position h hr) hr @ take (insert_position h hr) hr = clockwise h hr"
proof (cases "\<exists>n \<in> set hr. HashKey n \<ge> h")
  case True
  then obtain xs y ys where s: "hr = xs @ y # ys" "HashKey y \<ge> h" "\<forall>n \<in> set xs. \<not> HashKey n \<ge> h"
    "find_index (\<lambda>n. HashKey n \<ge> h) hr = int (length xs)" by (rule find_index_split)
  have "HashKey n \<ge> h" if "n \<in> set ys" for n using assms s(1,2) that by (fastforce simp: sorted_wrt_append)
  then have "filter (\<lambda>n. HashKey n \<ge> h) hr = y # ys" "filter (\<lambda>n. HashKey n < h) hr = xs"
    using s(1-3) by (auto simp: filter_id_conv filter_empty_conv not_le not_less)
  then show ?thesis using s by (simp add: insert_position_def Let_def clockwise_def)
next
  case False
  then have "insert_position h hr = 0" by (simp add: insert_position_def Let_def)
  moreover have "filter (\<lambda>n. HashKey n \<ge> h) hr = []" "filter (\<lambda>n. HashKey n < h) hr = hr"
    using False by (auto simp: filter_id_conv filter_empty_conv)
  ultimately show ?thesis by (simp add: clockwise_def)
qed

lemma insert_position_le: "insert_position h hr \<le> length hr"
  using find_index_some(2) [of hr "\<lambda>n. HashKey n \<ge> h"]
  by (cases "\<exists>n \<in> set hr. HashKey n \<ge> h") (auto simp: insert_position_def Let_def)

lemma insert_position_less: "hr \<noteq> [] \<Longrightarrow> insert_position h hr < length hr"
  using find_index_some(1,2) [of hr "\<lambda>n. HashKey n \<ge> h"]
  by (cases "\<exists>n \<in> set hr. HashKey n \<ge> h") (auto simp: insert_position_def Let_def nat_less_iff)

lemma walk_eq_take:
  assumes "start \<le> length xs" and "k \<le> length xs"
  shows "map (\<lambda>i. xs ! ((start + i) mod length xs)) [0..<k] = take k (drop start xs @ take start xs)"
proof (rule nth_equalityI)
  fix i
  assume "i < length (map (\<lambda>i. xs ! ((start + i) mod length xs)) [0..<k])"
  then have i: "i < k" by simp
  show "map (\<lambda>i. xs ! ((start + i) mod length xs)) [0..<k] ! i = take k (drop start xs @ take start xs) ! i"
  proof (cases "start + i < length xs")
    case True
    then have "i < length xs - start" by simp
    with True show ?thesis using i by (simp add: nth_append)
  next
    case False
    then have "(start + i) mod length xs = start + i - length xs" using i assms by (simp add: mod_if)
    moreover have "\<not> i < length xs - start" using False by simp
    ultimately show ?thesis using i False assms by (simp add: nth_append add.commute)
  qed
qed (use assms in simp)

lemma FindReplicas_eq:
  assumes "ring_sorted hr"
  shows "FindReplicas key n hr = map hn_Process (take (nat n) (clockwise (Hash key mod HASH_SIZE) hr))"
proof -
  let ?s = "insert_position (Hash key mod HASH_SIZE) hr" and ?k = "nat (min (int (length hr)) n)"
  have "FindReplicas key n hr = map hn_Process (map (\<lambda>i. hr ! ((?s + i) mod length hr)) [0..<?k])"
    by (simp add: FindReplicas_def Let_def)
  also have "\<dots> = map hn_Process (take ?k (clockwise (Hash key mod HASH_SIZE) hr))"
    using walk_eq_take [OF insert_position_le, of ?k hr] ring_sorted_split [OF assms] by simp
  also have "take ?k (clockwise (Hash key mod HASH_SIZE) hr) = take (nat n) (clockwise (Hash key mod HASH_SIZE) hr)"
  proof -
    have "length (clockwise h hr) = length hr" for h
      unfolding ring_sorted_split [OF assms, symmetric] by (simp add: insert_position_le)
    then show ?thesis by (simp add: min_def)
  qed
  finally show ?thesis .
qed

lemma mset_clockwise: "mset (clockwise h hr) = mset hr"
  by (induction hr) (auto simp: clockwise_def)

lemma GetRouteProcess_eq:
  assumes "ring_sorted hr"
  shows "GetRouteProcess key hr = (case clockwise (Hash key mod HASH_SIZE) hr of [] \<Rightarrow> None | n # _ \<Rightarrow> Some (hn_Process n))"
proof (cases "find (\<lambda>n. HashKey n \<ge> Hash key mod HASH_SIZE) hr")
  case None
  let ?h = "Hash key mod HASH_SIZE"
  have "filter (\<lambda>n. HashKey n \<ge> ?h) hr = []" "filter (\<lambda>n. HashKey n < ?h) hr = hr"
    using None by (auto simp: find_None_iff filter_id_conv filter_empty_conv)
  with None show ?thesis by (cases hr) (simp_all add: GetRouteProcess_def clockwise_def Let_def)
next
  case (Some n)
  then have "\<exists>ys. filter (\<lambda>n. HashKey n \<ge> Hash key mod HASH_SIZE) hr = n # ys"
    by (induction hr) (auto split: if_splits)
  with Some show ?thesis by (auto simp: GetRouteProcess_def clockwise_def Let_def)
qed

section \<open>Agreement and stability\<close>

definition home :: "process \<Rightarrow> int" where
  "home p = Hash (Address p) mod HASH_SIZE"

abbreviation no_collision :: "process list \<Rightarrow> bool" where
  "no_collision ps \<equiv> distinct (map home ps)"

definition node_of :: "process \<Rightarrow> hash_node" where
  "node_of p = \<lparr>HashKey = home p, hn_Process = p\<rparr>"

lemma probe_free: "h mod HASH_SIZE \<notin> set keys \<Longrightarrow> probe h keys 0 = 0"
  by (simp add: probe.simps)

lemma Refresh_loop_eq:
  "distinct (map home ps) \<Longrightarrow> home ` set ps \<inter> set keys = {} \<Longrightarrow> Refresh_loop ps keys hr = hr @ map node_of ps"
proof (induction ps arbitrary: keys hr)
  case (Cons p ps)
  then have "probe (Hash (Address p)) keys 0 = 0" by (intro probe_free) (auto simp: home_def)
  with Cons show ?case by (auto simp: Let_def node_of_def home_def)
qed simp

lemma Refresh_eq: "no_collision ps \<Longrightarrow> Refresh ps = sort_Sort hr_Less (map node_of ps)"
  by (simp add: Refresh_def Refresh_loop_eq)

lemma Refresh_sorted: "ring_sorted (Refresh ps)"
  using hr_sort.sort_sorted [of "Refresh_loop ps [] []"] by (simp add: Refresh_def hr_Less_def not_less)

lemma Refresh_loop_processes: "map hn_Process (Refresh_loop ps keys hr) = map hn_Process hr @ ps"
  by (induction ps arbitrary: keys hr) (simp_all add: Let_def)

lemma Refresh_processes: "mset (map hn_Process (Refresh ps)) = mset ps"
  by (metis Refresh_def Refresh_loop_processes append_Nil list.simps(8) mset_map mset_sort_Sort)

lemma Refresh_processes_set: "set (map hn_Process (Refresh ps)) = set ps"
  by (metis Refresh_processes mset_eq_setD)

lemma length_Refresh [simp]: "length (Refresh ps) = length ps"
  by (metis Refresh_processes length_map mset_eq_length)

text \<open>Placement depends only on keys and identities, not on the other fields of the process objects.\<close>

definition strip :: "hash_node \<Rightarrow> int \<times> string \<times> int \<times> time" where
  "strip n = (HashKey n, ident (hn_Process n))"

lemma strip_clockwise:
  "map strip (clockwise h hr) = filter (\<lambda>x. fst x \<ge> h) (map strip hr) @ filter (\<lambda>x. fst x < h) (map strip hr)"
  by (simp add: clockwise_def filter_map comp_def strip_def)

lemma map_ident_strip: "map ident (map hn_Process hr) = map snd (map strip hr)"
  by (simp add: strip_def comp_def)

lemma FindReplicas_strip:
  assumes "ring_sorted hr" "ring_sorted hr'" "map strip hr = map strip hr'"
  shows "map ident (FindReplicas key n hr) = map ident (FindReplicas key n hr')"
  unfolding FindReplicas_eq [OF assms(1)] FindReplicas_eq [OF assms(2)] map_ident_strip
  by (simp only: take_map [symmetric] strip_clockwise assms(3))

lemma home_ident: "ident p = ident q \<Longrightarrow> home p = home q"
  using ident_Address [of p q] by (simp add: home_def)

lemma Refresh_strip_perm:
  assumes "no_collision ps" and "mset (map ident ps) = mset (map ident ps')"
  shows "map strip (Refresh ps) = map strip (Refresh ps')"
proof -
  let ?lt = "\<lambda>(a :: int \<times> string \<times> int \<times> time) b. fst a < fst b"
  define g :: "string \<times> int \<times> time \<Rightarrow> int \<times> string \<times> int \<times> time"
    where "g i = (Hash (fst i @ '':'' @ show_int (fst (snd i))) mod HASH_SIZE, i)" for i
  have g: "strip (node_of p) = g (ident p)" for p by (simp add: strip_def node_of_def g_def home_def Address_def ident_def)
  have sort: "map strip (sort_Sort hr_Less xs) = sort_Sort ?lt (map strip xs)" for xs
    by (simp add: map_sort_Sort [of strip ?lt, symmetric]) (simp add: hr_Less_def [abs_def] strip_def)
  have "home p = fst (g (ident p))" for p by (simp add: g_def home_def Address_def ident_def)
  then have homes: "map home qs = map (fst \<circ> g) (map ident qs)" for qs by simp
  have "mset (map home ps) = mset (map home ps')" unfolding homes by (simp only: mset_map [of "fst \<circ> g"] assms(2))
  then have "no_collision ps'" using assms(1) mset_eq_imp_distinct_iff by blast
  moreover have "sort_Sort ?lt (map g (map ident ps)) = sort_Sort ?lt (map g (map ident ps'))"
  proof (rule sort_interface.sort_perm_eq [OF sort_interface_key])
    show "mset (map g (map ident ps)) = mset (map g (map ident ps'))" by (simp only: mset_map [of g] assms(2))
    have "inj_on fst (set (map g (map ident ps)))" using assms(1) inj_on_imageI [of fst "g \<circ> ident" "set ps"]
      unfolding homes by (simp add: distinct_map comp_assoc image_image comp_def)
    then show "fst a < fst b \<or> fst b < fst a" if "a \<in> set (map g (map ident ps))" "b \<in> set (map g (map ident ps))" "a \<noteq> b" for a b
      using that inj_onD [of fst "set (map g (map ident ps))" a b] by (meson linorder_neqE_linordered_idom)
  qed
  ultimately show ?thesis using assms(1) by (simp add: Refresh_eq sort g comp_def)
qed

lemma filter_sort_home:
  assumes "no_collision ps"
  shows "Refresh (filter P ps) = filter (\<lambda>n. P (hn_Process n)) (Refresh ps)"
proof -
  have nc: "no_collision (filter P ps)" using assms by (rule distinct_map_filter)
  show ?thesis unfolding Refresh_eq [OF nc] Refresh_eq [OF assms]
  proof (rule hr_sort.sorted_perm_unique)
    show "sorted_wrt (\<lambda>a b. \<not> hr_Less b a) (filter (\<lambda>n. P (hn_Process n)) (sort_Sort hr_Less (map node_of ps)))"
      by (intro sorted_wrt_filter hr_sort.sort_sorted)
    show "mset (sort_Sort hr_Less (map node_of (filter P ps))) = mset (filter (\<lambda>n. P (hn_Process n)) (sort_Sort hr_Less (map node_of ps)))"
    proof -
      have "filter (\<lambda>n. P (hn_Process n)) (map node_of ps) = map node_of (filter P ps)"
        by (simp add: filter_map comp_def node_of_def)
      then show ?thesis by (metis mset_filter mset_sort_Sort)
    qed
    show "hr_Less a b \<or> hr_Less b a" if "a \<in> set (sort_Sort hr_Less (map node_of (filter P ps)))"
      "b \<in> set (sort_Sort hr_Less (map node_of (filter P ps)))" "a \<noteq> b" for a b
      using that inj_onD [of home "set ps"] assms by (auto simp: hr_Less_def node_of_def distinct_map)
  qed (rule hr_sort.sort_sorted)
qed

lemma clockwise_filter: "clockwise h (filter P hr) = filter P (clockwise h hr)"
  by (simp add: clockwise_def conj_commute)

lemma ring_sorted_filter: "ring_sorted hr \<Longrightarrow> ring_sorted (filter P hr)"
  by (rule sorted_wrt_filter)

lemma FindReplicas_length: "0 \<le> n \<Longrightarrow> length (FindReplicas key n (Refresh ps)) = min (nat n) (length ps)"
  by (cases "int (length ps) \<le> n") (auto simp: FindReplicas_def Let_def min_def)

lemma FindReplicas_distinct:
  assumes "distinct ps"
  shows "distinct (FindReplicas key n (Refresh ps))"
proof -
  have "mset (map hn_Process (clockwise (Hash key mod HASH_SIZE) (Refresh ps))) = mset ps"
    by (metis Refresh_processes mset_clockwise mset_map)
  then have "distinct (map hn_Process (clockwise (Hash key mod HASH_SIZE) (Refresh ps)))"
    using assms by (metis mset_eq_imp_distinct_iff)
  then show ?thesis unfolding FindReplicas_eq [OF Refresh_sorted] by (metis distinct_take take_map)
qed

section \<open>Properties\<close>

definition proc :: "string \<Rightarrow> int \<Rightarrow> time \<Rightarrow> process" where
  "proc host n t = \<lparr>ip = host, port = n, joinTime = t, lastUpdateTime = t, status = Alive\<rparr>"

lemma ports: "show_int 80 = ''80''" "show_int 81 = ''81''"
  by (simp_all add: show_int_def show_nat.simps)

definition p81 :: process where "p81 = proc ''a'' 81 1"
definition p80 :: process where "p80 = proc ''b'' 80 2"

lemma hash_p81: "Hash (Address p81) = 1325039757"
proof -
  have "Hash ''a:81'' = 1325039757" by code_simp
  then show ?thesis by (simp add: Address_def p81_def proc_def ports)
qed

lemma hash_p80: "Hash (Address p80) = 1298228365"
proof -
  have "Hash ''b:80'' = 1298228365" by code_simp
  then show ?thesis by (simp add: Address_def p80_def proc_def ports)
qed

lemma p81_p80: "p81 \<noteq> p80"
  by (simp add: p81_def p80_def proc_def)

text \<open>C24. The replicas of a file are the first processes met on the ring walking clockwise from the
  file's hash; there are as many as asked for or as the ring has, no process twice, all members; and
  the process a file is routed to is the first of them.\<close>

theorem replicas_clockwise:
  assumes "distinct ps" and "0 < n"
  shows "FindReplicas key n (Refresh ps)
      = map hn_Process (take (nat n) (clockwise (Hash key mod HASH_SIZE) (Refresh ps)))
    \<and> length (FindReplicas key n (Refresh ps)) = min (nat n) (length ps)
    \<and> distinct (FindReplicas key n (Refresh ps)) \<and> set (FindReplicas key n (Refresh ps)) \<subseteq> set ps
    \<and> GetRouteProcess key (Refresh ps) = (if ps = [] then None else Some (hd (FindReplicas key n (Refresh ps))))"
proof -
  let ?c = "clockwise (Hash key mod HASH_SIZE) (Refresh ps)"
  note eq = FindReplicas_eq [OF Refresh_sorted, of key n ps]
  have m: "mset (map hn_Process ?c) = mset ps" by (metis Refresh_processes mset_clockwise mset_map)
  then have d: "distinct (map hn_Process ?c)" "length ?c = length ps" "set (map hn_Process ?c) = set ps"
    using assms(1) by (metis mset_eq_imp_distinct_iff, metis length_map mset_eq_length, metis mset_eq_setD)
  have "GetRouteProcess key (Refresh ps) = (if ps = [] then None else Some (hd (map hn_Process (take (nat n) ?c))))"
    using d(2) assms(2) by (cases ?c; cases "nat n") (auto simp: GetRouteProcess_eq [OF Refresh_sorted])
  moreover have "distinct (map hn_Process (take (nat n) ?c))" using d(1) by (metis distinct_take take_map)
  moreover have "set (map hn_Process (take (nat n) ?c)) \<subseteq> set ps" using d(3) by (metis set_take_subset take_map)
  moreover have "length (map hn_Process (take (nat n) ?c)) = min (nat n) (length ps)" using d(2) by (simp add: min.commute)
  ultimately show ?thesis unfolding eq by blast
qed

theorem replicas_clockwise_witness:
  "length (FindReplicas ''f'' 4 (Refresh [p81, p80])) = 2"
proof -
  have "distinct [p81, p80]" "(0 :: int) < 4" using p81_p80 by simp_all
  from replicas_clockwise [OF this, of "''f''"] have "length (FindReplicas ''f'' 4 (Refresh [p81, p80])) = min (nat 4) (length [p81, p80])"
    by blast
  then show ?thesis by (simp only:) simp
qed

text \<open>C23. Servers that list the same processes place every file on the same replicas, in the same order,
  whatever the order of their lists and whatever they believe of liveness, provided no two addresses
  hash to the same slot.\<close>

theorem placement_agreement:
  assumes "no_collision ps" and "mset (map ident ps) = mset (map ident ps')"
  shows "map ident (FindReplicas key n (Refresh ps)) = map ident (FindReplicas key n (Refresh ps'))"
  by (rule FindReplicas_strip [OF Refresh_sorted Refresh_sorted Refresh_strip_perm [OF assms]])

lemma two_processes_apart: "no_collision [p81, p80\<lparr>port := 81\<rparr>]"
proof -
  have "Hash ''b:81'' mod HASH_SIZE = 762" unfolding HASH_SIZE_def by code_simp
  then have "home (p80\<lparr>port := 81\<rparr>) = 762" by (simp add: home_def Address_def p80_def proc_def ports)
  then show ?thesis by (simp add: home_def [of p81] hash_p81 HASH_SIZE_def)
qed

theorem placement_agreement_witness:
  "map ident (FindReplicas ''f'' 4 (Refresh [p81, p80\<lparr>port := 81\<rparr>]))
    = map ident (FindReplicas ''f'' 4 (Refresh [p80\<lparr>port := 81\<rparr>, p81\<lparr>status := Timeout\<rparr>]))"
  using placement_agreement [OF two_processes_apart, of "[p80\<lparr>port := 81\<rparr>, p81\<lparr>status := Timeout\<rparr>]" "''f''" 4] by simp

text \<open>C22. Departures move as little as possible: without collisions, the replicas of a file after some
  processes have left are the first survivors of the old clockwise order of the file, so every
  surviving replica remains one and is not preceded by a newcomer.\<close>

theorem departures_keep_replicas:
  assumes "no_collision ps"
  shows "FindReplicas key n (Refresh (filter P ps))
      = take (nat n) (filter P (FindReplicas key (int (length ps)) (Refresh ps)))
    \<and> (\<forall>p \<in> set (FindReplicas key n (Refresh ps)). P p \<longrightarrow> p \<in> set (FindReplicas key n (Refresh (filter P ps))))"
proof -
  let ?h = "Hash key mod HASH_SIZE" let ?c = "map hn_Process (clockwise ?h (Refresh ps))"
  have len: "length (clockwise ?h (Refresh ps)) = length ps" by (metis length_Refresh mset_clockwise mset_eq_length)
  have full: "FindReplicas key (int (length ps)) (Refresh ps) = ?c"
    using FindReplicas_eq [OF Refresh_sorted] len by simp
  have new: "FindReplicas key n (Refresh (filter P ps)) = take (nat n) (filter P ?c)"
    using FindReplicas_eq [OF Refresh_sorted, of key n "filter P ps"]
    by (simp add: filter_sort_home [OF assms] clockwise_filter filter_map comp_def take_map)
  have old: "FindReplicas key n (Refresh ps) = take (nat n) ?c"
    using FindReplicas_eq [OF Refresh_sorted] by (simp add: take_map)
  have keep: "x \<in> set (take k (filter P xs))" if "x \<in> set (take k xs)" "P x" for k x and xs :: "process list"
  proof -
    have "x \<in> set (filter P (take k xs))" using that by simp
    moreover have "filter P xs = filter P (take k xs) @ filter P (drop k xs)" by (metis append_take_drop_id filter_append)
    moreover have "length (filter P (take k xs)) \<le> k" by (metis length_filter_le length_take min.cobounded2 order_trans)
    ultimately show ?thesis by simp
  qed
  show ?thesis unfolding full new old using keep by blast
qed

theorem departures_keep_replicas_witness:
  "FindReplicas ''f'' 1 (Refresh [p81])
    = take 1 (filter (\<lambda>p. ip p = ''a'') (FindReplicas ''f'' 2 (Refresh [p81, p80\<lparr>port := 81\<rparr>])))"
  using departures_keep_replicas [OF two_processes_apart, of "''f''" 1 "\<lambda>p. ip p = ''a''"]
  by (simp add: p81_def p80_def proc_def)

text \<open>C37. With a collision (the addresses \<open>a:81\<close> and \<open>b:80\<close> hash to the same slot) two servers that
  list the same two processes in different orders route every file to different processes, and the
  process that was moved by probing is taken for the other one when it is looked up.\<close>

theorem collision_breaks_agreement:
  "GetRouteProcess key (Refresh [p81, p80]) \<noteq> GetRouteProcess key (Refresh [p80, p81])
    \<and> hr_FindProcessIndex p80 (Refresh [p81, p80]) = 0 \<and> hn_Process (Refresh [p81, p80] ! 0) = p81"
proof -
  have pr: "probe 1298228365 [141] 0 = 2" "probe 1325039757 [141] 0 = 2"
    by (simp_all add: probe.simps HASH_SIZE_def)
  have 1: "Refresh [p81, p80] = [\<lparr>HashKey = 141, hn_Process = p81\<rparr>, \<lparr>HashKey = 143, hn_Process = p80\<rparr>]"
    by (simp add: Refresh_def hash_p81 hash_p80 probe_free HASH_SIZE_def Let_def pr sort_Sort_def hr_Less_def)
  have 2: "Refresh [p80, p81] = [\<lparr>HashKey = 141, hn_Process = p80\<rparr>, \<lparr>HashKey = 143, hn_Process = p81\<rparr>]"
    by (simp add: Refresh_def hash_p81 hash_p80 probe_free HASH_SIZE_def Let_def pr sort_Sort_def hr_Less_def)
  show ?thesis unfolding 1 2
    using p81_p80 by (auto simp: GetRouteProcess_def Let_def hr_FindProcessIndex_def find_index_def hash_p80 HASH_SIZE_def)
qed

end
