(* ===== verification/File_Table.thy ===== *)
theory File_Table
  imports Utils
begin

text \<open>
  \<open>sdfs/file_table.go\<close>: the versions of each file a server stores. The table is a Go map from
  names to slices. Sequence numbers and write ids come from requests and are never nil.
  \<open>Get\<close> sorts the slice in place, so it returns the new table; it is shown to return the
  version with a given number of newer ones, independently of the order of arrival.
\<close>

section \<open>Operations\<close>

datatype file_version = FileVersion (ConcatName: string) (fv_Seq: sequence) (fv_Id: write_id)

type_synonym file_table = "(string \<times> file_version list) list"

definition LATEST_VERSION :: int where "LATEST_VERSION = 1"

definition HasSameId :: "file_version \<Rightarrow> file_version \<Rightarrow> bool" where
  "HasSameId v fileVersion \<longleftrightarrow>
     wid_ip (fv_Id v) = wid_ip (fv_Id fileVersion) \<and> wid_port (fv_Id v) = wid_port (fv_Id fileVersion)
     \<and> wid_createTime (fv_Id v) = wid_createTime (fv_Id fileVersion)"

definition fv_Less :: "file_version \<Rightarrow> file_version \<Rightarrow> bool" where
  "fv_Less a b \<longleftrightarrow> Sequence_Less (fv_Seq a) (fv_Seq b)"

definition NewFileTable :: file_table where "NewFileTable = []"

definition ft_Contains :: "string \<Rightarrow> file_table \<Rightarrow> bool" where
  "ft_Contains filename ft \<longleftrightarrow> mem_key filename ft"

text \<open>\<open>ft[filename]\<close>: nil, an empty slice, when the key is missing.\<close>

definition ft_at :: "file_table \<Rightarrow> string \<Rightarrow> file_version list" where
  "ft_at ft filename = (case map_of ft filename of None \<Rightarrow> [] | Some vs \<Rightarrow> vs)"

text \<open>\<open>None\<close> is the pair of the zero value and \<open>false\<close>.\<close>

definition ft_Get :: "string \<Rightarrow> int \<Rightarrow> file_table \<Rightarrow> (file_version option \<times> file_table) run" where
  "ft_Get filename version ft =
     (if \<not> ft_Contains filename ft \<or> int (length (ft_at ft filename)) < version then Inr (None, ft)
      else
        let sorted = sort_Sort fv_Less (ft_at ft filename);
            ft1 = AList.update filename sorted ft
        in case go_index sorted (int (length sorted) - version) of
             Inl e \<Rightarrow> Inl e
           | Inr v \<Rightarrow> Inr (Some v, ft1))"

datatype insert_error = DuplicateWriteId | DuplicateSequence

fun Insert_check :: "file_version list \<Rightarrow> file_version \<Rightarrow> insert_error option" where
  "Insert_check [] fileVersion = None"
| "Insert_check (v # vs) fileVersion =
     (if HasSameId v fileVersion then Some DuplicateWriteId
      else if Sequence_Equal (fv_Seq v) (fv_Seq fileVersion) then Some DuplicateSequence
      else Insert_check vs fileVersion)"

definition ft_Insert :: "string \<Rightarrow> file_version \<Rightarrow> file_table \<Rightarrow> insert_error option \<times> file_table" where
  "ft_Insert filename fileVersion ft =
     (let ft1 = (if \<not> ft_Contains filename ft then AList.update filename [] ft else ft) in
      case Insert_check (ft_at ft1 filename) fileVersion of
        Some e \<Rightarrow> (Some e, ft1)
      | None \<Rightarrow> (None, AList.update filename (ft_at ft1 filename @ [fileVersion]) ft1))"

definition ft_Delete :: "string \<Rightarrow> file_table \<Rightarrow> file_table" where
  "ft_Delete filename ft = AList.delete filename ft"

definition NumVersions :: "string \<Rightarrow> file_table \<Rightarrow> nat" where
  "NumVersions filename ft = length (ft_at ft filename)"

definition GetVersions :: "string \<Rightarrow> file_table \<Rightarrow> file_version list" where
  "GetVersions filename ft = (if \<not> ft_Contains filename ft then [] else ft_at ft filename)"

definition GetLatestVersion :: "string \<Rightarrow> file_table \<Rightarrow> (file_version option \<times> file_table) run" where
  "GetLatestVersion filename ft = ft_Get filename LATEST_VERSION ft"

definition GetStoredFiles :: "file_table \<Rightarrow> string list" where
  "GetStoredFiles ft = map fst ft"

section \<open>Invariant\<close>

lemma HasSameId_iff [simp]: "HasSameId v w \<longleftrightarrow> fv_Id v = fv_Id w"
  by (auto simp: HasSameId_def intro: write_id.expand)

interpretation fv_sort: sort_interface fv_Less
  unfolding fv_Less_def Sequence_Less_iff by (rule sort_interface_key)

definition versions_ok :: "file_version list \<Rightarrow> bool" where
  "versions_ok vs \<longleftrightarrow> distinct (map fv_Seq vs) \<and> distinct (map fv_Id vs)"

definition table_ok :: "file_table \<Rightarrow> bool" where
  "table_ok ft \<longleftrightarrow> wf_map ft \<and> (\<forall>f. versions_ok (ft_at ft f))"

lemma ft_at_update [simp]: "ft_at (AList.update f vs ft) g = (if g = f then vs else ft_at ft g)"
  by (simp add: ft_at_def)

lemma ft_at_delete [simp]: "ft_at (AList.delete f ft) g = (if g = f then [] else ft_at ft g)"
  by (simp add: ft_at_def)

lemma ft_at_missing: "\<not> ft_Contains f ft \<Longrightarrow> ft_at ft f = []"
  by (simp add: ft_at_def ft_Contains_def)

lemma GetVersions_eq [simp]: "GetVersions f ft = ft_at ft f"
  by (simp add: GetVersions_def ft_at_missing)

lemma Insert_check_None: "Insert_check vs v = None \<longleftrightarrow> fv_Id v \<notin> fv_Id ` set vs \<and> fv_Seq v \<notin> fv_Seq ` set vs"
  by (induction vs v rule: Insert_check.induct) auto

lemma versions_ok_sort [simp]: "versions_ok (sort_Sort lt vs) \<longleftrightarrow> versions_ok vs"
  by (simp add: versions_ok_def)

lemma ft_Get_ok:
  assumes "table_ok ft" and "ft_Get f n ft = Inr (r, ft')"
  shows "table_ok ft'" and "mset (ft_at ft' g) = mset (ft_at ft g)"
  using assms by (auto simp: table_ok_def ft_Get_def Let_def split: if_splits sum.splits)

lemma ft_Insert_ok: "table_ok ft \<Longrightarrow> table_ok (snd (ft_Insert f v ft))"
  by (auto simp: table_ok_def ft_Insert_def Let_def ft_at_missing versions_ok_def Insert_check_None split: option.splits)

lemma ft_Delete_ok: "table_ok ft \<Longrightarrow> table_ok (ft_Delete f ft)"
  by (simp add: table_ok_def ft_Delete_def versions_ok_def)

lemma ft_Insert_at:
  "ft_at (snd (ft_Insert f v ft)) g =
     (if g = f \<and> fv_Id v \<notin> fv_Id ` set (ft_at ft f) \<and> fv_Seq v \<notin> fv_Seq ` set (ft_at ft f)
      then ft_at ft f @ [v] else ft_at ft g)"
proof (cases "Insert_check (ft_at ft f) v")
  case None
  then show ?thesis using Insert_check_None [of "ft_at ft f" v] by (auto simp: ft_Insert_def Let_def ft_at_missing)
next
  case (Some e)
  then have "\<not> (fv_Id v \<notin> fv_Id ` set (ft_at ft f) \<and> fv_Seq v \<notin> fv_Seq ` set (ft_at ft f))"
    using Insert_check_None [of "ft_at ft f" v] by simp
  then show ?thesis
    using Some ft_at_missing [of f ft] by (cases "ft_Contains f ft") (auto simp: ft_Insert_def Let_def)
qed

section \<open>The n-th latest version\<close>

text \<open>In a sorted list the element \<open>n\<close> places from the end has \<open>n - 1\<close> greater ones.\<close>

lemma sorted_greater:
  assumes "sorted_wrt (\<lambda>a b. fv_Seq a < fv_Seq b) xs" and "i < length xs"
  shows "filter (\<lambda>w. fv_Seq (xs ! i) < fv_Seq w) xs = drop (Suc i) xs"
proof -
  have "xs = take (Suc i) xs @ drop (Suc i) xs" by simp
  moreover have "filter (\<lambda>w. fv_Seq (xs ! i) < fv_Seq w) (take (Suc i) xs) = []"
  proof -
    have "\<not> fv_Seq (xs ! i) < fv_Seq w" if "w \<in> set (take (Suc i) xs)" for w
    proof -
      obtain j where "j \<le> i" "w = xs ! j" using \<open>w \<in> _\<close> assms(2) by (auto simp: in_set_conv_nth less_Suc_eq_le)
      then show ?thesis using sorted_wrt_nth_less [OF assms(1), of j i] assms(2) by (cases "j = i") auto
    qed
    then show ?thesis by (simp add: filter_empty_conv)
  qed
  moreover have "filter (\<lambda>w. fv_Seq (xs ! i) < fv_Seq w) (drop (Suc i) xs) = drop (Suc i) xs"
  proof -
    have "fv_Seq (xs ! i) < fv_Seq w" if "w \<in> set (drop (Suc i) xs)" for w
    proof -
      from \<open>w \<in> _\<close> obtain k where "k < length (drop (Suc i) xs)" "w = drop (Suc i) xs ! k" unfolding in_set_conv_nth by auto
      then have "k < length xs - Suc i" "w = xs ! (Suc i + k)" by simp_all
      then show ?thesis using sorted_wrt_nth_less [OF assms(1), of i "Suc i + k"] by simp
    qed
    then show ?thesis by (simp add: filter_id_conv)
  qed
  ultimately show ?thesis by (metis append_Nil filter_append)
qed

lemma sort_strict:
  assumes "distinct (map fv_Seq vs)"
  shows "sorted_wrt (\<lambda>a b. fv_Seq a < fv_Seq b) (sort_Sort fv_Less vs)"
proof -
  have "sorted_wrt (\<lambda>a b. fv_Seq a \<le> fv_Seq b) (sort_Sort fv_Less vs)"
    using fv_sort.sort_sorted [of vs] by (simp add: fv_Less_def not_less)
  then have "sorted (map fv_Seq (sort_Sort fv_Less vs))" by (simp add: sorted_map)
  moreover have "distinct (map fv_Seq (sort_Sort fv_Less vs))" using assms by simp
  ultimately have "sorted_wrt (<) (map fv_Seq (sort_Sort fv_Less vs))" by (simp add: strict_sorted_iff)
  then show ?thesis by (simp add: sorted_wrt_map)
qed

lemma ft_Get_nth:
  assumes "table_ok ft" and "1 \<le> n" and "n \<le> int (length (ft_at ft f))"
  obtains v ft' where "ft_Get f n ft = Inr (Some v, ft')" and "v \<in> set (ft_at ft f)"
    and "int (length (filter (\<lambda>w. fv_Seq v < fv_Seq w) (ft_at ft f))) = n - 1"
proof -
  let ?vs = "ft_at ft f" let ?s = "sort_Sort fv_Less ?vs" let ?i = "length ?vs - nat n"
  have c: "ft_Contains f ft" using assms(2,3) ft_at_missing by fastforce
  have i: "?i < length ?vs" "nat (int (length ?vs) - n) = ?i" using assms(2,3) by auto
  have "ft_Get f n ft = Inr (Some (?s ! ?i), AList.update f ?s ft)"
    using c assms i by (simp add: ft_Get_def go_index_def Let_def)
  moreover have "?s ! ?i \<in> set ?vs" using i(1) by (metis length_sort_Sort nth_mem set_sort_Sort)
  moreover have "length (filter (\<lambda>w. fv_Seq (?s ! ?i) < fv_Seq w) ?vs) = nat n - 1"
  proof -
    have "length (filter P ?vs) = length (filter P ?s)" for P by (metis mset_filter mset_sort_Sort size_mset)
    moreover have "distinct (map fv_Seq ?vs)" using assms(1) by (simp add: table_ok_def versions_ok_def)
    ultimately show ?thesis using sorted_greater [OF sort_strict, of ?vs ?i] i assms(2,3) by simp
  qed
  moreover have "int (nat n - 1) = n - 1" using assms(2) by simp
  ultimately show ?thesis using that by metis
qed

section \<open>Properties\<close>

definition example_table :: file_table where
  "example_table =
     [(''f'', [FileVersion ''f2'' (Sequence 1 2) (WriteId ''a'' 1 7), FileVersion ''f1'' (Sequence 1 1) (WriteId ''a'' 1 5)])]"

lemma example_table_ok: "table_ok example_table"
  by (simp add: table_ok_def versions_ok_def ft_at_def example_table_def)

text \<open>\<open>Get\<close> with version \<open>n\<close> returns the \<open>n\<close>-th latest version of a file that has at least
  \<open>n\<close>: a stored version with exactly \<open>n - 1\<close> newer ones; it never panics, and the table keeps
  the same versions.\<close>

lemma get_nth_latest:
  assumes "table_ok ft" and "1 \<le> n" and "n \<le> int (length (ft_at ft f))"
  shows "\<exists>v ft'. ft_Get f n ft = Inr (Some v, ft') \<and> v \<in> set (ft_at ft f)
    \<and> int (length (filter (\<lambda>w. fv_Seq v < fv_Seq w) (ft_at ft f))) = n - 1
    \<and> table_ok ft' \<and> (\<forall>g. mset (ft_at ft' g) = mset (ft_at ft g))"
  by (rule ft_Get_nth [OF assms]) (use ft_Get_ok [OF assms(1)] in blast)

lemma get_nth_latest_example:
  "\<exists>v ft'. ft_Get ''f'' 2 example_table = Inr (Some v, ft') \<and> table_ok ft'"
  using get_nth_latest [OF example_table_ok, of 2 "''f''"] by (auto simp: ft_at_def example_table_def)

text \<open>Replicas that hold the same versions of a file answer every \<open>Get\<close> alike, whatever the order
  in which the versions reached them.\<close>

lemma replicas_answer_alike:
  assumes "table_ok ft" and "mset (ft_at ft f) = mset (ft_at ft' f)" and "ft_Contains f ft = ft_Contains f ft'"
  shows "map_sum id fst (ft_Get f n ft) = map_sum id fst (ft_Get f n ft')"
proof -
  have "sort_Sort fv_Less (ft_at ft f) = sort_Sort fv_Less (ft_at ft' f)"
  proof (rule fv_sort.sort_perm_eq [OF assms(2)])
    have "distinct (map fv_Seq (ft_at ft f))" using assms(1) by (simp add: table_ok_def versions_ok_def)
    then show "fv_Less a b \<or> fv_Less b a" if "a \<in> set (ft_at ft f)" "b \<in> set (ft_at ft f)" "a \<noteq> b" for a b
      using that inj_onD [of fv_Seq "set (ft_at ft f)" a b] neq_iff [of "fv_Seq a" "fv_Seq b"]
      by (auto simp: fv_Less_def distinct_map)
  qed
  then show ?thesis
    using assms(3) mset_eq_length [OF assms(2)] by (auto simp: ft_Get_def Let_def split: sum.splits)
qed

lemma replicas_answer_alike_example:
  "map_sum id fst (ft_Get ''f'' 1 example_table)
    = map_sum id fst (ft_Get ''f'' 1 [(''f'', rev (ft_at example_table ''f''))])"
  by (rule replicas_answer_alike [OF example_table_ok]) (simp_all add: ft_at_def ft_Contains_def example_table_def)

text \<open>C27. A write is recorded once: a version whose write id or sequence number is already stored for the
  file is refused and changes nothing; any other is stored, and if it is newer than all others it is
  the version \<open>GetLatestVersion\<close> returns. The invariant of the table is kept.\<close>

theorem insert_once_then_latest:
  assumes "table_ok ft"
  shows "(if fv_Id v \<in> fv_Id ` set (ft_at ft f) \<or> fv_Seq v \<in> fv_Seq ` set (ft_at ft f)
      then fst (ft_Insert f v ft) \<noteq> None \<and> snd (ft_Insert f v ft) = ft
      else fst (ft_Insert f v ft) = None \<and> ft_at (snd (ft_Insert f v ft)) f = ft_at ft f @ [v]
        \<and> ((\<forall>w \<in> set (ft_at ft f). fv_Seq w < fv_Seq v) \<longrightarrow>
             (\<exists>ft'. GetLatestVersion f (snd (ft_Insert f v ft)) = Inr (Some v, ft'))))
    \<and> table_ok (snd (ft_Insert f v ft))"
proof (cases "fv_Id v \<in> fv_Id ` set (ft_at ft f) \<or> fv_Seq v \<in> fv_Seq ` set (ft_at ft f)")
  case True
  then have "Insert_check (ft_at ft f) v \<noteq> None" by (auto simp: Insert_check_None)
  moreover have "ft_Contains f ft" using True ft_at_missing by fastforce
  ultimately show ?thesis using True assms by (auto simp: ft_Insert_def Let_def)
next
  case False
  let ?ft = "snd (ft_Insert f v ft)"
  have at: "ft_at ?ft f = ft_at ft f @ [v]" using False ft_Insert_at [of f v ft f] by simp
  have none: "fst (ft_Insert f v ft) = None"
    using False Insert_check_None [of "ft_at ft f" v] by (auto simp: ft_Insert_def Let_def ft_at_missing)
  have ok: "table_ok ?ft" by (rule ft_Insert_ok [OF assms])
  have "\<exists>ft'. GetLatestVersion f ?ft = Inr (Some v, ft')" if "\<forall>w \<in> set (ft_at ft f). fv_Seq w < fv_Seq v"
  proof -
    obtain u ft' where u: "ft_Get f 1 ?ft = Inr (Some u, ft')" "u \<in> set (ft_at ?ft f)"
      "int (length (filter (\<lambda>w. fv_Seq u < fv_Seq w) (ft_at ?ft f))) = 1 - 1"
      by (rule ft_Get_nth [OF ok, of 1 f]) (simp_all only: at length_append, simp_all)
    then have "\<not> fv_Seq u < fv_Seq v" by (auto simp: at)
    then have "u = v" using u(2) that by (auto simp: at)
    with u(1) show ?thesis by (simp add: GetLatestVersion_def LATEST_VERSION_def)
  qed
  with False at none ok show ?thesis by simp
qed

theorem insert_once_then_latest_witness:
  "table_ok (snd (ft_Insert ''g'' (FileVersion ''g1'' (Sequence 3 1) (WriteId ''a'' 1 9)) example_table))"
  using insert_once_then_latest [OF example_table_ok] by blast

text \<open>A \<open>Get\<close> with version 0 of an existing file panics with an index out of range instead of
  reporting that the version does not exist (the check compares the version only with the number of
  versions).\<close>

theorem get_version_zero_panics:
  assumes "ft_Contains f ft"
  shows "ft_Get f 0 ft = Inl IndexOutOfRange"
  using assms by (simp add: ft_Get_def go_index_def Let_def)

theorem get_version_zero_panics_witness: "ft_Get ''f'' 0 example_table = Inl IndexOutOfRange"
  by (rule get_version_zero_panics) (simp add: ft_Contains_def example_table_def)

end
