(* ===== verification/Dll.thy ===== *)
theory Dll
  imports Prelude
begin

text \<open>
  \<open>utils/dll.go\<close>: the intrusive doubly linked list with sentinels that holds the cache
  entries of one frequency. Nodes live in an explicit store (\<open>heap\<close>), pointers are
  \<open>ref option\<close> with \<open>None\<close> for nil, and following nil is the panic \<open>NilDereference\<close>.
  \<open>dll_rep h d xs\<close> says that \<open>d\<close> represents the sequence \<open>xs\<close> of nodes in \<open>h\<close>;
  the operations are shown to implement append, removal and removal of the front.
\<close>

section \<open>Store and operations\<close>

type_synonym ref = nat
type_synonym ptr = "ref option"
type_synonym bytes = string

record node =
  n_key :: string
  n_val :: bytes
  n_freq :: int
  n_prev :: ptr
  n_next :: ptr

type_synonym heap = "ref \<Rightarrow> node"

record dll =
  d_size :: nat
  d_head :: ref
  d_tail :: ref

definition DEFAULT_KEY :: string where
  "DEFAULT_KEY = ''''"

definition DEFAULT_VALUE :: bytes where
  "DEFAULT_VALUE = ''''"

text \<open>\<open>NewDLL\<close> allocates its two sentinels at the next free references.\<close>

definition NewDLL :: "ref \<Rightarrow> heap \<Rightarrow> dll \<times> heap \<times> ref" where
  "NewDLL free h =
     (let hd = free; tl = free + 1;
          n = \<lparr>n_key = DEFAULT_KEY, n_val = DEFAULT_VALUE, n_freq = 1, n_prev = None, n_next = None\<rparr>
      in (\<lparr>d_size = 0, d_head = hd, d_tail = tl\<rparr>,
          h(hd := n\<lparr>n_next := Some tl\<rparr>, tl := n\<lparr>n_prev := Some hd\<rparr>), free + 2))"

definition DLL_Len :: "dll \<Rightarrow> int" where
  "DLL_Len d = int (d_size d)"

definition DLL_Push :: "dll \<Rightarrow> ref \<Rightarrow> heap \<Rightarrow> (dll \<times> heap) run" where
  "DLL_Push d n h =
     (let curr = d_tail d in
      case n_prev (h curr) of
        None \<Rightarrow> Inl NilDereference
      | Some prev \<Rightarrow>
          let h1 = h(prev := (h prev)\<lparr>n_next := Some n\<rparr>);
              h2 = h1(curr := (h1 curr)\<lparr>n_prev := Some n\<rparr>);
              h3 = h2(n := (h2 n)\<lparr>n_prev := Some prev\<rparr>);
              h4 = h3(n := (h3 n)\<lparr>n_next := Some curr\<rparr>)
          in Inr (d\<lparr>d_size := d_size d + 1\<rparr>, h4))"

text \<open>\<open>Remove\<close> returns nil on an empty list, and otherwise the node it unlinked.\<close>

definition DLL_Remove :: "dll \<Rightarrow> ptr \<Rightarrow> heap \<Rightarrow> (ptr \<times> dll \<times> heap) run" where
  "DLL_Remove d p h =
     (if d_size d = 0 then Inr (None, d, h)
      else case p of
        None \<Rightarrow> Inl NilDereference
      | Some n \<Rightarrow>
          (case n_prev (h n) of
             None \<Rightarrow> Inl NilDereference
           | Some q \<Rightarrow>
               let h1 = h(q := (h q)\<lparr>n_next := n_next (h n)\<rparr>) in
               (case n_next (h1 n) of
                  None \<Rightarrow> Inl NilDereference
                | Some s \<Rightarrow>
                    let h2 = h1(s := (h1 s)\<lparr>n_prev := n_prev (h1 n)\<rparr>);
                        h3 = h2(n := (h2 n)\<lparr>n_prev := None, n_next := None\<rparr>)
                    in Inr (Some n, d\<lparr>d_size := d_size d - 1\<rparr>, h3))))"

definition DLL_Pop :: "dll \<Rightarrow> heap \<Rightarrow> (ptr \<times> dll \<times> heap) run" where
  "DLL_Pop d h = DLL_Remove d (n_next (h (d_head d))) h"

lemma DLL_Pop_shrinks: "DLL_Pop d h = Inr (Some n, d', h') \<Longrightarrow> d_size d' < d_size d"
  by (auto simp: DLL_Pop_def DLL_Remove_def Let_def split: if_splits option.splits)

section \<open>Representation\<close>

fun linked :: "heap \<Rightarrow> ref list \<Rightarrow> bool" where
  "linked h (a # b # ps) \<longleftrightarrow> n_next (h a) = Some b \<and> n_prev (h b) = Some a \<and> linked h (b # ps)"
| "linked h ps \<longleftrightarrow> True"

definition cells :: "dll \<Rightarrow> ref list \<Rightarrow> ref set" where
  "cells d xs = insert (d_head d) (insert (d_tail d) (set xs))"

definition dll_rep :: "heap \<Rightarrow> dll \<Rightarrow> ref list \<Rightarrow> bool" where
  "dll_rep h d xs \<longleftrightarrow>
     distinct (d_head d # xs @ [d_tail d]) \<and> linked h (d_head d # xs @ [d_tail d])
     \<and> d_size d = length xs"

text \<open>The fields other than the links, which no list operation touches.\<close>

definition payload :: "node \<Rightarrow> string \<times> bytes \<times> int" where
  "payload n = (n_key n, n_val n, n_freq n)"

lemma linked_append: "linked h (xs @ a # ys) \<longleftrightarrow> linked h (xs @ [a]) \<and> linked h (a # ys)"
  by (induction h "xs @ [a]" arbitrary: xs rule: linked.induct)
    (auto simp: Cons_eq_append_conv append_eq_Cons_conv)

lemma in_set_tlD: "x \<in> set (tl xs) \<Longrightarrow> x \<in> set xs"
  by (cases xs) auto

lemma linked_cong:
  assumes "\<forall>a \<in> set (butlast ps). n_next (h' a) = n_next (h a)"
    and "\<forall>a \<in> set (tl ps). n_prev (h' a) = n_prev (h a)"
  shows "linked h' ps \<longleftrightarrow> linked h ps"
  using assms by (induction h ps rule: linked.induct) auto

lemma dll_rep_frame:
  assumes "dll_rep h d xs" and "\<forall>r \<in> cells d xs. h' r = h r"
  shows "dll_rep h' d xs"
proof -
  have "linked h' (d_head d # xs @ [d_tail d]) \<longleftrightarrow> linked h (d_head d # xs @ [d_tail d])"
    using assms(2) by (intro linked_cong) (auto simp: cells_def butlast_append split: if_splits)
  with assms(1) show ?thesis by (simp add: dll_rep_def)
qed

lemma cells_finite [simp]: "finite (cells d xs)"
  by (simp add: cells_def)

section \<open>The operations implement sequence operations\<close>

lemma NewDLL_rep:
  assumes "NewDLL free h = (d, h', free')"
  shows "dll_rep h' d []" and "cells d [] = {free, free + 1}" and "free' = free + 2"
    and "\<And>r. r < free \<Longrightarrow> h' r = h r"
  using assms by (auto simp: NewDLL_def Let_def dll_rep_def cells_def)

lemma DLL_Push_rep:
  assumes rep: "dll_rep h d xs" and n: "n \<notin> cells d xs"
  obtains d' h' where "DLL_Push d n h = Inr (d', h')" and "dll_rep h' d' (xs @ [n])"
    and "cells d' (xs @ [n]) = insert n (cells d xs)"
    and "\<And>r. r \<notin> insert n (cells d xs) \<Longrightarrow> h' r = h r"
    and "\<And>r. payload (h' r) = payload (h r)"
proof -
  let ?t = "d_tail d"
  obtain ys p where yp: "d_head d # xs = ys @ [p]" by (metis rev_exhaust list.distinct(1))
  then have full: "d_head d # xs @ [?t] = ys @ [p, ?t]" by (metis append_Cons append.assoc append_Nil)
  have "linked h (ys @ [p, ?t])" using rep full by (metis dll_rep_def)
  then have lk: "linked h (ys @ [p])" "n_next (h p) = Some ?t" "n_prev (h ?t) = Some p"
    using linked_append [of h ys p "[?t]"] by simp_all
  have dist: "distinct (ys @ [p, ?t])" using rep full by (metis dll_rep_def)
  have mem: "cells d xs = set (ys @ [p, ?t])" unfolding full [symmetric] by (auto simp: cells_def)
  define h' where "h' = h(p := (h p)\<lparr>n_next := Some n\<rparr>, ?t := (h ?t)\<lparr>n_prev := Some n\<rparr>,
    n := (h n)\<lparr>n_prev := Some p, n_next := Some ?t\<rparr>)"
  have nn: "n \<notin> set (ys @ [p, ?t])" using n unfolding mem .
  then have ne: "p \<noteq> n" "?t \<noteq> n" "p \<noteq> ?t" using dist by auto
  have push: "DLL_Push d n h = Inr (d\<lparr>d_size := d_size d + 1\<rparr>, h')"
    using lk ne by (auto simp: DLL_Push_def Let_def h'_def fun_eq_iff)
  have "linked h' (ys @ [p]) \<longleftrightarrow> linked h (ys @ [p])"
    using dist nn by (intro linked_cong) (auto simp: h'_def dest: in_set_tlD)
  moreover have "linked h' [p, n, ?t]" using ne by (simp add: h'_def)
  ultimately have "linked h' (ys @ p # [n, ?t])" using lk(1) by (subst linked_append) simp
  moreover have "d_head d # (xs @ [n]) @ [?t] = ys @ p # [n, ?t]"
    using yp by (metis append_Cons append.assoc append_Nil)
  ultimately have "linked h' (d_head d # (xs @ [n]) @ [?t])" by metis
  then have "dll_rep h' (d\<lparr>d_size := d_size d + 1\<rparr>) (xs @ [n])"
    using rep n by (auto simp: dll_rep_def cells_def)
  with push that show ?thesis
    using mem by (force simp: cells_def h'_def payload_def)
qed

lemma DLL_Remove_rep:
  assumes rep: "dll_rep h d (xs @ n # ys)"
  obtains d' h' where "DLL_Remove d (Some n) h = Inr (Some n, d', h')" and "dll_rep h' d' (xs @ ys)"
    and "cells d' (xs @ ys) = cells d (xs @ n # ys) - {n}"
    and "\<And>r. r \<notin> cells d (xs @ n # ys) \<Longrightarrow> h' r = h r"
    and "\<And>r. payload (h' r) = payload (h r)"
proof -
  obtain as q where aq: "d_head d # xs = as @ [q]" by (metis rev_exhaust list.distinct(1))
  obtain s bs where sb: "ys @ [d_tail d] = s # bs" by (cases "ys @ [d_tail d]") auto
  have full: "d_head d # (xs @ n # ys) @ [d_tail d] = as @ q # n # s # bs"
    using aq sb by (metis append_Cons append.assoc append_Nil)
  have short: "d_head d # (xs @ ys) @ [d_tail d] = as @ q # s # bs"
    using aq sb by (metis append_Cons append.assoc append_Nil)
  have dist: "distinct (as @ q # n # s # bs)" using rep full by (metis dll_rep_def)
  have "linked h (as @ q # n # s # bs)" using rep full by (metis dll_rep_def)
  then have lk: "linked h (as @ [q])" "n_prev (h n) = Some q" "n_next (h n) = Some s" "linked h (s # bs)"
    using linked_append [of h as q "n # s # bs"] by simp_all
  define h' where "h' = h(q := (h q)\<lparr>n_next := Some s\<rparr>, s := (h s)\<lparr>n_prev := Some q\<rparr>,
    n := (h n)\<lparr>n_prev := None, n_next := None\<rparr>)"
  have ne: "q \<noteq> n" "s \<noteq> n" "q \<noteq> s" using dist by auto
  have sz: "d_size d = Suc (length xs + length ys)" using rep by (simp add: dll_rep_def)
  have rem: "DLL_Remove d (Some n) h = Inr (Some n, d\<lparr>d_size := d_size d - 1\<rparr>, h')"
    using lk ne sz by (auto simp: DLL_Remove_def Let_def h'_def fun_eq_iff)
  have "linked h' (as @ [q]) \<longleftrightarrow> linked h (as @ [q])"
    using dist by (intro linked_cong) (auto simp: h'_def dest: in_set_tlD)
  moreover have "linked h' (s # bs) \<longleftrightarrow> linked h (s # bs)"
    using dist by (intro linked_cong) (auto simp: h'_def dest: in_set_butlastD)
  moreover have "n_next (h' q) = Some s" "n_prev (h' s) = Some q" using ne by (simp_all add: h'_def)
  ultimately have "linked h' (as @ q # s # bs)" using lk by (subst linked_append) simp
  then have "linked h' (d_head d # (xs @ ys) @ [d_tail d])" unfolding short .
  then have rep': "dll_rep h' (d\<lparr>d_size := d_size d - 1\<rparr>) (xs @ ys)"
    using rep sz by (simp add: dll_rep_def)
  have mem: "cells d (xs @ n # ys) = set (as @ q # n # s # bs)"
    unfolding full [symmetric] by (auto simp: cells_def)
  have "cells (d\<lparr>d_size := d_size d - 1\<rparr>) (xs @ ys) = cells d (xs @ n # ys) - {n}"
    using rep by (auto simp: cells_def dll_rep_def)
  with rem rep' that show ?thesis using mem by (force simp: h'_def payload_def)
qed

lemma DLL_Pop_rep:
  assumes rep: "dll_rep h d (n # ys)"
  obtains d' h' where "DLL_Pop d h = Inr (Some n, d', h')" and "dll_rep h' d' ys"
    and "cells d' ys = cells d (n # ys) - {n}"
    and "\<And>r. r \<notin> cells d (n # ys) \<Longrightarrow> h' r = h r"
    and "\<And>r. payload (h' r) = payload (h r)"
proof -
  have "n_next (h (d_head d)) = Some n" using rep by (simp add: dll_rep_def)
  then have "DLL_Pop d h = DLL_Remove d (Some n) h" by (simp add: DLL_Pop_def)
  with DLL_Remove_rep [of h d "[]" n ys] rep that show ?thesis by (metis append_Nil)
qed

lemma DLL_Pop_empty: "dll_rep h d [] \<Longrightarrow> DLL_Pop d h = Inr (None, d, h)"
  by (simp add: dll_rep_def DLL_Pop_def DLL_Remove_def)

end
