(* ===== verification/Lfu_Cache.thy ===== *)
theory Lfu_Cache
  imports Dll
begin

text \<open>
  \<open>utils/cache.go\<close>: the LFU cache in front of the SDFS files, over the linked lists of
  \<open>Dll\<close>. The Go struct holds pointers into the heap, so the model carries the store and
  the next free reference with it. \<open>lfu_inv c L\<close> relates a cache to the sequence of nodes
  \<open>L f\<close> held at each frequency \<open>f\<close>; \<open>cache_lookup\<close> is its content as a map. The
  locale \<open>file_cache\<close> is what the SDFS server relies on.
\<close>

section \<open>Operations\<close>

record lfu =
  capacity :: int
  size :: int
  minFreq :: int
  nodeMap :: "string \<rightharpoonup> ref"
  freqLists :: "int \<rightharpoonup> dll"
  heap :: heap
  free :: ref

definition KiloByte :: int where "KiloByte = 1024"
definition MegaByte :: int where "MegaByte = 1024 * KiloByte"
definition GigaByte :: int where "GigaByte = 1024 * MegaByte"

definition NewLFUCache :: "int \<Rightarrow> lfu" where
  "NewLFUCache cap =
     \<lparr>capacity = cap, size = 0, minFreq = 0, nodeMap = Map.empty, freqLists = Map.empty,
      heap = (\<lambda>_. \<lparr>n_key = '''', n_val = '''', n_freq = 0, n_prev = None, n_next = None\<rparr>), free = 0\<rparr>"

definition SetDefault :: "int \<Rightarrow> lfu \<Rightarrow> lfu" where
  "SetDefault freq c =
     (case freqLists c freq of
        Some _ \<Rightarrow> c
      | None \<Rightarrow>
          (case NewDLL (free c) (heap c) of
             (d, h, fr) \<Rightarrow> c\<lparr>freqLists := (freqLists c)(freq \<mapsto> d), heap := h, free := fr\<rparr>))"

definition Contains :: "string \<Rightarrow> lfu \<Rightarrow> bool" where
  "Contains key c \<longleftrightarrow> nodeMap c key \<noteq> None"

text \<open>A method call on a missing list is a call on a nil pointer.\<close>

definition list_remove :: "int \<Rightarrow> ref \<Rightarrow> lfu \<Rightarrow> lfu run" where
  "list_remove f n c =
     (case freqLists c f of
        None \<Rightarrow> Inl NilDereference
      | Some d \<Rightarrow>
          (case DLL_Remove d (Some n) (heap c) of
             Inl e \<Rightarrow> Inl e
           | Inr (_, d', h) \<Rightarrow> Inr (c\<lparr>freqLists := (freqLists c)(f \<mapsto> d'), heap := h\<rparr>)))"

definition list_push :: "int \<Rightarrow> ref \<Rightarrow> lfu \<Rightarrow> lfu run" where
  "list_push f n c =
     (case freqLists c f of
        None \<Rightarrow> Inl NilDereference
      | Some d \<Rightarrow>
          (case DLL_Push d n (heap c) of
             Inl e \<Rightarrow> Inl e
           | Inr (d', h) \<Rightarrow> Inr (c\<lparr>freqLists := (freqLists c)(f \<mapsto> d'), heap := h\<rparr>)))"

definition list_len :: "int \<Rightarrow> lfu \<Rightarrow> int run" where
  "list_len f c = (case freqLists c f of None \<Rightarrow> Inl NilDereference | Some d \<Rightarrow> Inr (DLL_Len d))"

text \<open>\<open>Get\<close> returns the value and whether the key was found.\<close>

definition LFU_Get :: "string \<Rightarrow> lfu \<Rightarrow> ((bytes \<times> bool) \<times> lfu) run" where
  "LFU_Get key c =
     (if minFreq c = 0 \<or> \<not> Contains key c then Inr ((DEFAULT_VALUE, False), c)
      else
        let n = the (nodeMap c key); f = n_freq (heap c n) in
        case list_remove f n c of
          Inl e \<Rightarrow> Inl e
        | Inr c1 \<Rightarrow>
            (case list_push (f + 1) n (SetDefault (f + 1) c1) of
               Inl e \<Rightarrow> Inl e
             | Inr c2 \<Rightarrow>
                 (case list_len f c2 of
                    Inl e \<Rightarrow> Inl e
                  | Inr len \<Rightarrow>
                      let c3 = (if f = minFreq c2 \<and> len = 0 then c2\<lparr>minFreq := minFreq c2 + 1\<rparr> else c2);
                          c4 = c3\<lparr>heap := (heap c3)(n := (heap c3 n)\<lparr>n_freq := n_freq (heap c3 n) + 1\<rparr>)\<rparr>
                      in Inr ((n_val (heap c4 n), True), c4))))"

function RecycleLRU :: "lfu \<Rightarrow> lfu run" where
  "RecycleLRU c =
     (if size c > capacity c then
        (case freqLists c (minFreq c) of
           None \<Rightarrow> Inl NilDereference
         | Some d \<Rightarrow>
             (case DLL_Pop d (heap c) of
                Inl e \<Rightarrow> Inl e
              | Inr (None, d', h) \<Rightarrow> Inl NilDereference
              | Inr (Some n, d', h) \<Rightarrow>
                  RecycleLRU (c\<lparr>freqLists := (freqLists c)(minFreq c \<mapsto> d'), heap := h,
                    nodeMap := (nodeMap c)(n_key (h n) := None),
                    size := size c - int (length (n_val (h n)))\<rparr>)))
      else Inr c)"
  by pat_completeness auto
termination
  by (relation "measure (\<lambda>c. case freqLists c (minFreq c) of None \<Rightarrow> 0 | Some d \<Rightarrow> d_size d)")
    (auto dest: DLL_Pop_shrinks)

declare RecycleLRU.simps [simp del]

definition LFU_Put :: "string \<Rightarrow> bytes \<Rightarrow> lfu \<Rightarrow> lfu run" where
  "LFU_Put key value c =
     (if capacity c = 0 then Inr c
      else if Contains key c then
        (case LFU_Get key c of
           Inl e \<Rightarrow> Inl e
         | Inr (_, c1) \<Rightarrow>
             let n = the (nodeMap c1 key);
                 c2 = c1\<lparr>size := size c1 - int (length (n_val (heap c1 n))) + int (length value)\<rparr>;
                 c3 = c2\<lparr>heap := (heap c2)(n := (heap c2 n)\<lparr>n_val := value\<rparr>)\<rparr>
             in RecycleLRU c3)
      else
        let n = free c;
            c1 = c\<lparr>heap := (heap c)(n := \<lparr>n_key = key, n_val = value, n_freq = 1, n_prev = None, n_next = None\<rparr>),
                   free := n + 1, size := size c + int (length value),
                   nodeMap := (nodeMap c)(key \<mapsto> n)\<rparr>
        in case list_push 1 n (SetDefault 1 c1) of
             Inl e \<Rightarrow> Inl e
           | Inr c2 \<Rightarrow> RecycleLRU (c2\<lparr>minFreq := 1\<rparr>))"

section \<open>Representation invariant\<close>

definition lists_ok :: "(int \<rightharpoonup> dll) \<Rightarrow> heap \<Rightarrow> ref \<Rightarrow> (int \<Rightarrow> ref list) \<Rightarrow> bool" where
  "lists_ok fl h fr L \<longleftrightarrow>
     (\<forall>f d. fl f = Some d \<longrightarrow> dll_rep h d (L f) \<and> cells d (L f) \<subseteq> {..<fr})
     \<and> (\<forall>f. fl f = None \<longrightarrow> L f = [])
     \<and> (\<forall>f g d e. f \<noteq> g \<longrightarrow> fl f = Some d \<longrightarrow> fl g = Some e \<longrightarrow> cells d (L f) \<inter> cells e (L g) = {})"

definition index_ok :: "(string \<rightharpoonup> ref) \<Rightarrow> heap \<Rightarrow> (int \<Rightarrow> ref list) \<Rightarrow> bool" where
  "index_ok nm h L \<longleftrightarrow>
     (\<forall>f. \<forall>r \<in> set (L f). n_freq (h r) = f \<and> nm (n_key (h r)) = Some r)
     \<and> (\<forall>k r. nm k = Some r \<longrightarrow> r \<in> set (L (n_freq (h r))) \<and> n_key (h r) = k)"

definition total_len :: "(string \<rightharpoonup> ref) \<Rightarrow> heap \<Rightarrow> int" where
  "total_len nm h = (\<Sum>k \<in> dom nm. int (length (n_val (h (the (nm k))))))"

definition lfu_inv :: "lfu \<Rightarrow> (int \<Rightarrow> ref list) \<Rightarrow> bool" where
  "lfu_inv c L \<longleftrightarrow>
     lists_ok (freqLists c) (heap c) (free c) L \<and> index_ok (nodeMap c) (heap c) L
     \<and> finite (dom (nodeMap c)) \<and> size c = total_len (nodeMap c) (heap c)
     \<and> (\<forall>k r. nodeMap c k = Some r \<longrightarrow> 1 \<le> minFreq c \<and> minFreq c \<le> n_freq (heap c r))"

definition cache_ok :: "lfu \<Rightarrow> bool" where
  "cache_ok c \<longleftrightarrow> (\<exists>L. lfu_inv c L) \<and> size c \<le> capacity c \<and> 0 < capacity c"

definition cache_lookup :: "lfu \<Rightarrow> string \<rightharpoonup> bytes" where
  "cache_lookup c k = map_option (\<lambda>r. n_val (heap c r)) (nodeMap c k)"

lemma NewLFUCache_ok: "0 < cap \<Longrightarrow> cache_ok (NewLFUCache cap)"
  by (auto simp: cache_ok_def lfu_inv_def NewLFUCache_def lists_ok_def index_ok_def total_len_def
      intro!: exI [of _ "\<lambda>_. []"])

lemma lists_ok_replace:
  assumes "lists_ok fl h fr L" and "dll_rep h' d' xs" and "cells d' xs \<subseteq> {..<fr'}" and "fr \<le> fr'"
    and frame: "\<And>g e r. g \<noteq> f \<Longrightarrow> fl g = Some e \<Longrightarrow> r \<in> cells e (L g) \<Longrightarrow> h' r = h r \<and> r \<notin> cells d' xs"
  shows "lists_ok (fl(f \<mapsto> d')) h' fr' (L(f := xs))"
proof -
  have 1: "dll_rep h' e (L g) \<and> cells e (L g) \<subseteq> {..<fr'}" if "g \<noteq> f" "fl g = Some e" for g e
  proof -
    have "dll_rep h e (L g)" "cells e (L g) \<subseteq> {..<fr}"
      using assms(1) that by (auto simp: lists_ok_def)
    with frame [OF that] assms(4) show ?thesis by (auto intro: dll_rep_frame)
  qed
  have 2: "cells e (L g) \<inter> cells d' xs = {}" if "g \<noteq> f" "fl g = Some e" for g e
    using frame [OF that] by auto
  show ?thesis unfolding lists_ok_def
  proof (intro conjI allI impI)
    fix g e
    assume "(fl(f \<mapsto> d')) g = Some e"
    then show "dll_rep h' e ((L(f := xs)) g)" "cells e ((L(f := xs)) g) \<subseteq> {..<fr'}"
      using 1 assms(2,3) by (auto split: if_splits)
  next
    fix g
    assume "(fl(f \<mapsto> d')) g = None"
    then show "(L(f := xs)) g = []" using assms(1) by (auto simp: lists_ok_def split: if_splits)
  next
    fix a b d e
    assume "a \<noteq> b" "(fl(f \<mapsto> d')) a = Some d" "(fl(f \<mapsto> d')) b = Some e"
    then show "cells d ((L(f := xs)) a) \<inter> cells e ((L(f := xs)) b) = {}"
      using 2 [of a d] 2 [of b e] assms(1)
      by (cases "a = f"; cases "b = f") (auto simp: lists_ok_def Int_commute)
  qed
qed

text \<open>Changing keys, values or frequencies leaves the links alone.\<close>

lemma lists_ok_links:
  assumes "lists_ok fl h fr L" and "\<And>r. n_prev (h' r) = n_prev (h r) \<and> n_next (h' r) = n_next (h r)"
  shows "lists_ok fl h' fr L"
proof -
  have "linked h' ps \<longleftrightarrow> linked h ps" for ps using assms(2) by (intro linked_cong) auto
  with assms(1) show ?thesis by (simp add: lists_ok_def dll_rep_def)
qed


text \<open>A list operation touches links only: the index of the cache stays as it was.\<close>

definition same_index :: "lfu \<Rightarrow> lfu \<Rightarrow> bool" where
  "same_index c c' \<longleftrightarrow>
     capacity c' = capacity c \<and> size c' = size c \<and> minFreq c' = minFreq c \<and> nodeMap c' = nodeMap c
     \<and> free c \<le> free c' \<and> (\<forall>r < free c. payload (heap c' r) = payload (heap c r))"

abbreviation lists_inv :: "lfu \<Rightarrow> (int \<Rightarrow> ref list) \<Rightarrow> bool" where
  "lists_inv c L \<equiv> lists_ok (freqLists c) (heap c) (free c) L"

definition unlinked :: "ref \<Rightarrow> lfu \<Rightarrow> (int \<Rightarrow> ref list) \<Rightarrow> bool" where
  "unlinked n c L \<longleftrightarrow> (\<forall>f d. freqLists c f = Some d \<longrightarrow> n \<notin> cells d (L f))"

lemma lists_inv_Some:
  assumes "lists_inv c L" and "n \<in> set (L f)"
  obtains d where "freqLists c f = Some d" and "dll_rep (heap c) d (L f)" and "n < free c"
  using assms by (cases "freqLists c f") (auto simp: lists_ok_def cells_def)

lemma lists_inv_other:
  assumes "lists_inv c L" and "freqLists c f = Some d" and "freqLists c g = Some e" and "g \<noteq> f"
    and "r \<in> cells e (L g)"
  shows "r \<notin> cells d (L f)"
  using assms unfolding lists_ok_def by (metis disjoint_iff)

lemma SetDefault_ok:
  assumes "lists_inv c L"
  shows "lists_inv (SetDefault f c) L" and "same_index c (SetDefault f c)"
    and "freqLists (SetDefault f c) f \<noteq> None"
    and "unlinked n c L \<Longrightarrow> n < free c \<Longrightarrow> unlinked n (SetDefault f c) L"
    and "\<And>g. freqLists c g \<noteq> None \<Longrightarrow> freqLists (SetDefault f c) g = freqLists c g"
proof -
  obtain d h fr where new: "NewDLL (free c) (heap c) = (d, h, fr)" by (metis prod_cases3)
  note N = NewDLL_rep [OF new]
  have "lists_ok ((freqLists c)(f \<mapsto> d)) h fr (L(f := []))"
  proof (rule lists_ok_replace [OF assms N(1)])
    show "cells d [] \<subseteq> {..<fr}" "free c \<le> fr" using N(2,3) by auto
    fix g e r
    assume "freqLists c g = Some e" "r \<in> cells e (L g)"
    then have "r < free c" using assms by (auto simp: lists_ok_def)
    then show "h r = heap c r \<and> r \<notin> cells d []" using N(2,4) by auto
  qed
  moreover have "L(f := []) = L" if "freqLists c f = None"
    using assms that by (auto simp: lists_ok_def)
  ultimately show "lists_inv (SetDefault f c) L"
    using assms new by (auto simp: SetDefault_def split: option.splits)
  show "same_index c (SetDefault f c)"
    using new N by (auto simp: SetDefault_def same_index_def split: option.splits)
  show "freqLists (SetDefault f c) f \<noteq> None"
    using new by (auto simp: SetDefault_def split: option.splits)
  show "unlinked n c L \<Longrightarrow> n < free c \<Longrightarrow> unlinked n (SetDefault f c) L"
    using new N(2) assms
    by (auto simp: SetDefault_def unlinked_def lists_ok_def split: option.splits if_splits)
  show "\<And>g. freqLists c g \<noteq> None \<Longrightarrow> freqLists (SetDefault f c) g = freqLists c g"
    using new by (auto simp: SetDefault_def split: option.splits)
qed

lemma list_remove_ok:
  assumes inv: "lists_inv c L" and L: "L f = xs @ n # ys"
  obtains c' where "list_remove f n c = Inr c'" and "lists_inv c' (L(f := xs @ ys))"
    and "same_index c c'" and "unlinked n c' (L(f := xs @ ys))" and "n < free c'"
    and "\<exists>d. freqLists c' f = Some d \<and> d_size d = length (xs @ ys)"
proof -
  obtain d where d: "freqLists c f = Some d" "dll_rep (heap c) d (xs @ n # ys)" "n < free c"
    using lists_inv_Some [OF inv, of n f] L by auto
  from DLL_Remove_rep [OF d(2)] obtain d' h' where R:
    "DLL_Remove d (Some n) (heap c) = Inr (Some n, d', h')" "dll_rep h' d' (xs @ ys)"
    "cells d' (xs @ ys) = cells d (xs @ n # ys) - {n}"
    "\<And>r. r \<notin> cells d (xs @ n # ys) \<Longrightarrow> h' r = heap c r" "\<And>r. payload (h' r) = payload (heap c r)"
    by blast
  let ?c = "c\<lparr>freqLists := (freqLists c)(f \<mapsto> d'), heap := h'\<rparr>"
  have "lists_ok ((freqLists c)(f \<mapsto> d')) h' (free c) (L(f := xs @ ys))"
  proof (rule lists_ok_replace [OF inv R(2)])
    have "cells d (L f) \<subseteq> {..<free c}" using inv d(1) by (auto simp: lists_ok_def)
    then show "cells d' (xs @ ys) \<subseteq> {..<free c}" unfolding R(3) L by blast
    fix g e r
    assume "g \<noteq> f" "freqLists c g = Some e" "r \<in> cells e (L g)"
    then have "r \<notin> cells d (xs @ n # ys)" using lists_inv_other [OF inv d(1)] L by metis
    then show "h' r = heap c r \<and> r \<notin> cells d' (xs @ ys)" using R(3,4) by auto
  qed simp
  moreover have "unlinked n ?c (L(f := xs @ ys))"
    unfolding unlinked_def
  proof (intro allI impI)
    fix g e
    assume "freqLists ?c g = Some e"
    moreover have "n \<in> cells d (L f)" using L by (simp add: cells_def)
    ultimately show "n \<notin> cells e ((L(f := xs @ ys)) g)"
      using R(3) lists_inv_other [OF inv d(1), of g e n] by (cases "g = f") auto
  qed
  ultimately show ?thesis
    using that [of ?c] d R by (simp add: list_remove_def same_index_def dll_rep_def)
qed

lemma list_push_ok:
  assumes inv: "lists_inv c L" and f: "freqLists c f \<noteq> None" and n: "unlinked n c L" "n < free c"
  obtains c' where "list_push f n c = Inr c'" and "lists_inv c' (L(f := L f @ [n]))"
    and "same_index c c'" and "\<And>g. g \<noteq> f \<Longrightarrow> freqLists c' g = freqLists c g"
proof -
  obtain d where d: "freqLists c f = Some d" using f by auto
  have rep: "dll_rep (heap c) d (L f)" and nc: "n \<notin> cells d (L f)"
    using inv d n by (auto simp: lists_ok_def unlinked_def)
  from DLL_Push_rep [OF rep nc] obtain d' h' where P:
    "DLL_Push d n (heap c) = Inr (d', h')" "dll_rep h' d' (L f @ [n])"
    "cells d' (L f @ [n]) = insert n (cells d (L f))"
    "\<And>r. r \<notin> insert n (cells d (L f)) \<Longrightarrow> h' r = heap c r" "\<And>r. payload (h' r) = payload (heap c r)"
    by blast
  let ?c = "c\<lparr>freqLists := (freqLists c)(f \<mapsto> d'), heap := h'\<rparr>"
  have "lists_ok ((freqLists c)(f \<mapsto> d')) h' (free c) (L(f := L f @ [n]))"
  proof (rule lists_ok_replace [OF inv P(2)])
    show "cells d' (L f @ [n]) \<subseteq> {..<free c}" using inv d P(3) n by (auto simp: lists_ok_def)
    fix g e r
    assume g: "g \<noteq> f" "freqLists c g = Some e" "r \<in> cells e (L g)"
    then have "r \<notin> cells d (L f)" using lists_inv_other [OF inv d] by metis
    moreover have "r \<noteq> n" using g n by (auto simp: unlinked_def)
    ultimately show "h' r = heap c r \<and> r \<notin> cells d' (L f @ [n])" using P(3,4) by auto
  qed simp
  then show ?thesis using that [of ?c] d P by (simp add: list_push_def same_index_def)
qed


section \<open>Get\<close>

lemma lfu_inv_node:
  assumes "lfu_inv c L" and "nodeMap c k = Some n"
  shows "n \<in> set (L (n_freq (heap c n)))" and "n_key (heap c n) = k" and "n < free c"
    and "minFreq c \<noteq> 0" and "minFreq c \<le> n_freq (heap c n)"
proof -
  show n: "n \<in> set (L (n_freq (heap c n)))" "n_key (heap c n) = k"
    using assms by (auto simp: lfu_inv_def index_ok_def)
  show "minFreq c \<noteq> 0" "minFreq c \<le> n_freq (heap c n)"
    using assms by (force simp: lfu_inv_def)+
  have "lists_inv c L" using assms(1) by (simp add: lfu_inv_def)
  from lists_inv_Some [OF this n(1)] show "n < free c" .
qed

lemma lists_inv_distinct: "lists_inv c L \<Longrightarrow> distinct (L f)"
  by (cases "freqLists c f") (auto simp: lists_ok_def dll_rep_def)

lemma index_move:
  assumes "index_ok nm h L" and L: "L f = xs @ n # ys" "n \<notin> set (xs @ ys)"
    and h': "\<And>g r. r \<in> set (L g) \<Longrightarrow>
        n_key (h' r) = n_key (h r) \<and> n_freq (h' r) = (if r = n then f + 1 else n_freq (h r))"
  shows "index_ok nm h' (L(f := xs @ ys, f + 1 := L (f + 1) @ [n]))"
proof -
  let ?L = "L(f := xs @ ys, f + 1 := L (f + 1) @ [n])"
  have nf: "n_freq (h n) = f" "n \<in> set (L f)" using assms by (auto simp: index_ok_def)
  have only: "n \<in> set (L g) \<longleftrightarrow> g = f" for g using nf assms(1) unfolding index_ok_def by metis
  have mem: "r \<in> set (?L g) \<longleftrightarrow> (if r = n then g = f + 1 else r \<in> set (L g))" for r g
    using L nf only by auto
  show ?thesis unfolding index_ok_def
  proof (intro conjI allI ballI impI)
    fix g r
    assume "r \<in> set (?L g)"
    then have r: "if r = n then g = f + 1 else r \<in> set (L g)" by (simp only: mem)
    then have "r \<in> set (L (if r = n then f else g))" using nf by (simp split: if_splits)
    from h' [OF this] assms(1) r nf show "n_freq (h' r) = g" "nm (n_key (h' r)) = Some r"
      by (auto simp: index_ok_def split: if_splits)
  next
    fix k r
    assume "nm k = Some r"
    then have r: "r \<in> set (L (n_freq (h r)))" "n_key (h r) = k" using assms(1) by (auto simp: index_ok_def)
    from h' [OF r(1)] r show "n_key (h' r) = k" by simp
    from h' [OF r(1)] r have "if r = n then n_freq (h' r) = f + 1 else r \<in> set (L (n_freq (h' r)))"
      by (cases "r = n") simp_all
    then show "r \<in> set (?L (n_freq (h' r)))" by (simp only: mem)
  qed
qed

lemma total_len_cong:
  assumes "\<And>k r. nm k = Some r \<Longrightarrow> n_val (h' r) = n_val (h r)"
  shows "total_len nm h' = total_len nm h"
  unfolding total_len_def by (rule sum.cong) (use assms in auto)

lemma LFU_Get_hit:
  assumes inv: "lfu_inv c L" and n: "nodeMap c key = Some n"
  obtains c' L' where "LFU_Get key c = Inr ((n_val (heap c n), True), c')" and "lfu_inv c' L'"
    and "capacity c' = capacity c" and "size c' = size c" and "nodeMap c' = nodeMap c"
    and "\<And>k r. nodeMap c k = Some r \<Longrightarrow> n_val (heap c' r) = n_val (heap c r)"
proof -
  let ?f = "n_freq (heap c n)"
  note N = lfu_inv_node [OF inv n]
  have li: "lists_inv c L" using inv by (simp add: lfu_inv_def)
  obtain xs ys where L: "L ?f = xs @ n # ys" using N(1) by (metis split_list)
  have nin: "n \<notin> set (xs @ ys)" using lists_inv_distinct [OF li, of ?f] L by simp
  let ?L1 = "L(?f := xs @ ys)"
  from list_remove_ok [OF li L] obtain c1 where c1: "list_remove ?f n c = Inr c1" "lists_inv c1 ?L1"
    "same_index c c1" "unlinked n c1 ?L1" "n < free c1"
    "\<exists>d. freqLists c1 ?f = Some d \<and> d_size d = length (xs @ ys)" by metis
  let ?s = "SetDefault (?f + 1) c1"
  note S = SetDefault_ok [OF c1(2), where f = "?f + 1"]
  have "n < free ?s" using S(2) c1(5) by (simp add: same_index_def)
  with list_push_ok [OF S(1) S(3) S(4) [OF c1(4,5)]] obtain c2 where
    c2: "list_push (?f + 1) n ?s = Inr c2" "lists_inv c2 (?L1(?f + 1 := ?L1 (?f + 1) @ [n]))"
    "same_index ?s c2" "\<And>g. g \<noteq> ?f + 1 \<Longrightarrow> freqLists c2 g = freqLists ?s g" by metis
  let ?L = "L(?f := xs @ ys, ?f + 1 := L (?f + 1) @ [n])"
  have li2: "lists_inv c2 ?L" using c2(2) by simp
  have idx: "capacity c2 = capacity c" "size c2 = size c" "minFreq c2 = minFreq c" "nodeMap c2 = nodeMap c"
    and pay: "\<And>r. r < free c \<Longrightarrow> payload (heap c2 r) = payload (heap c r)"
    using c1(3) S(2) c2(3) by (auto simp: same_index_def)
  define l where "l = length (xs @ ys)"
  have len: "list_len ?f c2 = Inr (int l)"
    using l_def c1(6) S(5) [of ?f] c2(4) [of ?f] by (auto simp: list_len_def DLL_Len_def)
  define m where "m = (if ?f = minFreq c \<and> l = 0 then minFreq c + 1 else minFreq c)"
  define h where "h = (heap c2)(n := (heap c2 n)\<lparr>n_freq := n_freq (heap c2 n) + 1\<rparr>)"
  let ?c = "c2\<lparr>minFreq := m, heap := h\<rparr>"
  have val: "n_val (h r) = n_val (heap c r)" "n_key (h r) = n_key (heap c r)"
    "n_freq (h r) = (if r = n then ?f + 1 else n_freq (heap c r))" if "r < free c" for r
    using pay [OF that] by (auto simp: h_def payload_def)
  have get: "LFU_Get key c = Inr ((n_val (heap c n), True), ?c)"
    using n N(3,4) c1(1) c2(1) len idx(3) val(1) [of n]
    by (simp add: LFU_Get_def Contains_def Let_def m_def h_def)
  have lt: "r < free c" if "r \<in> set (L g)" for g r using lists_inv_Some [OF li that] .
  have "index_ok (nodeMap c) h ?L"
    using inv val lt by (intro index_move [where h = "heap c" and L = L and f = ?f, OF _ L nin]) (auto simp: lfu_inv_def)
  moreover have "lists_ok (freqLists c2) h (free c2) ?L"
    by (rule lists_ok_links [OF li2]) (auto simp: h_def)
  moreover have "total_len (nodeMap c) h = total_len (nodeMap c) (heap c)"
    using val lfu_inv_node(3) [OF inv] by (intro total_len_cong) blast
  moreover have "1 \<le> m \<and> m \<le> n_freq (h r)" if "nodeMap c k = Some r" for k r
  proof -
    note R = lfu_inv_node [OF inv that]
    have "r = n \<or> minFreq c + 1 \<le> n_freq (heap c r)" if "?f = minFreq c" "l = 0"
      using R(1,5) L that by (cases "n_freq (heap c r) = ?f") (auto simp: l_def)
    moreover have "1 \<le> minFreq c" using inv that by (auto simp: lfu_inv_def)
    ultimately show ?thesis using val(3) [OF R(3)] R(5) N(5) by (auto simp: m_def)
  qed
  ultimately have "lfu_inv ?c ?L" using inv idx by (simp add: lfu_inv_def)
  moreover have "n_val (heap ?c r) = n_val (heap c r)" if "nodeMap c k = Some r" for k r
    using val(1) [OF lfu_inv_node(3) [OF inv that]] by simp
  ultimately show ?thesis using that [OF get] idx by simp
qed


section \<open>Eviction\<close>

lemma index_member:
  assumes "index_ok nm h L" and "n \<in> set (L f)"
  shows "n_freq (h n) = f" and "nm (n_key (h n)) = Some n"
  using assms unfolding index_ok_def by blast+

lemma index_drop:
  assumes "index_ok nm h L" and L: "L f = n # ys" "n \<notin> set ys"
    and h': "\<And>r. payload (h' r) = payload (h r)"
  shows "index_ok (nm(n_key (h n) := None)) h' (L(f := ys))"
proof -
  have "n \<in> set (L f)" using L by simp
  note n = index_member [OF assms(1) this]
  have h'': "n_key (h' r) = n_key (h r)" "n_freq (h' r) = n_freq (h r)" for r
    using h' [of r] by (auto simp: payload_def)
  have mem: "r \<in> set ((L(f := ys)) g) \<longleftrightarrow> r \<noteq> n \<and> r \<in> set (L g)" for r g
    using L n index_member(1) [OF assms(1), of n g] by (cases "g = f") auto
  have key: "n_key (h r) \<noteq> n_key (h n)" if "r \<in> set (L g)" "r \<noteq> n" for r g
    using index_member(2) [OF assms(1) that(1)] n(2) that(2) by auto
  show ?thesis unfolding index_ok_def
  proof (intro conjI allI ballI impI)
    fix g r
    assume "r \<in> set ((L(f := ys)) g)"
    then have "r \<noteq> n" "r \<in> set (L g)" unfolding mem by simp_all
    with key [OF this(2,1)] assms(1)
    show "n_freq (h' r) = g" "(nm(n_key (h n) := None)) (n_key (h' r)) = Some r"
      by (auto simp: index_ok_def h'')
  next
    fix k r
    assume "(nm(n_key (h n) := None)) k = Some r"
    then have "k \<noteq> n_key (h n)" "nm k = Some r" by (auto split: if_splits)
    then have "r \<in> set (L (n_freq (h' r)))" "n_key (h' r) = k" "r \<noteq> n"
      using assms(1) by (auto simp: index_ok_def h'')
    then show "n_key (h' r) = k" "r \<in> set ((L(f := ys)) (n_freq (h' r)))" unfolding mem by simp_all
  qed
qed

definition list_total :: "heap \<Rightarrow> ref list \<Rightarrow> int" where
  "list_total h xs = (\<Sum>r \<leftarrow> xs. int (length (n_val (h r))))"

lemma list_total_append: "list_total h (xs @ [r]) = list_total h xs + int (length (n_val (h r)))"
  by (simp add: list_total_def)

lemma list_total_nonneg: "0 \<le> list_total h xs"
  by (induction xs) (auto simp: list_total_def)

lemma total_len_delete:
  assumes "finite (dom nm)" and "nm k = Some r"
  shows "total_len (nm(k := None)) h = total_len nm h - int (length (n_val (h r)))"
proof -
  have "(\<Sum>j \<in> dom nm - {k}. int (length (n_val (h (the (nm j))))))
      = total_len nm h - int (length (n_val (h r)))"
    using assms by (simp add: total_len_def sum_diff1 domI)
  moreover have "total_len (nm(k := None)) h = (\<Sum>j \<in> dom nm - {k}. int (length (n_val (h (the (nm j))))))"
    unfolding total_len_def by (rule sum.cong) auto
  ultimately show ?thesis by simp
qed

text \<open>One iteration of the eviction loop removes the oldest node of the lowest frequency.\<close>

lemma evict_one:
  assumes inv: "lfu_inv c L" and L: "L (minFreq c) = n # ys" and big: "size c > capacity c"
  obtains c' where "RecycleLRU c = RecycleLRU c'" and "lfu_inv c' (L(minFreq c := ys))"
    and "capacity c' = capacity c" and "minFreq c' = minFreq c"
    and "size c' = size c - int (length (n_val (heap c n)))"
    and "nodeMap c' = (nodeMap c)(n_key (heap c n) := None)"
    and "\<And>r. n_val (heap c' r) = n_val (heap c r) \<and> n_freq (heap c' r) = n_freq (heap c r)"
proof -
  let ?m = "minFreq c"
  have li: "lists_inv c L" using inv by (simp add: lfu_inv_def)
  obtain d where d: "freqLists c ?m = Some d" "dll_rep (heap c) d (n # ys)"
    using lists_inv_Some [OF li, of n ?m] L by auto
  from DLL_Pop_rep [OF d(2)] obtain d' h' where P:
    "DLL_Pop d (heap c) = Inr (Some n, d', h')" "dll_rep h' d' ys" "cells d' ys = cells d (n # ys) - {n}"
    "\<And>r. r \<notin> cells d (n # ys) \<Longrightarrow> h' r = heap c r" "\<And>r. payload (h' r) = payload (heap c r)"
    by blast
  have pay: "n_key (h' r) = n_key (heap c r)" "n_val (h' r) = n_val (heap c r)"
    "n_freq (h' r) = n_freq (heap c r)" for r using P(5) [of r] by (auto simp: payload_def)
  let ?c = "c\<lparr>freqLists := (freqLists c)(?m \<mapsto> d'), heap := h',
    nodeMap := (nodeMap c)(n_key (heap c n) := None), size := size c - int (length (n_val (heap c n)))\<rparr>"
  have step: "RecycleLRU c = RecycleLRU ?c"
    using big d(1) P(1) by (subst RecycleLRU.simps) (simp add: pay)
  have "n \<in> set (L ?m)" "index_ok (nodeMap c) (heap c) L" using L inv by (auto simp: lfu_inv_def)
  note nk = index_member(2) [OF this(2,1)]
  have "lists_ok ((freqLists c)(?m \<mapsto> d')) h' (free c) (L(?m := ys))"
  proof (rule lists_ok_replace [OF li P(2)])
    have "cells d (L ?m) \<subseteq> {..<free c}" using li d(1) by (auto simp: lists_ok_def)
    then show "cells d' ys \<subseteq> {..<free c}" unfolding P(3) L by blast
    fix g e r
    assume "g \<noteq> ?m" "freqLists c g = Some e" "r \<in> cells e (L g)"
    then have "r \<notin> cells d (n # ys)" using lists_inv_other [OF li d(1)] L by metis
    then show "h' r = heap c r \<and> r \<notin> cells d' ys" using P(3,4) by auto
  qed simp
  moreover have "index_ok ((nodeMap c)(n_key (heap c n) := None)) h' (L(?m := ys))"
    using inv L lists_inv_distinct [OF li, of ?m] P(5)
    by (intro index_drop [where h = "heap c"]) (auto simp: lfu_inv_def)
  moreover have "total_len ((nodeMap c)(n_key (heap c n) := None)) h'
      = size c - int (length (n_val (heap c n)))"
    using inv nk total_len_delete [of "nodeMap c" "n_key (heap c n)" n h']
      total_len_cong [of "nodeMap c" h' "heap c"] by (simp add: lfu_inv_def pay)
  ultimately have "lfu_inv ?c (L(?m := ys))"
    using inv by (auto simp: lfu_inv_def pay split: if_splits)
  with that [OF step] show ?thesis by (simp add: pay)
qed

lemma RecycleLRU_ok:
  assumes "lfu_inv c L" and "size c - list_total (heap c) (L (minFreq c)) \<le> capacity c"
  shows "\<exists>c' L'. RecycleLRU c = Inr c' \<and> lfu_inv c' L' \<and> size c' \<le> capacity c' \<and> capacity c' = capacity c
    \<and> nodeMap c' \<subseteq>\<^sub>m nodeMap c \<and> (\<forall>r. n_val (heap c' r) = n_val (heap c r))
    \<and> (\<forall>k r. nodeMap c k = Some r \<longrightarrow> nodeMap c' k = None \<longrightarrow> n_freq (heap c r) = minFreq c)"
  using assms
proof (induction "L (minFreq c)" arbitrary: c L)
  case Nil
  then have "\<not> size c > capacity c" by (simp add: list_total_def)
  with Nil show ?case by (subst RecycleLRU.simps) auto
next
  case (Cons n ys)
  show ?case
  proof (cases "size c > capacity c")
    case False
    with Cons.prems show ?thesis by (subst RecycleLRU.simps) auto
  next
    case True
    from evict_one [OF Cons.prems(1) Cons.hyps(2) [symmetric] True] obtain c1 where c1:
      "RecycleLRU c = RecycleLRU c1" "lfu_inv c1 (L(minFreq c := ys))" "capacity c1 = capacity c"
      "minFreq c1 = minFreq c" "size c1 = size c - int (length (n_val (heap c n)))"
      "nodeMap c1 = (nodeMap c)(n_key (heap c n) := None)"
      "\<And>r. n_val (heap c1 r) = n_val (heap c r) \<and> n_freq (heap c1 r) = n_freq (heap c r)"
      by blast
    have "n \<in> set (L (minFreq c))" "index_ok (nodeMap c) (heap c) L"
      using Cons.hyps(2) [symmetric] Cons.prems(1) by (auto simp: lfu_inv_def)
    note n = index_member [OF this(2,1)]
    have "size c1 - list_total (heap c1) ((L(minFreq c := ys)) (minFreq c1)) \<le> capacity c1"
      using Cons.prems(2) Cons.hyps(2) [symmetric] c1 by (simp add: list_total_def)
    from Cons.hyps(1) [OF _ c1(2) this] c1(4) obtain c' L' where c':
      "RecycleLRU c1 = Inr c'" "lfu_inv c' L'" "size c' \<le> capacity c'" "capacity c' = capacity c1"
      "nodeMap c' \<subseteq>\<^sub>m nodeMap c1" "\<forall>r. n_val (heap c' r) = n_val (heap c1 r)"
      "\<forall>k r. nodeMap c1 k = Some r \<longrightarrow> nodeMap c' k = None \<longrightarrow> n_freq (heap c1 r) = minFreq c1"
      by auto
    have "nodeMap c1 \<subseteq>\<^sub>m nodeMap c" using c1(6) by (auto simp: map_le_def)
    with c'(5) have le: "nodeMap c' \<subseteq>\<^sub>m nodeMap c" by (rule map_le_trans)
    have "n_freq (heap c r) = minFreq c" if r: "nodeMap c k = Some r" "nodeMap c' k = None" for k r
    proof (cases "k = n_key (heap c n)")
      case True
      then show ?thesis using n Cons.prems(1) r(1) by (auto simp: lfu_inv_def)
    next
      case False
      then have "nodeMap c1 k = Some r" using c1(6) r(1) by simp
      with c'(7) r(2) c1(4,7) show ?thesis by metis
    qed
    with le c' c1 show ?thesis by auto
  qed
qed


section \<open>Put\<close>

lemma LFU_Put_fresh:
  assumes inv: "lfu_inv c L" and fits: "size c \<le> capacity c" and new: "nodeMap c key = None"
    and cap: "capacity c \<noteq> 0"
  obtains c' L' where "LFU_Put key value c = Inr c'" and "lfu_inv c' L'" and "size c' \<le> capacity c'"
    and "capacity c' = capacity c"
    and "cache_lookup c' \<subseteq>\<^sub>m (cache_lookup c)(key \<mapsto> value)"
proof -
  let ?n = "free c" and ?nm = "(nodeMap c)(key \<mapsto> free c)"
  define c1 where "c1 = c\<lparr>heap := (heap c)(?n := \<lparr>n_key = key, n_val = value, n_freq = 1, n_prev = None, n_next = None\<rparr>),
      free := ?n + 1, size := size c + int (length value), nodeMap := ?nm\<rparr>"
  have li: "lists_inv c L" using inv by (simp add: lfu_inv_def)
  have old: "r < free c" if "nodeMap c k = Some r" for k r by (rule lfu_inv_node(3) [OF inv that])
  have li1: "lists_inv c1 L"
  proof -
    have "dll_rep (heap c1) d (L f)" if "freqLists c f = Some d" for f d
    proof (rule dll_rep_frame)
      show "dll_rep (heap c) d (L f)" using li that by (auto simp: lists_ok_def)
      show "\<forall>r \<in> cells d (L f). heap c1 r = heap c r" using li that by (auto simp: lists_ok_def c1_def)
    qed
    moreover have "cells d (L f) \<subseteq> {..<free c1}" if "freqLists c f = Some d" for f d
    proof -
      have "cells d (L f) \<subseteq> {..<free c}" using li that by (simp add: lists_ok_def)
      then show ?thesis by (force simp: c1_def)
    qed
    ultimately show ?thesis using li by (simp add: lists_ok_def c1_def)
  qed
  have un: "unlinked ?n c1 L" using li by (auto simp: unlinked_def lists_ok_def c1_def)
  let ?s = "SetDefault 1 c1"
  have lt: "?n < free c1" by (simp add: c1_def)
  note S = SetDefault_ok [OF li1, where f = 1]
  have "?n < free ?s" using S(2) lt by (simp add: same_index_def)
  with list_push_ok [OF S(1) S(3) S(4) [OF un lt]] obtain c2 where
    c2: "list_push 1 ?n ?s = Inr c2" "lists_inv c2 (L(1 := L 1 @ [?n]))" "same_index ?s c2" by metis
  let ?L = "L(1 := L 1 @ [?n])" and ?c = "c2\<lparr>minFreq := 1\<rparr>"
  have idx: "capacity c2 = capacity c" "size c2 = size c + int (length value)" "nodeMap c2 = ?nm"
    and pay: "\<And>r. r < free c1 \<Longrightarrow> payload (heap c2 r) = payload (heap c1 r)"
    using S(2) c2(3) by (auto simp: same_index_def c1_def)
  have val: "n_val (heap c2 r) = n_val (heap c r)" "n_key (heap c2 r) = n_key (heap c r)"
    "n_freq (heap c2 r) = n_freq (heap c r)" if "r < free c" for r
    using pay [of r] that by (auto simp: payload_def c1_def)
  have valn: "n_val (heap c2 ?n) = value" "n_key (heap c2 ?n) = key" "n_freq (heap c2 ?n) = 1"
    using pay [of ?n] by (auto simp: payload_def c1_def)
  have below: "r < free c" if "r \<in> set (L g)" for g r using lists_inv_Some [OF li that] .
  have ix0: "index_ok (nodeMap c) (heap c) L" using inv by (simp add: lfu_inv_def)
  have ix: "index_ok ?nm (heap c2) ?L"
    unfolding index_ok_def
  proof (intro conjI allI ballI impI)
    fix f r
    assume "r \<in> set (?L f)"
    then have "r = ?n \<and> f = 1 \<or> r \<in> set (L f)" by (auto split: if_splits)
    then show "n_freq (heap c2 r) = f" "?nm (n_key (heap c2 r)) = Some r"
      using valn val below index_member [OF ix0, of r f] new by auto
  next
    fix k r
    assume "?nm k = Some r"
    then have "r = ?n \<and> k = key \<or> nodeMap c k = Some r" by (auto split: if_splits)
    then show "r \<in> set (?L (n_freq (heap c2 r)))" "n_key (heap c2 r) = k"
      using valn val old lfu_inv_node [OF inv, of k r] by auto
  qed
  have "total_len (nodeMap c) (heap c2) = total_len (nodeMap c) (heap c)"
    by (rule total_len_cong) (use val old in blast)
  then have tot: "total_len ?nm (heap c2) = size c + int (length value)"
    using total_len_delete [of ?nm key ?n "heap c2"] inv new valn by (simp add: lfu_inv_def fun_upd_idem)
  have "1 \<le> n_freq (heap c2 r)" if "?nm k = Some r" for k r
    using that valn val old [of k r] inv by (force simp: lfu_inv_def split: if_splits)
  then have inv2: "lfu_inv ?c ?L"
    using c2(2) ix tot idx inv by (auto simp: lfu_inv_def)
  have "size ?c - list_total (heap ?c) (?L (minFreq ?c)) \<le> capacity ?c"
    using fits idx valn list_total_nonneg [of "heap c2" "L 1"] by (simp add: list_total_append)
  from RecycleLRU_ok [OF inv2 this] obtain c' L' where c': "RecycleLRU ?c = Inr c'" "lfu_inv c' L'"
    "size c' \<le> capacity c'" "capacity c' = capacity ?c" "nodeMap c' \<subseteq>\<^sub>m nodeMap ?c"
    "\<forall>r. n_val (heap c' r) = n_val (heap ?c r)" by blast
  have "LFU_Put key value c = Inr c'"
    using cap new c2(1) c'(1) by (simp add: LFU_Put_def Contains_def c1_def Let_def)
  moreover have "cache_lookup c' \<subseteq>\<^sub>m (cache_lookup c)(key \<mapsto> value)"
    unfolding map_le_def
  proof
    fix k
    assume "k \<in> dom (cache_lookup c')"
    then obtain r where r: "nodeMap c' k = Some r" by (auto simp: cache_lookup_def)
    then have "?nm k = Some r" using c'(5) idx(3) by (auto simp: map_le_def dom_def)
    with r c'(6) val(1) [OF old, of k r] valn(1)
    show "cache_lookup c' k = ((cache_lookup c)(key \<mapsto> value)) k"
      by (auto simp: cache_lookup_def split: if_splits)
  qed
  ultimately show ?thesis using that c' idx by simp
qed

text \<open>Overwriting a key keeps every entry when the new value fits beside the others.\<close>

lemma LFU_Put_overwrite:
  assumes inv: "lfu_inv c L" and n: "nodeMap c key = Some n" and cap: "capacity c \<noteq> 0"
    and fits: "size c - int (length (n_val (heap c n))) + int (length value) \<le> capacity c"
  obtains c' L' where "LFU_Put key value c = Inr c'" and "lfu_inv c' L'" and "size c' \<le> capacity c'"
    and "capacity c' = capacity c" and "cache_lookup c' = (cache_lookup c)(key \<mapsto> value)"
proof -
  from LFU_Get_hit [OF inv n] obtain c1 L1 where G: "LFU_Get key c = Inr ((n_val (heap c n), True), c1)"
    "lfu_inv c1 L1" "capacity c1 = capacity c" "size c1 = size c" "nodeMap c1 = nodeMap c"
    "\<And>k r. nodeMap c k = Some r \<Longrightarrow> n_val (heap c1 r) = n_val (heap c r)" by blast
  let ?h = "(heap c1)(n := (heap c1 n)\<lparr>n_val := value\<rparr>)"
  let ?c = "c1\<lparr>size := size c1 - int (length (n_val (heap c1 n))) + int (length value), heap := ?h\<rparr>"
  have other: "r \<noteq> n" if "nodeMap c k = Some r" "k \<noteq> key" for k r
    using lfu_inv_node(2) [OF inv n] lfu_inv_node(2) [OF inv that(1)] that(2) by auto
  have fin: "finite (dom (nodeMap c))" using inv by (simp add: lfu_inv_def)
  have "total_len ((nodeMap c)(key := None)) ?h = total_len ((nodeMap c)(key := None)) (heap c1)"
    by (rule total_len_cong) (auto split: if_splits dest: other)
  then have "total_len (nodeMap c) ?h = size ?c"
    using total_len_delete [OF fin n, of ?h] total_len_delete [OF fin n, of "heap c1"] G(2,5)
    by (simp add: lfu_inv_def)
  moreover have "lists_ok (freqLists c1) ?h (free c1) L1"
    by (rule lists_ok_links [of _ "heap c1"]) (use G(2) in \<open>auto simp: lfu_inv_def\<close>)
  moreover have "index_ok (nodeMap c1) ?h L1"
    using G(2) by (simp add: lfu_inv_def index_ok_def)
  ultimately have "lfu_inv ?c L1"
    using G(2,5) by (simp add: lfu_inv_def)
  moreover have "RecycleLRU ?c = Inr ?c"
    using fits G(3,4) G(6) [OF n] by (subst RecycleLRU.simps) simp
  moreover have "cache_lookup ?c = (cache_lookup c)(key \<mapsto> value)"
  proof
    fix k
    show "cache_lookup ?c k = ((cache_lookup c)(key \<mapsto> value)) k"
      using G(5) G(6) [of k] n other [of k] by (cases "k = key"; cases "nodeMap c k") (auto simp: cache_lookup_def)
  qed
  ultimately show ?thesis
    using that [of ?c L1] G n cap fits by (simp add: LFU_Put_def Contains_def Let_def G(6) [OF n])
qed

section \<open>The contract of the cache\<close>

text \<open>What a client of the cache relies on: a look-up returns what was stored and changes nothing
  it can see, and storing a value never yields anything but stored values; entries may be dropped
  at any time.\<close>

locale file_cache =
  fixes get :: "string \<Rightarrow> 'c \<Rightarrow> ((bytes \<times> bool) \<times> 'c) run"
    and put :: "string \<Rightarrow> bytes \<Rightarrow> 'c \<Rightarrow> 'c run"
    and ok :: "'c \<Rightarrow> bool"
    and lookup :: "'c \<Rightarrow> string \<rightharpoonup> bytes"
  assumes get_hit: "\<lbrakk>ok c; lookup c k = Some v\<rbrakk> \<Longrightarrow>
      \<exists>c'. get k c = Inr ((v, True), c') \<and> ok c' \<and> lookup c' = lookup c"
    and get_miss: "\<lbrakk>ok c; lookup c k = None\<rbrakk> \<Longrightarrow>
      \<exists>v c'. get k c = Inr ((v, False), c') \<and> ok c' \<and> lookup c' = lookup c"
    and put_ok: "\<lbrakk>ok c; case lookup c k of None \<Rightarrow> True | Some w \<Rightarrow> length v \<le> length w\<rbrakk> \<Longrightarrow>
      \<exists>c'. put k v c = Inr c' \<and> ok c' \<and> lookup c' \<subseteq>\<^sub>m (lookup c)(k \<mapsto> v)"
begin

text \<open>Coherence with a store: whatever the cache holds is what the store holds.\<close>

lemma get_coherent:
  assumes "ok c" and "lookup c \<subseteq>\<^sub>m store"
  shows "\<exists>v b c'. get k c = Inr ((v, b), c') \<and> (b \<longrightarrow> store k = Some v) \<and> ok c' \<and> lookup c' \<subseteq>\<^sub>m store"
proof (cases "lookup c k")
  case None
  with get_miss [OF assms(1)] assms(2) show ?thesis by metis
next
  case (Some v)
  with assms(2) have "store k = Some v" by (metis domI map_le_def)
  with get_hit [OF assms(1) Some] assms(2) show ?thesis by metis
qed

lemma put_coherent:
  assumes "ok c" and "lookup c \<subseteq>\<^sub>m store" and "store k = None \<or> store k = Some v"
  shows "\<exists>c'. put k v c = Inr c' \<and> ok c' \<and> lookup c' \<subseteq>\<^sub>m store(k \<mapsto> v)"
proof -
  have le: "(lookup c)(k \<mapsto> v) \<subseteq>\<^sub>m store(k \<mapsto> v)"
    using assms(2) by (auto simp: map_le_def)
  have "lookup c k = None \<or> lookup c k = Some v"
    using assms(2,3) by (metis domI map_le_def not_None_eq)
  then have "case lookup c k of None \<Rightarrow> True | Some w \<Rightarrow> length v \<le> length w" by auto
  from put_ok [OF assms(1) this] le show ?thesis by (blast intro: map_le_trans)
qed

end

lemma cache_ok_get:
  assumes "cache_ok c"
  shows "\<exists>c'. LFU_Get key c = Inr ((case cache_lookup c key of None \<Rightarrow> (DEFAULT_VALUE, False) | Some v \<Rightarrow> (v, True)), c')
    \<and> cache_ok c' \<and> cache_lookup c' = cache_lookup c"
proof -
  obtain L where inv: "lfu_inv c L" using assms by (auto simp: cache_ok_def)
  show ?thesis
  proof (cases "nodeMap c key")
    case None
    then show ?thesis using assms by (simp add: LFU_Get_def Contains_def cache_lookup_def)
  next
    case (Some n)
    from LFU_Get_hit [OF inv this] obtain c' L' where G: "LFU_Get key c = Inr ((n_val (heap c n), True), c')"
      "lfu_inv c' L'" "capacity c' = capacity c" "size c' = size c" "nodeMap c' = nodeMap c"
      "\<And>k r. nodeMap c k = Some r \<Longrightarrow> n_val (heap c' r) = n_val (heap c r)" by blast
    have "cache_lookup c' = cache_lookup c"
      using G(5,6) by (auto simp: cache_lookup_def intro!: ext option.map_cong0)
    with G Some assms show ?thesis by (auto simp: cache_ok_def cache_lookup_def)
  qed
qed

lemma cache_ok_put:
  assumes ok: "cache_ok c" and fits: "case cache_lookup c key of None \<Rightarrow> True | Some w \<Rightarrow> length value \<le> length w"
  shows "\<exists>c'. LFU_Put key value c = Inr c' \<and> cache_ok c' \<and> capacity c' = capacity c
    \<and> cache_lookup c' \<subseteq>\<^sub>m (cache_lookup c)(key \<mapsto> value)"
proof -
  obtain L where inv: "lfu_inv c L" and sz: "size c \<le> capacity c" "0 < capacity c"
    using ok by (auto simp: cache_ok_def)
  show ?thesis
  proof (cases "nodeMap c key")
    case None
    with LFU_Put_fresh [OF inv sz(1)] sz(2) show ?thesis unfolding cache_ok_def by (metis less_irrefl)
  next
    case (Some n)
    with fits sz have "size c - int (length (n_val (heap c n))) + int (length value) \<le> capacity c" "capacity c \<noteq> 0"
      by (auto simp: cache_lookup_def)
    from LFU_Put_overwrite [OF inv Some this(2,1)] sz(2) show ?thesis
      unfolding cache_ok_def by (metis map_le_refl)
  qed
qed

interpretation lfu_cache: file_cache LFU_Get LFU_Put cache_ok cache_lookup
proof unfold_locales
  show "\<exists>c'. LFU_Get k c = Inr ((v, True), c') \<and> cache_ok c' \<and> cache_lookup c' = cache_lookup c"
    if "cache_ok c" "cache_lookup c k = Some v" for c k v using cache_ok_get [OF that(1), of k] that(2) by simp
  show "\<exists>v c'. LFU_Get k c = Inr ((v, False), c') \<and> cache_ok c' \<and> cache_lookup c' = cache_lookup c"
    if "cache_ok c" "cache_lookup c k = None" for c k using cache_ok_get [OF that(1), of k] that(2) by auto
  show "\<exists>c'. LFU_Put k v c = Inr c' \<and> cache_ok c' \<and> cache_lookup c' \<subseteq>\<^sub>m (cache_lookup c)(k \<mapsto> v)"
    if "cache_ok c" "case cache_lookup c k of None \<Rightarrow> True | Some w \<Rightarrow> length v \<le> length w" for c k v
    using cache_ok_put [OF that] by blast
qed

text \<open>A cache over its capacity with a single entry, and one with three keys of different use counts.\<close>

definition one_key :: lfu where
  "one_key =
     \<lparr>capacity = 1, size = 2, minFreq = 1, nodeMap = [''k'' \<mapsto> 2],
      freqLists = [1 \<mapsto> \<lparr>d_size = 1, d_head = 0, d_tail = 1\<rparr>],
      heap = (\<lambda>r. if r = 0 then \<lparr>n_key = DEFAULT_KEY, n_val = DEFAULT_VALUE, n_freq = 1, n_prev = None, n_next = Some 2\<rparr>
        else if r = 1 then \<lparr>n_key = DEFAULT_KEY, n_val = DEFAULT_VALUE, n_freq = 1, n_prev = Some 2, n_next = None\<rparr>
        else \<lparr>n_key = ''k'', n_val = ''vw'', n_freq = 1, n_prev = Some 0, n_next = Some 1\<rparr>),
      free = 3\<rparr>"

definition three_keys :: "lfu run" where
  "three_keys =
     (case LFU_Put ''a'' ''1'' (NewLFUCache 4) of
        Inl e \<Rightarrow> Inl e
      | Inr c1 \<Rightarrow>
     (case LFU_Put ''b'' ''2'' c1 of
        Inl e \<Rightarrow> Inl e
      | Inr c2 \<Rightarrow>
     (case LFU_Put ''c'' ''3'' c2 of
        Inl e \<Rightarrow> Inl e
      | Inr c3 \<Rightarrow>
     (case LFU_Get ''b'' c3 of
        Inl e \<Rightarrow> Inl e
      | Inr (_, c4) \<Rightarrow>
     (case LFU_Get ''c'' c4 of
        Inl e \<Rightarrow> Inl e
      | Inr (_, c5) \<Rightarrow> map_sum id snd (LFU_Get ''c'' c5))))))"

text \<open>C29. Looking a key up in a well-formed LFU cache never panics: it returns the stored value with
  \<open>true\<close> when the key is cached and the default value with \<open>false\<close> otherwise, and the
  cache stays well formed with the same content (only use counts change).\<close>

theorem lfu_get_correct:
  assumes "cache_ok c"
  shows "\<exists>c'. LFU_Get key c = Inr ((case cache_lookup c key of None \<Rightarrow> (DEFAULT_VALUE, False) | Some v \<Rightarrow> (v, True)), c')
    \<and> cache_ok c' \<and> cache_lookup c' = cache_lookup c"
  by (rule cache_ok_get [OF assms])

theorem lfu_get_correct_witness:
  "\<exists>c'. LFU_Get ''x'' (NewLFUCache (100 * MegaByte)) = Inr ((DEFAULT_VALUE, False), c')"
  using lfu_get_correct [OF NewLFUCache_ok, of "100 * MegaByte" "''x''"]
  by (auto simp: NewLFUCache_def cache_lookup_def MegaByte_def KiloByte_def)

text \<open>C28. Storing a value under a new key (or one no longer than the value it replaces) never
  panics, keeps the cache well formed and the total number of cached bytes within the capacity,
  and afterwards the cache holds nothing but the new entry and entries it held before.\<close>

theorem lfu_put_correct:
  assumes "cache_ok c" and "case cache_lookup c key of None \<Rightarrow> True | Some w \<Rightarrow> length value \<le> length w"
  shows "\<exists>c'. LFU_Put key value c = Inr c' \<and> cache_ok c' \<and> size c' \<le> capacity c \<and> capacity c' = capacity c
    \<and> cache_lookup c' \<subseteq>\<^sub>m (cache_lookup c)(key \<mapsto> value)"
  using cache_ok_put [OF assms] by (auto simp: cache_ok_def)

theorem lfu_put_correct_witness:
  "\<exists>c'. LFU_Put ''x'' ''12'' (NewLFUCache 1) = Inr c' \<and> cache_ok c' \<and> size c' \<le> 1"
  using lfu_put_correct [of "NewLFUCache 1" "''12''" "''x''"] NewLFUCache_ok [of 1]
  by (auto simp: NewLFUCache_def cache_lookup_def)

text \<open>C30. Eviction is least-frequently-used: from a well-formed cache, and when dropping the list of
  the lowest frequency frees enough space, recycling returns a cache that fits the capacity, keeps
  a subset of the entries, and no evicted entry was used more often than any entry of the cache.\<close>

theorem lfu_evicts_least_frequent:
  assumes "lfu_inv c L" and "size c - list_total (heap c) (L (minFreq c)) \<le> capacity c"
  shows "\<exists>c'. RecycleLRU c = Inr c' \<and> size c' \<le> capacity c \<and> nodeMap c' \<subseteq>\<^sub>m nodeMap c
    \<and> (\<forall>k r j s. nodeMap c k = Some r \<longrightarrow> nodeMap c' k = None \<longrightarrow> nodeMap c j = Some s
         \<longrightarrow> n_freq (heap c r) \<le> n_freq (heap c s))"
proof -
  from RecycleLRU_ok [OF assms] obtain c' where c': "RecycleLRU c = Inr c'" "size c' \<le> capacity c"
    "nodeMap c' \<subseteq>\<^sub>m nodeMap c"
    "\<forall>k r. nodeMap c k = Some r \<longrightarrow> nodeMap c' k = None \<longrightarrow> n_freq (heap c r) = minFreq c" by metis
  moreover have "minFreq c \<le> n_freq (heap c s)" if "nodeMap c j = Some s" for j s
    by (rule lfu_inv_node(5) [OF assms(1) that])
  ultimately show ?thesis by auto
qed

theorem lfu_evicts_least_frequent_witness:
  "\<exists>c'. RecycleLRU one_key = Inr c' \<and> size c' \<le> 1 \<and> size one_key = 2"
proof -
  have "lfu_inv one_key (\<lambda>f. if f = 1 then [2] else [])"
    by (auto simp: lfu_inv_def one_key_def lists_ok_def index_ok_def total_len_def dll_rep_def cells_def)
  from lfu_evicts_least_frequent [OF this] show ?thesis by (auto simp: one_key_def list_total_def)
qed


end
