(* ===== verification/Queue.thy ===== *)
theory Queue
  imports Prelude
begin

text \<open>
  \<open>utils/queue.go\<close>: the generic FIFO queue behind the SDFS signal queue and delete pool, the
  coordinator's task queue and the scheduler's pending jobs. A \<open>Queue[T]\<close> is a slice, so a
  list. The locale \<open>fifo\<close> is the contract its clients rely on; the queue is its
  interpretation.
\<close>

section \<open>Operations\<close>

type_synonym 'a queue = "'a list"

definition NewQueue :: "'a queue" where
  "NewQueue = []"

definition Queue_Len :: "'a queue \<Rightarrow> int" where
  "Queue_Len q = int (length q)"

definition Queue_Empty :: "'a queue \<Rightarrow> bool" where
  "Queue_Empty q \<longleftrightarrow> Queue_Len q = 0"

definition Queue_Top :: "'a queue \<Rightarrow> 'a run" where
  "Queue_Top q = (if Queue_Empty q then Inl (ExplicitPanic ''empty queue'') else go_index q 0)"

definition Queue_Pop :: "'a queue \<Rightarrow> 'a queue" where
  "Queue_Pop q = (if Queue_Empty q then q else drop 1 q)"

definition Queue_Push :: "'a \<Rightarrow> 'a queue \<Rightarrow> 'a queue" where
  "Queue_Push item q = q @ [item]"

definition Queue_Clear :: "'a queue \<Rightarrow> 'a queue" where
  "Queue_Clear q = []"

definition Queue_ToSlice :: "'a queue \<Rightarrow> 'a list" where
  "Queue_ToSlice q = q"

lemmas queue_defs = NewQueue_def Queue_Len_def Queue_Empty_def Queue_Top_def Queue_Pop_def
  Queue_Push_def Queue_Clear_def Queue_ToSlice_def

lemma Queue_Empty_iff [simp]: "Queue_Empty q \<longleftrightarrow> q = []"
  by (simp add: queue_defs)

lemma Queue_Top_Cons [simp]: "Queue_Top (x # q) = Inr x"
  by (simp add: queue_defs go_index_def)

lemma Queue_Top_Nil [simp]: "Queue_Top [] = Inl (ExplicitPanic ''empty queue'')"
  by (simp add: queue_defs)

lemma Queue_Pop_tl [simp]: "Queue_Pop q = tl q"
  by (cases q) (simp_all add: queue_defs)

section \<open>The contract\<close>

locale fifo =
  fixes new :: "'q" and push :: "'a \<Rightarrow> 'q \<Rightarrow> 'q" and pop :: "'q \<Rightarrow> 'q" and top :: "'q \<Rightarrow> 'a run"
    and is_empty :: "'q \<Rightarrow> bool" and content :: "'q \<Rightarrow> 'a list"
  assumes content_new: "content new = []"
    and content_push: "content (push x q) = content q @ [x]"
    and content_pop: "content (pop q) = tl (content q)"
    and content_empty: "is_empty q \<longleftrightarrow> content q = []"
    and top_front: "content q \<noteq> [] \<Longrightarrow> top q = Inr (hd (content q))"
    and top_panics: "content q = [] \<Longrightarrow> \<exists>msg. top q = Inl (ExplicitPanic msg)"
begin

text \<open>The guarded idiom of every client: \<open>if !q.Empty() { x := q.Top(); q.Pop() }\<close>.\<close>

lemma guarded_top: "\<not> is_empty q \<Longrightarrow> \<exists>x. top q = Inr x \<and> content q = x # content (pop q)"
  by (cases "content q") (auto simp: content_empty content_pop top_front)

lemma content_pushes: "content (fold push xs q) = content q @ xs"
  by (induction xs arbitrary: q) (auto simp: content_push)

lemma content_pops: "content ((pop ^^ n) q) = drop n (content q)"
  by (induction n) (auto simp: content_pop tl_drop drop_Suc)

text \<open>Items come out in the order they went in: after \<open>n\<close> pops the front is item \<open>n\<close>.\<close>

lemma fifo_order: "n < length xs \<Longrightarrow> top ((pop ^^ n) (fold push xs new)) = Inr (xs ! n)"
  by (subst top_front) (auto simp: content_pushes content_pops content_new hd_drop_conv_nth)

lemma drained: "is_empty ((pop ^^ n) (fold push xs new)) \<longleftrightarrow> length xs \<le> n"
  by (simp add: content_empty content_pops content_pushes content_new)

end

interpretation slice_queue: fifo NewQueue Queue_Push Queue_Pop Queue_Top Queue_Empty Queue_ToSlice
proof
  fix q :: "'a queue"
  show "Queue_ToSlice q \<noteq> [] \<Longrightarrow> Queue_Top q = Inr (hd (Queue_ToSlice q))"
    by (cases q) (simp_all add: Queue_ToSlice_def)
qed (auto simp: NewQueue_def Queue_Push_def Queue_ToSlice_def)

section \<open>Properties\<close>

text \<open>
  The queue is first-in first-out: of the items pushed onto a new queue, the one at the
  front after \<open>n\<close> pops is the \<open>n\<close>-th pushed, and reading it does not panic.
\<close>

theorem queue_fifo:
  assumes "n < length xs"
  shows "Queue_Top ((Queue_Pop ^^ n) (fold Queue_Push xs NewQueue)) = Inr (xs ! n)"
  using assms by (rule slice_queue.fifo_order)

theorem queue_fifo_witness:
  "Queue_Top ((Queue_Pop ^^ 1) (fold Queue_Push [10, 20, 30 :: int] NewQueue)) = Inr 20"
  using queue_fifo [of 1 "[10, 20, 30 :: int]"] by simp

end
