(* ===== verification/Sdfs_Server.thy ===== *)
theory Sdfs_Server
  imports Hash_Ring File_Table Lfu_Cache Queue
begin

text \<open>
  The SDFS server (\<open>sdfs/server.go\<close>, \<open>sdfs/service.go\<close>): file table, cache, local disk,
  delete pool, signals of membership changes and the sequence counter. The server's directory is
  a map from local names to contents; \<open>io\<close> arguments say whether the operating system
  reports no error of its own. A name with a slash cannot be created, because only the directory
  itself is. Handlers are functions on the state; where the code releases the lock in between, the
  phases are separate definitions.
\<close>

section \<open>State\<close>

record sdfs_server =
  FileTable :: file_table
  FileCache :: lfu
  srv_Ring :: ring_server
  HashRing :: hash_ring
  Signal :: "(mem_action \<times> process) queue"
  DeletePool :: "string queue"
  SeqCounter :: int
  disk :: "string \<rightharpoonup> bytes"

definition MAX_RETRY :: int where "MAX_RETRY = 5"
definition REPLICA_COUNT :: int where "REPLICA_COUNT = 4"

definition NewSDFSServer :: "ring_server \<Rightarrow> sdfs_server" where
  "NewSDFSServer r =
     \<lparr>FileTable = NewFileTable, FileCache = NewLFUCache (100 * MegaByte), srv_Ring = r, HashRing = NewHashRing,
      Signal = NewQueue, DeletePool = NewQueue, SeqCounter = 0, disk = Map.empty\<rparr>"

definition OnMemberUpdate :: "mem_action \<Rightarrow> process \<Rightarrow> sdfs_server \<Rightarrow> sdfs_server" where
  "OnMemberUpdate eventType process s = s\<lparr>Signal := Queue_Push (eventType, process) (Signal s)\<rparr>"

section \<open>Local files\<close>

definition ReadSDFSFile :: "bool \<Rightarrow> string \<Rightarrow> sdfs_server \<Rightarrow> bytes option" where
  "ReadSDFSFile io filename s = (if io then disk s filename else None)"

text \<open>\<open>Create\<close> truncates: a write that fails after it leaves the file empty or partial (\<open>partial\<close>).\<close>

datatype write_io = WriteDone | CreateFails | WriteFails (partial: bytes)

definition WriteSDFSFile :: "write_io \<Rightarrow> string \<Rightarrow> bytes \<Rightarrow> sdfs_server \<Rightarrow> bool \<times> sdfs_server" where
  "WriteSDFSFile io filename data s =
     (if CHR ''/'' \<in> set filename then (False, s)
      else case io of
        CreateFails \<Rightarrow> (False, s)
      | WriteFails p \<Rightarrow> (False, s\<lparr>disk := (disk s)(filename \<mapsto> p)\<rparr>)
      | WriteDone \<Rightarrow> (True, s\<lparr>disk := (disk s)(filename \<mapsto> data)\<rparr>))"

definition DeleteSDFSFile :: "bool \<Rightarrow> string \<Rightarrow> sdfs_server \<Rightarrow> bool \<times> sdfs_server" where
  "DeleteSDFSFile io filename s =
     (if io \<and> disk s filename \<noteq> None then (True, s\<lparr>disk := (disk s)(filename := None)\<rparr>) else (False, s))"

definition ClearSDFSFiles :: "bool \<Rightarrow> sdfs_server \<Rightarrow> sdfs_server" where
  "ClearSDFSFiles io s = (if io then s\<lparr>disk := Map.empty\<rparr> else s)"

section \<open>service.go\<close>

datatype read_response = ReadError | ReadOK bytes sequence

definition Read :: "bool \<Rightarrow> string \<Rightarrow> int \<Rightarrow> sdfs_server \<Rightarrow> (read_response \<times> sdfs_server) run" where
  "Read io filename version s =
     (case ft_Get filename version (FileTable s) of
        Inl e \<Rightarrow> Inl e
      | Inr (None, ft) \<Rightarrow> Inr (ReadError, s\<lparr>FileTable := ft\<rparr>)
      | Inr (Some fv, ft) \<Rightarrow>
          let s1 = s\<lparr>FileTable := ft\<rparr> in
          case LFU_Get (ConcatName fv) (FileCache s1) of
            Inl e \<Rightarrow> Inl e
          | Inr ((data, ok), c) \<Rightarrow>
              let s2 = s1\<lparr>FileCache := c\<rparr> in
              if ok then Inr (ReadOK data (fv_Seq fv), s2)
              else (case ReadSDFSFile io (ConcatName fv) s2 of
                None \<Rightarrow> Inr (ReadError, s2)
              | Some d \<Rightarrow> Inr (ReadOK d (fv_Seq fv), s2)))"

record write_request =
  req_Filename :: string
  req_Data :: bytes
  req_WriteId :: write_id
  req_Seq :: sequence

text \<open>The part of \<open>Write\<close> under the lock: \<open>None\<close> when the write is a duplicate.\<close>

definition Write_locked :: "write_request \<Rightarrow> sdfs_server \<Rightarrow> (string option \<times> sdfs_server) run" where
  "Write_locked req s =
     (let concatFileName = ConcatFilename (req_Filename req) (req_Seq req) in
      case ft_Insert (req_Filename req) (FileVersion concatFileName (req_Seq req) (req_WriteId req)) (FileTable s) of
        (Some _, ft) \<Rightarrow> Inr (None, s\<lparr>FileTable := ft\<rparr>)
      | (None, ft) \<Rightarrow>
          if int (length (req_Data req)) \<le> 10 * MegaByte then
            (case LFU_Put concatFileName (req_Data req) (FileCache s) of
               Inl e \<Rightarrow> Inl e
             | Inr c \<Rightarrow> Inr (Some concatFileName, s\<lparr>FileTable := ft, FileCache := c\<rparr>))
          else Inr (Some concatFileName, s\<lparr>FileTable := ft\<rparr>))"

definition Write :: "write_io \<Rightarrow> write_request \<Rightarrow> sdfs_server \<Rightarrow> (response_status \<times> sdfs_server) run" where
  "Write io req s =
     (case Write_locked req s of
        Inl e \<Rightarrow> Inl e
      | Inr (None, s1) \<Rightarrow> Inr (OK, s1)
      | Inr (Some name, s1) \<Rightarrow>
          (case WriteSDFSFile io name (req_Data req) s1 of
             (ok, s2) \<Rightarrow> Inr (if ok then OK else ERROR, s2)))"

definition push_versions :: "file_version list \<Rightarrow> string queue \<Rightarrow> string queue" where
  "push_versions vs q = fold (\<lambda>fv. Queue_Push (ConcatName fv)) vs q"

definition Delete :: "string \<Rightarrow> sdfs_server \<Rightarrow> response_status \<times> sdfs_server" where
  "Delete filename s =
     (if \<not> ft_Contains filename (FileTable s) then (OK, s)
      else (OK, s\<lparr>DeletePool := push_versions (GetVersions filename (FileTable s)) (DeletePool s),
                  FileTable := ft_Delete filename (FileTable s)\<rparr>))"

definition Lookup :: "string \<Rightarrow> sdfs_server \<Rightarrow> response_status \<times> string \<times> int" where
  "Lookup filename s =
     (if ft_Contains filename (FileTable s) then (OK, ip (rs_Process (srv_Ring s)), port (rs_Process (srv_Ring s)))
      else (ERROR, '''', 0))"

definition BulkLookup :: "string list \<Rightarrow> sdfs_server \<Rightarrow> string list" where
  "BulkLookup filenames s = filter (\<lambda>f. \<not> ft_Contains f (FileTable s)) filenames"

definition stable :: "sdfs_server \<Rightarrow> bool" where
  "stable s \<longleftrightarrow> Queue_Len (Signal s) = 0 \<and> length (ExpirationPool (srv_Ring s)) = 0"

definition FetchSequence :: "sdfs_server \<Rightarrow> (response_status \<times> sequence option) \<times> sdfs_server" where
  "FetchSequence s =
     (if \<not> stable s then ((NOT_CONVERGED, None), s)
      else
        let s1 = s\<lparr>SeqCounter := SeqCounter s + 1\<rparr>
        in ((OK, Some (Sequence (joinTime (rs_Process (srv_Ring s1))) (to_int32 (SeqCounter s1)))), s1))"

section \<open>Recycling\<close>

definition Recycle_pool :: "bool \<Rightarrow> sdfs_server \<Rightarrow> sdfs_server run" where
  "Recycle_pool io s =
     (if \<not> Queue_Empty (DeletePool s) then
        (case Queue_Top (DeletePool s) of
           Inl e \<Rightarrow> Inl e
         | Inr fileName \<Rightarrow>
             Inr (snd (DeleteSDFSFile io fileName (s\<lparr>DeletePool := Queue_Pop (DeletePool s)\<rparr>))))
      else Inr s)"

definition mine :: "sdfs_server \<Rightarrow> process \<Rightarrow> bool" where
  "mine s replica \<longleftrightarrow> IsSameProcess (Some replica) (Some (rs_Process (srv_Ring s)))"

definition Recycle_file :: "string \<Rightarrow> sdfs_server \<Rightarrow> sdfs_server" where
  "Recycle_file file s =
     (let shouldDelete = \<not> (\<exists>replica \<in> set (FindReplicas file REPLICA_COUNT (HashRing s)). mine s replica) in
      if shouldDelete then
        s\<lparr>DeletePool := push_versions (GetVersions file (FileTable s)) (DeletePool s),
          FileTable := ft_Delete file (FileTable s)\<rparr>
      else s)"

definition Recycle :: "bool \<Rightarrow> sdfs_server \<Rightarrow> sdfs_server run" where
  "Recycle io s =
     (case Recycle_pool io s of
        Inl e \<Rightarrow> Inl e
      | Inr s1 \<Rightarrow>
          if \<not> stable s1 then Inr s1
          else
            let s2 = s1\<lparr>HashRing := Refresh (members (srv_Ring s1))\<rparr>
            in Inr (fold Recycle_file (GetStoredFiles (FileTable s2)) s2))"

section \<open>Convergence\<close>

definition routed_to_self :: "sdfs_server \<Rightarrow> string \<Rightarrow> bool" where
  "routed_to_self s file \<longleftrightarrow>
     IsSameProcess (GetRouteProcess file (HashRing s)) (Some (rs_Process (srv_Ring s)))"

text \<open>The first part of \<open>Converge\<close>: the transfers it starts, and the refreshed state; \<open>None\<close> when
  there is nothing to do or the expiration pool is not empty.\<close>

definition Converge_plan :: "sdfs_server \<Rightarrow> ((process \<times> string list) list \<times> sdfs_server) option" where
  "Converge_plan s =
     (if \<not> Queue_Empty (Signal s) \<and> length (MembershipList (srv_Ring s)) > 0 then
        if length (ExpirationPool (srv_Ring s)) \<noteq> 0 then None
        else
          let self = rs_Process (srv_Ring s);
              prevMainFiles = filter (routed_to_self s) (GetStoredFiles (FileTable s));
              s1 = s\<lparr>HashRing := Refresh (members (srv_Ring s))\<rparr>;
              currMainFile = filter (routed_to_self s1) (GetStoredFiles (FileTable s1));
              predecessor = FindPredecessor self (HashRing s1);
              successors = FindSuccessors self 3 (HashRing s1);
              to_pred = (case predecessor of
                 None \<Rightarrow> []
               | Some p \<Rightarrow> [(p, filter (\<lambda>file. IsSameProcess (GetRouteProcess file (HashRing s1)) (Some p)) prevMainFiles)])
          in Some (to_pred @ map (\<lambda>p. (p, currMainFile)) successors, s1)
      else None)"

text \<open>The last part, after all transfers are done.\<close>

definition Converge_end :: "sdfs_server \<Rightarrow> sdfs_server" where
  "Converge_end s = s\<lparr>Signal := Queue_Clear (Signal s)\<rparr>"

text \<open>The write requests \<open>TransferFiles\<close> sends for the files the other side reports missing; \<open>io\<close>
  says which local reads succeed.\<close>

definition transfer_requests :: "(string \<Rightarrow> bool) \<Rightarrow> string list \<Rightarrow> sdfs_server \<Rightarrow> write_request list" where
  "transfer_requests io missingFiles s =
     concat (map (\<lambda>file.
       List.map_filter (\<lambda>version.
         case ReadSDFSFile (io (ConcatName version)) (ConcatName version) s of
           None \<Rightarrow> None
         | Some data \<Rightarrow> Some \<lparr>req_Filename = file, req_Data = data, req_WriteId = fv_Id version, req_Seq = fv_Seq version\<rparr>)
         (GetVersions file (FileTable s))) missingFiles)"

text \<open>The retry loop around one request. The body ends with an unconditional \<open>break\<close>, so it is run
  once: given the outcome of that attempt, the retry counter and the number counted as transferred.\<close>

definition transfer_attempt :: "bool \<Rightarrow> int \<Rightarrow> int \<times> int" where
  "transfer_attempt ok numTransfered =
     (let retry = (0 :: int) in
      if retry < MAX_RETRY then (if \<not> ok then retry + 1 else retry, numTransfered + 1)
      else (retry, numTransfered))"

text \<open>A transfer that meets no network error, as seen by both sides.\<close>

fun serve_writes :: "write_request list \<Rightarrow> sdfs_server \<Rightarrow> sdfs_server run" where
  "serve_writes [] d = Inr d"
| "serve_writes (req # reqs) d =
     (case Write WriteDone req d of Inl e \<Rightarrow> Inl e | Inr (_, d1) \<Rightarrow> serve_writes reqs d1)"

definition TransferFiles :: "(string \<Rightarrow> bool) \<Rightarrow> string list \<Rightarrow> sdfs_server \<Rightarrow> sdfs_server \<Rightarrow> sdfs_server run" where
  "TransferFiles io files s d = serve_writes (transfer_requests io (BulkLookup files d) s) d"

section \<open>Invariant\<close>

text \<open>\<open>written\<close> records which bytes were written under each local name. The cache and the disk hold
  nothing else, and the table names its versions by file and sequence number.\<close>

definition server_inv :: "(string \<rightharpoonup> bytes) \<Rightarrow> sdfs_server \<Rightarrow> bool" where
  "server_inv written s \<longleftrightarrow>
     table_ok (FileTable s) \<and> cache_ok (FileCache s) \<and> cache_lookup (FileCache s) \<subseteq>\<^sub>m written \<and> disk s \<subseteq>\<^sub>m written
     \<and> (\<forall>f. \<forall>fv \<in> set (ft_at (FileTable s) f). ConcatName fv = ConcatFilename f (fv_Seq fv))"

lemma server_inv_frame:
  assumes "server_inv written s" "FileTable s' = FileTable s" "FileCache s' = FileCache s" "disk s' \<subseteq>\<^sub>m disk s"
  shows "server_inv written s'"
  using assms by (auto simp: server_inv_def intro: map_le_trans)

lemma map_le_upd_same: "m \<subseteq>\<^sub>m n \<Longrightarrow> n k = None \<or> n k = Some v \<Longrightarrow> m \<subseteq>\<^sub>m n(k \<mapsto> v)"
  by (auto simp: map_le_def dom_def)

lemma server_inv_written: "server_inv written s \<Longrightarrow> written k = None \<or> written k = Some v \<Longrightarrow> server_inv (written(k \<mapsto> v)) s"
  by (auto simp: server_inv_def intro: map_le_upd_same)

lemma NewSDFSServer_inv: "server_inv written (NewSDFSServer r)"
  using NewLFUCache_ok [of "100 * MegaByte"]
  by (auto simp: server_inv_def NewSDFSServer_def table_ok_def NewFileTable_def ft_at_def versions_ok_def
      cache_lookup_def NewLFUCache_def MegaByte_def KiloByte_def map_le_def)

lemma Read_inv:
  assumes inv: "server_inv written s" and n: "1 \<le> n"
  shows "\<exists>r s'. Read io f n s = Inr (r, s') \<and> server_inv written s'
    \<and> (\<forall>d q. r = ReadOK d q \<longrightarrow> written (ConcatFilename f q) = Some d)"
proof (cases "n \<le> int (length (ft_at (FileTable s) f))")
  case False
  then have "ft_Get f n (FileTable s) = Inr (None, FileTable s)" by (auto simp: ft_Get_def)
  then show ?thesis using inv by (simp add: Read_def)
next
  case True
  have tok: "table_ok (FileTable s)" using inv by (simp add: server_inv_def)
  obtain fv ft where g: "ft_Get f n (FileTable s) = Inr (Some fv, ft)" "fv \<in> set (ft_at (FileTable s) f)"
    by (rule ft_Get_nth [OF tok n True])
  note T = ft_Get_ok [OF tok g(1)]
  have set: "set (ft_at ft h) = set (ft_at (FileTable s) h)" for h using T(2) by (metis mset_eq_setD)
  have name: "ConcatName fv = ConcatFilename f (fv_Seq fv)" using inv g(2) by (simp add: server_inv_def)
  obtain d ok c where c: "LFU_Get (ConcatName fv) (FileCache s) = Inr ((d, ok), c)"
    "ok \<longrightarrow> written (ConcatName fv) = Some d" "cache_ok c" "cache_lookup c \<subseteq>\<^sub>m written"
    using lfu_cache.get_coherent [of "FileCache s" written "ConcatName fv"] inv by (auto simp: server_inv_def)
  have inv': "server_inv written (s\<lparr>FileTable := ft, FileCache := c\<rparr>)"
    using inv T(1) c(3,4) set by (simp add: server_inv_def)
  have "written (ConcatName fv) = Some x" if "ReadSDFSFile io (ConcatName fv) (s\<lparr>FileTable := ft, FileCache := c\<rparr>) = Some x" for x
    using that inv by (auto simp: ReadSDFSFile_def server_inv_def map_le_def dom_def split: if_splits)
  then show ?thesis using g(1) c(1,2) inv' name by (auto simp: Read_def Let_def split: option.splits)
qed

lemma Read_latest:
  assumes tok: "table_ok (FileTable s)" and r: "Read io f LATEST_VERSION s = Inr (ReadOK d q, s')"
    and v: "v \<in> set (ft_at (FileTable s) f)"
  shows "fv_Seq v \<le> q"
proof -
  have len: "1 \<le> int (length (ft_at (FileTable s) f))" using v by (cases "ft_at (FileTable s) f") auto
  obtain u ft where u: "ft_Get f 1 (FileTable s) = Inr (Some u, ft)"
    "int (length (filter (\<lambda>x. fv_Seq u < fv_Seq x) (ft_at (FileTable s) f))) = 1 - 1"
    by (rule ft_Get_nth [OF tok _ len]) auto
  have "q = fv_Seq u"
    using r u(1) by (auto simp: Read_def LATEST_VERSION_def Let_def split: sum.splits prod.splits if_splits option.splits)
  moreover have "\<not> fv_Seq u < fv_Seq v" using u(2) v by (auto simp: filter_empty_conv)
  ultimately show ?thesis by simp
qed

text \<open>The newest version is served when its content is on the disk.\<close>

lemma Read_newest:
  assumes inv: "server_inv w s" and v: "v \<in> set (ft_at (FileTable s) f)"
    and newest: "\<And>u. u \<in> set (ft_at (FileTable s) f) \<Longrightarrow> u \<noteq> v \<Longrightarrow> fv_Seq u < fv_Seq v"
    and d: "disk s (ConcatName v) = Some d"
  shows "\<exists>s'. Read True f LATEST_VERSION s = Inr (ReadOK d (fv_Seq v), s')"
proof -
  have tok: "table_ok (FileTable s)" using inv by (simp add: server_inv_def)
  have len: "1 \<le> int (length (ft_at (FileTable s) f))" using v by (cases "ft_at (FileTable s) f") auto
  obtain u ft where u: "ft_Get f 1 (FileTable s) = Inr (Some u, ft)" "u \<in> set (ft_at (FileTable s) f)"
    "int (length (filter (\<lambda>x. fv_Seq u < fv_Seq x) (ft_at (FileTable s) f))) = 1 - 1"
    by (rule ft_Get_nth [OF tok _ len]) auto
  have "\<not> fv_Seq u < fv_Seq v" using u(3) v by (auto simp: filter_empty_conv)
  then have uv: "u = v" using newest [OF u(2)] by blast
  obtain r s' where r: "Read True f 1 s = Inr (r, s')" "\<forall>d q. r = ReadOK d q \<longrightarrow> w (ConcatFilename f q) = Some d"
    using Read_inv [OF inv, of 1 True f] by auto
  have "\<exists>x. r = ReadOK x (fv_Seq v)"
    using r(1) u(1) d uv by (auto simp: Read_def Let_def ReadSDFSFile_def split: sum.splits prod.splits if_splits)
  then obtain x where x: "r = ReadOK x (fv_Seq v)" ..
  have "w (ConcatName v) = Some d" using inv d by (auto simp: server_inv_def map_le_def dom_def)
  moreover have "w (ConcatName v) = Some x" using r(2) x inv v by (simp add: server_inv_def)
  ultimately show ?thesis using r(1) x by (simp add: LATEST_VERSION_def)
qed

lemma Write_locked_inv:
  assumes inv: "server_inv written s"
    and same: "written (ConcatFilename (req_Filename req) (req_Seq req)) = None
      \<or> written (ConcatFilename (req_Filename req) (req_Seq req)) = Some (req_Data req)"
  shows "\<exists>r s'. Write_locked req s = Inr (r, s')
    \<and> server_inv (written(ConcatFilename (req_Filename req) (req_Seq req) \<mapsto> req_Data req)) s'
    \<and> disk s' = disk s \<and> r \<in> {None, Some (ConcatFilename (req_Filename req) (req_Seq req))}
    \<and> FileTable s' = snd (ft_Insert (req_Filename req)
        (FileVersion (ConcatFilename (req_Filename req) (req_Seq req)) (req_Seq req) (req_WriteId req)) (FileTable s))
    \<and> (r = None \<longleftrightarrow> fst (ft_Insert (req_Filename req)
        (FileVersion (ConcatFilename (req_Filename req) (req_Seq req)) (req_Seq req) (req_WriteId req)) (FileTable s)) \<noteq> None)"
proof -
  let ?k = "ConcatFilename (req_Filename req) (req_Seq req)"
  let ?v = "FileVersion ?k (req_Seq req) (req_WriteId req)"
  obtain r ft where ins: "ft_Insert (req_Filename req) ?v (FileTable s) = (r, ft)" by force
  have ft: "table_ok ft" "\<And>f fv. fv \<in> set (ft_at ft f) \<Longrightarrow> ConcatName fv = ConcatFilename f (fv_Seq fv)"
    using ft_Insert_ok [of "FileTable s" "req_Filename req" ?v] ft_Insert_at [of "req_Filename req" ?v "FileTable s"] inv ins
    by (auto simp: server_inv_def split: if_splits)
  obtain c where c: "LFU_Put ?k (req_Data req) (FileCache s) = Inr c" "cache_ok c"
    "cache_lookup c \<subseteq>\<^sub>m written(?k \<mapsto> req_Data req)"
    using lfu_cache.put_coherent [of "FileCache s" written ?k "req_Data req"] inv same by (auto simp: server_inv_def)
  have inv1: "server_inv (written(?k \<mapsto> req_Data req)) (s\<lparr>FileTable := ft\<rparr>)"
    using server_inv_written [OF inv same] ft by (auto simp: server_inv_def)
  then have inv2: "server_inv (written(?k \<mapsto> req_Data req)) (s\<lparr>FileTable := ft, FileCache := c\<rparr>)"
    using c by (simp add: server_inv_def)
  show ?thesis
  proof (cases r)
    case None
    then show ?thesis using ins c(1) inv1 inv2 by (simp add: Write_locked_def Let_def)
  next
    case (Some e)
    then show ?thesis using ins inv1 by (simp add: Write_locked_def Let_def)
  qed
qed

lemma WriteSDFSFile_inv:
  assumes "server_inv written s" and "written name = Some data" and "\<forall>p. io \<noteq> WriteFails p"
  shows "server_inv written (snd (WriteSDFSFile io name data s))"
  using assms by (auto simp: WriteSDFSFile_def server_inv_def map_le_def split: write_io.splits)

lemma Recycle_file_frame:
  assumes "server_inv written s"
  shows "server_inv written (Recycle_file f s)"
  using assms by (auto simp: Recycle_file_def Let_def server_inv_def ft_Delete_ok) (auto simp: ft_Delete_def split: if_splits)

lemma fold_Recycle_file_inv: "server_inv written s \<Longrightarrow> server_inv written (fold Recycle_file fs s)"
  by (induction fs arbitrary: s) (auto simp: Recycle_file_frame)

lemma Recycle_pool_inv: "server_inv written s \<Longrightarrow> \<exists>s'. Recycle_pool io s = Inr s' \<and> server_inv written s'"
proof (cases "DeletePool s")
  case (Cons x q)
  assume inv: "server_inv written s"
  let ?s = "snd (DeleteSDFSFile io x (s\<lparr>DeletePool := q\<rparr>))"
  have "server_inv written ?s"
    by (rule server_inv_frame [OF inv]) (auto simp: DeleteSDFSFile_def map_le_def)
  with Cons show ?thesis by (simp add: Recycle_pool_def)
qed (simp add: Recycle_pool_def)

lemma Recycle_inv: "server_inv written s \<Longrightarrow> \<exists>s'. Recycle io s = Inr s' \<and> server_inv written s'"
proof -
  assume "server_inv written s"
  then obtain s1 where 1: "Recycle_pool io s = Inr s1" "server_inv written s1" using Recycle_pool_inv by blast
  have "server_inv written (s1\<lparr>HashRing := hr\<rparr>)" for hr by (rule server_inv_frame [OF 1(2)]) auto
  with 1 show ?thesis by (simp add: Recycle_def Let_def fold_Recycle_file_inv)
qed

section \<open>Reachable states\<close>

text \<open>
  The steps of a server with the record of what was written: requests, the two phases of a write
  (the local file may be written any time after the lock is released), recycling, convergence and
  arbitrary changes of the ring below it. A sequence number names one write, so it is not used
  again with other bytes; no local write is cut short.
\<close>

inductive sdfs_step :: "(string \<rightharpoonup> bytes) \<Rightarrow> sdfs_server \<Rightarrow> (string \<rightharpoonup> bytes) \<Rightarrow> sdfs_server \<Rightarrow> bool" where
  read: "\<lbrakk>1 \<le> n; Read io f n s = Inr (r, s')\<rbrakk> \<Longrightarrow> sdfs_step w s w s'"
| write_lock: "\<lbrakk>w (ConcatFilename (req_Filename req) (req_Seq req)) \<in> {None, Some (req_Data req)}; Write_locked req s = Inr (r, s')\<rbrakk>
    \<Longrightarrow> sdfs_step w s (w(ConcatFilename (req_Filename req) (req_Seq req) \<mapsto> req_Data req)) s'"
| write_disk: "\<lbrakk>w name = Some data; \<forall>p. io \<noteq> WriteFails p\<rbrakk> \<Longrightarrow> sdfs_step w s w (snd (WriteSDFSFile io name data s))"
| delete: "sdfs_step w s w (snd (Delete f s))"
| fetch: "sdfs_step w s w (snd (FetchSequence s))"
| recycle: "Recycle io s = Inr s' \<Longrightarrow> sdfs_step w s w s'"
| plan: "Converge_plan s = Some (plan, s') \<Longrightarrow> sdfs_step w s w s'"
| converged: "sdfs_step w s w (Converge_end s)"
| update: "sdfs_step w s w (OnMemberUpdate a p s)"
| ring: "sdfs_step w s w (s\<lparr>srv_Ring := r\<rparr>)"
| clear: "sdfs_step w s w (ClearSDFSFiles io s)"

inductive sdfs_reachable :: "(string \<rightharpoonup> bytes) \<Rightarrow> sdfs_server \<Rightarrow> bool" where
  init: "sdfs_reachable Map.empty (NewSDFSServer r)"
| step: "\<lbrakk>sdfs_reachable w s; sdfs_step w s w' s'\<rbrakk> \<Longrightarrow> sdfs_reachable w' s'"

lemma sdfs_step_inv:
  assumes "sdfs_step w s w' s'" and inv: "server_inv w s"
  shows "server_inv w' s'"
  using assms(1)
proof cases
  case (read n io f r)
  then show ?thesis using Read_inv [OF inv, of n io f] by auto
next
  case (write_lock req r)
  then show ?thesis using Write_locked_inv [OF inv, of req] by auto
next
  case (write_disk name data io)
  then show ?thesis using WriteSDFSFile_inv [OF inv] by simp
next
  case (delete f)
  then show ?thesis using inv
    by (auto simp: Delete_def server_inv_def ft_Delete_ok) (auto simp: ft_Delete_def split: if_splits)
next
  case fetch
  then show ?thesis using server_inv_frame [OF inv] by (auto simp: FetchSequence_def Let_def)
next
  case (recycle io)
  then show ?thesis using Recycle_inv [OF inv, of io] by auto
next
  case (plan p)
  then show ?thesis using server_inv_frame [OF inv] by (auto simp: Converge_plan_def Let_def split: if_splits)
next
  case converged
  then show ?thesis using server_inv_frame [OF inv] by (simp add: Converge_end_def)
next
  case (update a p)
  then show ?thesis using server_inv_frame [OF inv] by (simp add: OnMemberUpdate_def)
next
  case (ring r)
  then show ?thesis using server_inv_frame [OF inv] by simp
next
  case (clear io)
  then show ?thesis using server_inv_frame [OF inv] by (simp add: ClearSDFSFiles_def)
qed

lemma sdfs_reachable_inv: "sdfs_reachable w s \<Longrightarrow> server_inv w s"
  by (induction rule: sdfs_reachable.induct) (auto intro: NewSDFSServer_inv sdfs_step_inv)

section \<open>Re-replication\<close>

definition fv_of :: "write_request \<Rightarrow> file_version" where
  "fv_of req = FileVersion (ConcatFilename (req_Filename req) (req_Seq req)) (req_Seq req) (req_WriteId req)"

lemma fv_of_simps [simp]: "fv_Seq (fv_of req) = req_Seq req" "fv_Id (fv_of req) = req_WriteId req"
  by (simp_all add: fv_of_def)

lemma Write_done:
  assumes inv: "server_inv w d" and "w (ConcatFilename (req_Filename req) (req_Seq req)) = Some (req_Data req)"
  shows "\<exists>st d'. Write WriteDone req d = Inr (st, d') \<and> server_inv w d'
    \<and> FileTable d' = snd (ft_Insert (req_Filename req) (fv_of req) (FileTable d))
    \<and> dom (disk d) \<subseteq> dom (disk d')
    \<and> (fst (ft_Insert (req_Filename req) (fv_of req) (FileTable d)) = None
        \<longrightarrow> CHR ''/'' \<notin> set (ConcatFilename (req_Filename req) (req_Seq req))
        \<longrightarrow> st = OK \<and> disk d' (ConcatFilename (req_Filename req) (req_Seq req)) = Some (req_Data req))"
proof -
  let ?k = "ConcatFilename (req_Filename req) (req_Seq req)"
  have w: "w(?k \<mapsto> req_Data req) = w" using assms(2) by (simp add: fun_upd_idem)
  obtain r d1 where 1: "Write_locked req d = Inr (r, d1)" "server_inv w d1" "disk d1 = disk d" "r \<in> {None, Some ?k}"
    "FileTable d1 = snd (ft_Insert (req_Filename req) (fv_of req) (FileTable d))"
    "r = None \<longleftrightarrow> fst (ft_Insert (req_Filename req) (fv_of req) (FileTable d)) \<noteq> None"
    using Write_locked_inv [OF inv, of req] assms(2) unfolding w fv_of_def by auto
  show ?thesis
  proof (cases r)
    case None
    then show ?thesis using 1 by (auto simp: Write_def)
  next
    case (Some k)
    then have k: "k = ?k" using 1(4) by simp
    have "server_inv w (snd (WriteSDFSFile WriteDone ?k (req_Data req) d1))"
      by (rule WriteSDFSFile_inv [OF 1(2) assms(2)]) simp
    then show ?thesis using 1 Some k by (auto simp: Write_def WriteSDFSFile_def split: if_splits)
  qed
qed

definition insert_requests :: "write_request list \<Rightarrow> file_table \<Rightarrow> file_table" where
  "insert_requests reqs t = fold (\<lambda>req t. snd (ft_Insert (req_Filename req) (fv_of req) t)) reqs t"

text \<open>Versions that were added have their content on the disk (unless the name has a slash).\<close>

definition new_on_disk :: "sdfs_server \<Rightarrow> sdfs_server \<Rightarrow> bool" where
  "new_on_disk d d' \<longleftrightarrow> (\<forall>g. \<forall>v \<in> set (ft_at (FileTable d') g).
     v \<notin> set (ft_at (FileTable d) g) \<longrightarrow> CHR ''/'' \<notin> set (ConcatName v) \<longrightarrow> ConcatName v \<in> dom (disk d'))"

lemma ft_Insert_accepts:
  "fv_Id v \<notin> fv_Id ` set (ft_at t f) \<Longrightarrow> fv_Seq v \<notin> fv_Seq ` set (ft_at t f) \<Longrightarrow> fst (ft_Insert f v t) = None"
  using Insert_check_None [of "ft_at t f" v] by (auto simp: ft_Insert_def Let_def ft_at_missing)

lemma serve_writes_table:
  assumes "server_inv w d" and "\<forall>req \<in> set reqs. w (ConcatFilename (req_Filename req) (req_Seq req)) = Some (req_Data req)"
  shows "\<exists>d'. serve_writes reqs d = Inr d' \<and> server_inv w d' \<and> FileTable d' = insert_requests reqs (FileTable d)
    \<and> dom (disk d) \<subseteq> dom (disk d') \<and> new_on_disk d d'"
  using assms
proof (induction reqs arbitrary: d)
  case (Cons req reqs)
  let ?k = "ConcatFilename (req_Filename req) (req_Seq req)"
  let ?ins = "ft_Insert (req_Filename req) (fv_of req) (FileTable d)"
  from Cons.prems obtain st d1 where 1: "Write WriteDone req d = Inr (st, d1)" "server_inv w d1"
    "FileTable d1 = snd ?ins" "dom (disk d) \<subseteq> dom (disk d1)"
    "fst ?ins = None \<longrightarrow> CHR ''/'' \<notin> set ?k \<longrightarrow> disk d1 ?k = Some (req_Data req)"
    using Write_done [of w d req] by auto
  from Cons.IH [OF 1(2)] Cons.prems(2) obtain d' where 2: "serve_writes reqs d1 = Inr d'" "server_inv w d'"
    "FileTable d' = insert_requests reqs (FileTable d1)" "dom (disk d1) \<subseteq> dom (disk d')" "new_on_disk d1 d'" by auto
  have tok: "table_ok (FileTable d)" using Cons.prems(1) by (simp add: server_inv_def)
  have "new_on_disk d d1"
    unfolding new_on_disk_def
  proof (intro allI ballI impI)
    fix g v
    assume "v \<in> set (ft_at (FileTable d1) g)" "v \<notin> set (ft_at (FileTable d) g)" "CHR ''/'' \<notin> set (ConcatName v)"
    then have "v = fv_of req" "fst ?ins = None"
      using ft_Insert_at [of "req_Filename req" "fv_of req" "FileTable d" g] 1(3) ft_Insert_accepts [of "fv_of req" "FileTable d" "req_Filename req"]
      by (auto split: if_splits)
    with 1(5) \<open>CHR ''/'' \<notin> _\<close> show "ConcatName v \<in> dom (disk d1)" by (auto simp: fv_of_def)
  qed
  with 2(4,5) have "new_on_disk d d'" unfolding new_on_disk_def by (meson subsetD)
  with 1 2 show ?case by (auto simp: insert_requests_def)
qed (simp add: insert_requests_def new_on_disk_def)

lemma insert_requests_at:
  assumes "distinct (map fv_Seq (ft_at t f) @ map req_Seq (filter (\<lambda>r. req_Filename r = f) reqs))"
    and "distinct (map fv_Id (ft_at t f) @ map req_WriteId (filter (\<lambda>r. req_Filename r = f) reqs))"
  shows "ft_at (insert_requests reqs t) f = ft_at t f @ map fv_of (filter (\<lambda>r. req_Filename r = f) reqs)"
  using assms
proof (induction reqs arbitrary: t)
  case (Cons req reqs)
  let ?t = "snd (ft_Insert (req_Filename req) (fv_of req) t)"
  have at: "ft_at ?t f = (if req_Filename req = f then ft_at t f @ [fv_of req] else ft_at t f)"
    using Cons.prems ft_Insert_at [of "req_Filename req" "fv_of req" t f] by (auto simp: image_iff)
  have "ft_at (insert_requests reqs ?t) f = ft_at ?t f @ map fv_of (filter (\<lambda>r. req_Filename r = f) reqs)"
    by (rule Cons.IH) (use Cons.prems at in \<open>auto split: if_splits\<close>)
  then show ?case using at by (simp add: insert_requests_def)
qed (simp add: insert_requests_def)

definition version_request :: "sdfs_server \<Rightarrow> string \<Rightarrow> file_version \<Rightarrow> write_request" where
  "version_request s file v =
     \<lparr>req_Filename = file, req_Data = the (disk s (ConcatName v)), req_WriteId = fv_Id v, req_Seq = fv_Seq v\<rparr>"

lemma transfer_requests_of_file:
  assumes "distinct missing" and "\<forall>v \<in> set (ft_at (FileTable s) f). io (ConcatName v) \<and> disk s (ConcatName v) \<noteq> None"
  shows "filter (\<lambda>r. req_Filename r = f) (transfer_requests io missing s)
    = (if f \<in> set missing then map (version_request s f) (ft_at (FileTable s) f) else [])"
proof -
  let ?g = "\<lambda>file. List.map_filter (\<lambda>version. case ReadSDFSFile (io (ConcatName version)) (ConcatName version) s of
           None \<Rightarrow> None
         | Some data \<Rightarrow> Some \<lparr>req_Filename = file, req_Data = data, req_WriteId = fv_Id version, req_Seq = fv_Seq version\<rparr>)
         (ft_at (FileTable s) file)"
  have name: "r \<in> set (?g h) \<Longrightarrow> req_Filename r = h" for r h
    by (auto simp: map_filter_def split: option.splits)
  have "filter (\<lambda>r. req_Filename r = f) (?g h) = (if h = f then ?g f else [])" for h
    using name by (auto simp: filter_id_conv filter_empty_conv)
  then have "filter (\<lambda>r. req_Filename r = f) (concat (map ?g missing)) = (if f \<in> set missing then ?g f else [])"
    using assms(1) by (induction missing) auto
  moreover have "?g f = map (version_request s f) (ft_at (FileTable s) f)"
    using assms(2)
    by (induction "ft_at (FileTable s) f" rule: list.induct)
      (auto simp: map_filter_def version_request_def ReadSDFSFile_def split: option.splits intro!: map_cong filter_True)
  ultimately show ?thesis by (simp add: transfer_requests_def)
qed

lemma transfer_requests_written:
  assumes "server_inv w s" and "req \<in> set (transfer_requests io missing s)"
  shows "w (ConcatFilename (req_Filename req) (req_Seq req)) = Some (req_Data req)"
proof -
  obtain f v d where v: "v \<in> set (ft_at (FileTable s) f)" "disk s (ConcatName v) = Some d"
    "req = \<lparr>req_Filename = f, req_Data = d, req_WriteId = fv_Id v, req_Seq = fv_Seq v\<rparr>"
    using assms(2) by (auto simp: transfer_requests_def map_filter_def ReadSDFSFile_def split: option.splits if_splits)
  have "w (ConcatName v) = Some d" using assms(1) v(2) by (auto simp: server_inv_def map_le_def dom_def)
  then show ?thesis using assms(1) v by (simp add: server_inv_def)
qed

section \<open>Who gets which file\<close>

lemma FindSuccessors_loop_eq:
  "FindSuccessors_loop p hr index i k = Successors_loop p (map hn_Process hr) index i k" if "hr \<noteq> []"
proof (induction k arbitrary: i)
  case (Suc k)
  have "nat ((index + int i + 1) mod int (length hr)) < length hr" using that
    by (metis length_greater_0_conv nat_less_iff of_nat_0_less_iff pos_mod_bound pos_mod_sign)
  with Suc show ?case by (simp add: Let_def)
qed simp

text \<open>Without collisions the replicas of a file are its main process and that process's successors.\<close>

lemma replicas_of_main:
  assumes nc: "no_collision ms" and self: "self \<in> set ms"
    and route: "IsSameProcess (GetRouteProcess f (Refresh ms)) (Some self)" and n: "0 \<le> n"
  shows "FindReplicas f (n + 1) (Refresh ms) = self # FindSuccessors self n (Refresh ms)"
proof -
  let ?hr = "Refresh ms" and ?h = "Hash f mod HASH_SIZE"
  let ?s = "insert_position ?h ?hr"
  obtain m rest where cw: "clockwise ?h ?hr = m # rest" "ident (hn_Process m) = ident self"
    using route GetRouteProcess_eq [OF Refresh_sorted, of f ms] by (cases "clockwise ?h ?hr") auto
  have m: "m \<in> set ?hr" using cw(1) by (metis list.set_intros(1) mset_clockwise mset_eq_setD)
  have nodes: "set ?hr = node_of ` set ms" by (simp add: Refresh_eq [OF nc])
  have inj: "inj_on ident (set ms)"
  proof (rule inj_onI)
    fix x y
    assume "x \<in> set ms" "y \<in> set ms" "ident x = ident y"
    with home_ident [of x y] show "x = y" using nc by (metis distinct_map inj_on_def)
  qed
  obtain x where x: "x \<in> set ms" "m = node_of x" using m nodes by auto
  then have "x = self" using cw(2) self inj_onD [OF inj, of x self] by (simp add: node_of_def)
  with x have ms: "m = node_of self" "hn_Process m = self" by (simp_all add: node_of_def)
  obtain xs ys where split: "?hr = xs @ m # ys" "length xs = ?s" "rest = ys @ xs"
  proof -
    have "drop ?s ?hr @ take ?s ?hr = m # rest" using ring_sorted_split [OF Refresh_sorted] cw(1) by simp
    moreover have "?s < length ?hr" by (rule insert_position_less) (use m in auto)
    moreover from this have "drop ?s ?hr = ?hr ! ?s # drop (Suc ?s) ?hr" by (simp add: Cons_nth_drop_Suc)
    ultimately have "?hr ! ?s = m" "drop (Suc ?s) ?hr @ take ?s ?hr = rest" "?s < length ?hr" by simp_all
    then show ?thesis
      using id_take_nth_drop [of ?s ?hr] by (intro that [of "take ?s ?hr" "drop (Suc ?s) ?hr"]) simp_all
  qed
  have dk: "distinct (map HashKey ?hr)" using nc by (simp add: Refresh_eq [OF nc] comp_def node_of_def)
  have idx: "hr_FindProcessIndex self ?hr = int (length xs)"
  proof -
    have key: "Hash (Address self) mod HASH_SIZE = HashKey m" using ms(1) by (simp add: node_of_def home_def)
    have "find_index (\<lambda>n. HashKey n = HashKey m) ?hr = int (length xs)"
    proof (rule find_index_unique)
      show "length xs < length ?hr" "HashKey (?hr ! length xs) = HashKey m" using split(1) by simp_all
      show "j = length xs" if "j < length ?hr" "HashKey (?hr ! j) = HashKey m" for j
      proof -
        have "length xs < length ?hr" "HashKey (?hr ! length xs) = HashKey m" using split(1) by simp_all
        with nth_eq_iff_index_eq [OF dk, of j "length xs"] that show ?thesis by (metis length_map nth_map)
      qed
    qed
    then show ?thesis by (simp add: hr_FindProcessIndex_def key)
  qed
  have "distinct (map ident (map hn_Process ?hr))"
    using Refresh_processes [of ms] inj nc by (metis distinct_map mset_eq_imp_distinct_iff mset_eq_setD)
  then have other: "\<forall>p \<in> set (map hn_Process xs @ map hn_Process ys). ident p \<noteq> ident self"
    using split(1) ms(2) by (auto dest: sym)
  have "FindSuccessors self n ?hr = take (nat n) (map hn_Process ys @ map hn_Process xs)"
    using FindSuccessors_loop_eq [of ?hr] split(1) idx
      Successors_loop_eq [of "map hn_Process ?hr" "map hn_Process xs" self "map hn_Process ys" self 0 "nat n", OF _ _ other] ms(2)
    by (simp add: FindSuccessors_def Let_def)
  moreover have "FindReplicas f (n + 1) ?hr = self # take (nat n) (map hn_Process (ys @ xs))"
    using FindReplicas_eq [OF Refresh_sorted] cw(1) split(3) ms(2) n by (simp add: nat_add_distrib take_map)
  ultimately show ?thesis by simp
qed

section \<open>Properties\<close>

definition example_request :: write_request where
  "example_request =
     \<lparr>req_Filename = ''f'', req_Data = ''data'', req_WriteId = WriteId ''a'' 1 5, req_Seq = Sequence 1 1\<rparr>"

definition example_server :: sdfs_server where
  "example_server = NewSDFSServer (NewRingServer ''vm1'' 5000)"

lemma example_server_inv: "server_inv w example_server"
  unfolding example_server_def by (rule NewSDFSServer_inv)

lemma example_server_empty: "ft_at (FileTable example_server) f = []" "\<not> ft_Contains f (FileTable example_server)"
  by (simp_all add: example_server_def NewSDFSServer_def NewFileTable_def ft_at_def ft_Contains_def)

lemma example_name_slash: "CHR ''/'' \<notin> set (ConcatFilename ''f'' (Sequence 1 1))"
proof -
  have "CHR ''/'' \<notin> set (time_String 1)" by code_simp
  then show ?thesis using show_int_not_in [of "CHR ''/''" 1] by (simp add: ConcatFilename_def)
qed

lemma example_written:
  "\<exists>s'. Write WriteDone example_request example_server = Inr (OK, s')
    \<and> server_inv [ConcatFilename ''f'' (Sequence 1 1) \<mapsto> ''data''] s'
    \<and> ft_at (FileTable s') ''f'' = [fv_of example_request] \<and> disk s' (ConcatFilename ''f'' (Sequence 1 1)) = Some ''data''"
proof -
  let ?k = "ConcatFilename ''f'' (Sequence 1 1)"
  have acc: "fst (ft_Insert ''f'' (fv_of example_request) (FileTable example_server)) = None"
    by (rule ft_Insert_accepts) (simp_all add: example_server_empty)
  have at: "ft_at (snd (ft_Insert ''f'' (fv_of example_request) (FileTable example_server))) ''f'' = [fv_of example_request]"
    by (simp add: ft_Insert_at example_server_empty)
  have "[?k \<mapsto> ''data''] (ConcatFilename (req_Filename example_request) (req_Seq example_request)) = Some (req_Data example_request)"
    by (simp add: example_request_def)
  from Write_done [where w = "[?k \<mapsto> ''data'']", OF example_server_inv this] acc at example_name_slash show ?thesis
    by (auto simp: example_request_def)
qed

text \<open>A read never returns anything but what was written: in every state a server can reach, for any
  interleaving of requests, local writes, evictions, deletions, recycling and ring changes, reading a
  version does not panic, and if it answers with data and a sequence number then these are the bytes
  that were written to this file under this sequence number. The server stays in a reachable state.\<close>

lemma reads_return_what_was_written:
  assumes "sdfs_reachable w s" and "1 \<le> n"
  shows "\<exists>r s'. Read io f n s = Inr (r, s') \<and> sdfs_reachable w s'
    \<and> (\<forall>d q. r = ReadOK d q \<longrightarrow> w (ConcatFilename f q) = Some d)"
  using Read_inv [OF sdfs_reachable_inv [OF assms(1)] assms(2), of io f] assms
  by (blast intro: sdfs_reachable.step sdfs_step.read)

lemma reads_return_what_was_written_example:
  "\<exists>r s'. Read True ''f'' 1 example_server = Inr (r, s') \<and> sdfs_reachable Map.empty s'"
  using reads_return_what_was_written [OF sdfs_reachable.init, of 1 True "''f''" "NewRingServer ''vm1'' 5000"]
  unfolding example_server_def by fastforce

text \<open>C3. Read your write: when a write with the newest sequence number of its file and a new write id is
  answered with OK, reading the latest version of the file from that server returns the data written
  with that sequence number, from the cache or from the disk.\<close>

theorem read_your_write:
  assumes inv: "server_inv w s"
    and fresh: "w (ConcatFilename (req_Filename req) (req_Seq req)) = None"
    and newest: "\<forall>v \<in> set (ft_at (FileTable s) (req_Filename req)). fv_Seq v < req_Seq req \<and> fv_Id v \<noteq> req_WriteId req"
    and done_w: "Write WriteDone req s = Inr (OK, s')"
  shows "\<exists>s''. Read True (req_Filename req) LATEST_VERSION s' = Inr (ReadOK (req_Data req) (req_Seq req), s'')"
proof -
  let ?f = "req_Filename req" and ?k = "ConcatFilename (req_Filename req) (req_Seq req)"
  let ?w = "w(?k \<mapsto> req_Data req)"
  have inv0: "server_inv ?w s" using server_inv_written [OF inv] fresh by simp
  have new: "fv_Id (fv_of req) \<notin> fv_Id ` set (ft_at (FileTable s) ?f)" "fv_Seq (fv_of req) \<notin> fv_Seq ` set (ft_at (FileTable s) ?f)"
    using newest by auto
  have acc: "fst (ft_Insert ?f (fv_of req) (FileTable s)) = None" by (rule ft_Insert_accepts [OF new])
  have ft: "FileTable s' = snd (ft_Insert ?f (fv_of req) (FileTable s))" and inv': "server_inv ?w s'"
    using Write_done [OF inv0, of req] done_w by auto
  have at: "ft_at (FileTable s') ?f = ft_at (FileTable s) ?f @ [fv_of req]"
    using new ft_Insert_at [of ?f "fv_of req" "FileTable s" ?f] by (simp add: ft)
  have disk: "disk s' ?k = Some (req_Data req)"
  proof -
    have "CHR ''/'' \<notin> set ?k"
    proof
      assume "CHR ''/'' \<in> set ?k"
      then have "\<forall>r s1. Write_locked req s = Inr (Some r, s1) \<longrightarrow> \<not> fst (WriteSDFSFile WriteDone ?k (req_Data req) s1)"
        by (simp add: WriteSDFSFile_def)
      moreover obtain r s1 where "Write_locked req s = Inr (r, s1)" "r = Some ?k"
        using Write_locked_inv [OF inv, of req] fresh acc by (auto simp: fv_of_def)
      ultimately show False using done_w by (auto simp: Write_def split: prod.splits if_splits)
    qed
    then show ?thesis using Write_done [OF inv0, of req] done_w acc by auto
  qed
  have "ConcatName (fv_of req) = ?k" by (simp add: fv_of_def)
  with Read_newest [OF inv', of "fv_of req" ?f "req_Data req"] at newest disk show ?thesis by auto
qed

theorem read_your_write_witness:
  "\<exists>s' s''. Write WriteDone example_request example_server = Inr (OK, s')
    \<and> Read True ''f'' LATEST_VERSION s' = Inr (ReadOK ''data'' (Sequence 1 1), s'')"
proof -
  obtain s' where s': "Write WriteDone example_request example_server = Inr (OK, s')" using example_written by blast
  from read_your_write [OF example_server_inv _ _ s', of Map.empty] s' show ?thesis
    by (auto simp: example_request_def example_server_empty)
qed



text \<open>C21. Convergence reaches every replica: without address collisions, when a server converges, every
  replica of every file that is routed to it is the server itself or is sent that file.\<close>

theorem converge_reaches_all_replicas:
  assumes plan: "Converge_plan s = Some (plan, s')" and nc: "no_collision (members (srv_Ring s))"
    and self: "rs_Process (srv_Ring s) \<in> set (members (srv_Ring s))"
    and f: "ft_Contains f (FileTable s)" "routed_to_self s' f"
    and r: "r \<in> set (FindReplicas f REPLICA_COUNT (HashRing s'))"
  shows "r = rs_Process (srv_Ring s) \<or> (\<exists>files. (r, files) \<in> set plan \<and> f \<in> set files)"
proof -
  let ?hr = "Refresh (members (srv_Ring s))" and ?self = "rs_Process (srv_Ring s)"
  have s': "s' = s\<lparr>HashRing := ?hr\<rparr>"
    and p: "map (\<lambda>p. (p, filter (routed_to_self s') (GetStoredFiles (FileTable s')))) (FindSuccessors ?self 3 ?hr) = drop (length plan - length (FindSuccessors ?self 3 ?hr)) plan"
    using plan by (auto simp: Converge_plan_def Let_def split: if_splits)
  have stored: "f \<in> set (filter (routed_to_self s') (GetStoredFiles (FileTable s')))"
    using f by (auto simp: GetStoredFiles_def s' ft_Contains_def dest: map_of_SomeD) (metis fst_conv imageI map_of_SomeD)
  have route: "IsSameProcess (GetRouteProcess f ?hr) (Some ?self)" using f(2) by (simp add: routed_to_self_def s')
  have "FindReplicas f REPLICA_COUNT ?hr = ?self # FindSuccessors ?self 3 ?hr"
    using replicas_of_main [OF nc self route, of 3] by (simp add: REPLICA_COUNT_def)
  then consider "r = ?self" | "r \<in> set (FindSuccessors ?self 3 ?hr)" using r by (auto simp: s')
  then show ?thesis
  proof cases
    case 2
    then have "(r, filter (routed_to_self s') (GetStoredFiles (FileTable s'))) \<in> set plan"
      using p by (metis (no_types, lifting) image_eqI in_set_dropD list.set_map)
    with stored show ?thesis by blast
  qed simp
qed

lemma GetRouteProcess_single: "GetRouteProcess f [\<lparr>HashKey = k, hn_Process = p\<rparr>] = Some p"
  by (simp add: GetRouteProcess_def Let_def)

text \<open>A server alone in its ring that has stored one file and not yet converged.\<close>

definition lone_server :: sdfs_server where
  "lone_server = example_server\<lparr>srv_Ring := fst (Join_alone 1 1 (NewRingServer ''vm1'' 5000)),
     FileTable := [(''f'', [])], Signal := [(MEMBER_INSERT, example_process ''vm1'' 1)]\<rparr>"

lemma lone_ring: "members (srv_Ring lone_server) = [rs_Process (srv_Ring lone_server)]"
  "MembershipList (srv_Ring lone_server) = [Self]" "ExpirationPool (srv_Ring lone_server) = []"
  by (simp_all add: lone_server_def members_Join_alone) (simp_all add: Join_alone_def Let_def NewRingServer_def)

theorem converge_reaches_all_replicas_witness:
  "\<exists>plan s'. Converge_plan lone_server = Some (plan, s')
    \<and> (\<forall>r \<in> set (FindReplicas ''f'' REPLICA_COUNT (HashRing s')).
        r = rs_Process (srv_Ring lone_server) \<or> (\<exists>files. (r, files) \<in> set plan \<and> ''f'' \<in> set files))"
proof -
  have sig: "Signal lone_server \<noteq> []" by (simp add: lone_server_def)
  then obtain plan s' where p: "Converge_plan lone_server = Some (plan, s')"
    using lone_ring by (auto simp: Converge_plan_def Let_def)
  have s': "s' = lone_server\<lparr>HashRing := Refresh [rs_Process (srv_Ring lone_server)]\<rparr>"
    using p lone_ring sig by (auto simp: Converge_plan_def Let_def split: if_splits)
  have "routed_to_self s' ''f''"
    using Refresh_eq [of "[rs_Process (srv_Ring lone_server)]"]
    by (simp add: s' routed_to_self_def node_of_def sort_Sort_def GetRouteProcess_single)
  moreover have "ft_Contains ''f'' (FileTable lone_server)" by (simp add: lone_server_def ft_Contains_def)
  ultimately show ?thesis using converge_reaches_all_replicas [OF p] lone_ring(1) p by auto
qed

lemma Recycle_file_at:
  "ft_at (FileTable (Recycle_file g s)) f =
     (if f = g \<and> \<not> (\<exists>r \<in> set (FindReplicas g REPLICA_COUNT (HashRing s)). mine s r) then [] else ft_at (FileTable s) f)"
  "HashRing (Recycle_file g s) = HashRing s" "srv_Ring (Recycle_file g s) = srv_Ring s"
  by (auto simp: Recycle_file_def Let_def ft_Delete_def)

lemma fold_Recycle_file_at:
  "ft_at (FileTable (fold Recycle_file fs s)) f =
     (if f \<in> set fs \<and> \<not> (\<exists>r \<in> set (FindReplicas f REPLICA_COUNT (HashRing s)). mine s r) then [] else ft_at (FileTable s) f)"
  by (induction fs arbitrary: s) (auto simp: Recycle_file_at mine_def)



text \<open>C26. Sequence numbers order writes: two sequence numbers a leader hands out, one after the other, are
  strictly increasing while its counter stays below \<open>2 ^ 31\<close>; and every number of a leader that joined
  later is greater than every number of an earlier one, so the order survives a change of leader.\<close>

theorem sequence_numbers_increase:
  assumes "FetchSequence s = ((OK, Some a), s1)" and "FetchSequence t = ((OK, Some b), t1)"
    and "joinTime (rs_Process (srv_Ring s)) = joinTime (rs_Process (srv_Ring t)) \<and> SeqCounter s1 \<le> SeqCounter t
           \<and> 0 \<le> SeqCounter s \<and> SeqCounter t + 1 < 2 ^ 31
         \<or> joinTime (rs_Process (srv_Ring s)) < joinTime (rs_Process (srv_Ring t))"
  shows "a < b"
proof -
  have a: "a = Sequence (joinTime (rs_Process (srv_Ring s))) (to_int32 (SeqCounter s + 1))" "SeqCounter s1 = SeqCounter s + 1"
    and b: "b = Sequence (joinTime (rs_Process (srv_Ring t))) (to_int32 (SeqCounter t + 1))"
    using assms(1,2) by (auto simp: FetchSequence_def Let_def split: if_splits)
  show ?thesis using assms(3) by (auto simp: a b less_sequence_def to_int32_id)
qed

theorem sequence_numbers_increase_witness:
  "\<exists>a b s1 t1. FetchSequence example_server = ((OK, Some a), s1) \<and> FetchSequence s1 = ((OK, Some b), t1) \<and> a < b"
proof -
  obtain a s1 where 1: "FetchSequence example_server = ((OK, Some a), s1)" "SeqCounter s1 = 1" "srv_Ring s1 = srv_Ring example_server"
    by (simp add: FetchSequence_def stable_def example_server_def NewSDFSServer_def NewRingServer_def NewQueue_def Queue_Len_def Let_def)
  obtain b t1 where 2: "FetchSequence s1 = ((OK, Some b), t1)"
    using 1 by (auto simp: FetchSequence_def stable_def Let_def split: if_splits)
  have "SeqCounter example_server = 0" by (simp add: example_server_def NewSDFSServer_def)
  with sequence_numbers_increase [OF 1(1) 2] 1 2 show ?thesis by auto
qed

text \<open>A failed transfer is never retried and is counted as done: one attempt is made, the retry counter
  ends at most at one, which is below the limit, and the number of transferred files grows.\<close>

theorem failed_transfer_counted:
  "fst (transfer_attempt False k) < MAX_RETRY \<and> snd (transfer_attempt False k) = k + 1"
  by (simp add: transfer_attempt_def MAX_RETRY_def)


end
