(* ===== verification/Sdfs_Client.thy ===== *)
theory Sdfs_Client
  imports Sdfs_Server
begin

text \<open>
  The SDFS client (\<open>sdfs/task.go\<close>, \<open>task_result.go\<close>, \<open>client.go\<close>, \<open>client_action.go\<close>,
  \<open>client_cli.go\<close>): tasks, the quorum of acknowledgements, the command line and the loops behind
  its commands. \<open>ExecuteTask\<close> is a function of the acknowledgements that arrive before the
  timeout, in the order of their arrival; the loops of the commands are functions of the successive
  outcomes of \<open>ExecuteTask\<close>, and \<open>None\<close> means that the loop has not ended when these are used
  up. Printing and timing are omitted.
\<close>

section \<open>Tasks and results\<close>

datatype sdfs_task_type = SDFS_PUT | SDFS_GET | SDFS_DELETE | SDFS_LIST | SDFS_STORE

datatype sdfs_task =
    SDFSPutTask string string bytes write_id
  | SDFSGetTask string string int
  | SDFSDeleteTask string
  | SDFSListTask string
  | SDFSStoreTask

fun GetType :: "sdfs_task \<Rightarrow> sdfs_task_type" where
  "GetType (SDFSPutTask _ _ _ _) = SDFS_PUT"
| "GetType (SDFSGetTask _ _ _) = SDFS_GET"
| "GetType (SDFSDeleteTask _) = SDFS_DELETE"
| "GetType (SDFSListTask _) = SDFS_LIST"
| "GetType SDFSStoreTask = SDFS_STORE"

fun GetSDFSFile :: "sdfs_task \<Rightarrow> string" where
  "GetSDFSFile (SDFSPutTask _ f _ _) = f"
| "GetSDFSFile (SDFSGetTask _ f _) = f"
| "GetSDFSFile (SDFSDeleteTask f) = f"
| "GetSDFSFile (SDFSListTask f) = f"
| "GetSDFSFile SDFSStoreTask = ''''"

datatype task_result =
    SDFSPutTaskResult response_status
  | SDFSGetTaskResult response_status "sequence option" bytes
  | SDFSDeleteTaskResult response_status
  | SDFSListTaskResult response_status string int
  | SDFSListTaskResults response_status "(response_status \<times> string \<times> int) list"

fun GetStatus :: "task_result \<Rightarrow> response_status" where
  "GetStatus (SDFSPutTaskResult st) = st"
| "GetStatus (SDFSGetTaskResult st _ _) = st"
| "GetStatus (SDFSDeleteTaskResult st) = st"
| "GetStatus (SDFSListTaskResult st _ _) = st"
| "GetStatus (SDFSListTaskResults st _) = st"

definition READ_CONSISTENCY :: int where "READ_CONSISTENCY = 2"
definition WRITE_CONSISTENCY :: int where "WRITE_CONSISTENCY = 3"
definition DELETE_CONSISTENCY :: int where "DELETE_CONSISTENCY = REPLICA_COUNT"
definition LOOKUP_CONSISTENCY :: int where "LOOKUP_CONSISTENCY = REPLICA_COUNT"

text \<open>\<open>int(math.Min(float64(level), float64(n)))\<close> is exact on the small numbers involved.\<close>

definition GetConsistencyLevel :: "sdfs_task_type \<Rightarrow> hash_ring \<Rightarrow> int" where
  "GetConsistencyLevel reqType hr =
     (let level = (case reqType of
          SDFS_GET \<Rightarrow> READ_CONSISTENCY
        | SDFS_PUT \<Rightarrow> WRITE_CONSISTENCY
        | SDFS_DELETE \<Rightarrow> DELETE_CONSISTENCY
        | SDFS_LIST \<Rightarrow> LOOKUP_CONSISTENCY
        | SDFS_STORE \<Rightarrow> 0)
      in min level (int (length hr)))"

definition GetTimeout_seconds :: "sdfs_task_type \<Rightarrow> int" where
  "GetTimeout_seconds reqType =
     (case reqType of SDFS_GET \<Rightarrow> 12 | SDFS_PUT \<Rightarrow> 12 | SDFS_DELETE \<Rightarrow> 2 | SDFS_LIST \<Rightarrow> 12 | SDFS_STORE \<Rightarrow> 3)"

section \<open>Executing a task\<close>

datatype exec_outcome = NotConverged | Result task_result | ExecError string

text \<open>The loop of \<open>HandleTaskResults\<close> over the results of a read; the type assertion and the method
  call on a nil sequence panic.\<close>

fun latest_loop :: "task_result list \<Rightarrow> sequence option \<Rightarrow> bytes \<Rightarrow> (sequence option \<times> bytes) run" where
  "latest_loop [] latest data = Inr (latest, data)"
| "latest_loop (SDFSGetTaskResult st seq d # rs) latest data =
     (case (latest, seq) of
        (Some l, Some q) \<Rightarrow> if Sequence_Less l q then latest_loop rs (Some q) d else latest_loop rs latest data
      | _ \<Rightarrow> Inl NilDereference)"
| "latest_loop (r # rs) latest data = Inl (ExplicitPanic ''interface conversion'')"

fun lookups :: "task_result list \<Rightarrow> (response_status \<times> string \<times> int) list run" where
  "lookups [] = Inr []"
| "lookups (SDFSListTaskResult st i p # rs) =
     (case lookups rs of Inl e \<Rightarrow> Inl e | Inr ls \<Rightarrow> Inr ((st, i, p) # ls))"
| "lookups (r # rs) = Inl (ExplicitPanic ''interface conversion'')"

definition HandleTaskResults :: "sdfs_task_type \<Rightarrow> task_result list \<Rightarrow> exec_outcome run" where
  "HandleTaskResults reqType results =
     (case results of
        [] \<Rightarrow> Inr (ExecError ''no results to handle'')
      | r # _ \<Rightarrow>
          (case reqType of
             SDFS_GET \<Rightarrow>
               (case r of
                  SDFSGetTaskResult st seq d \<Rightarrow>
                    (case latest_loop results seq d of
                       Inl e \<Rightarrow> Inl e
                     | Inr (latest, data) \<Rightarrow> Inr (Result (SDFSGetTaskResult OK latest data)))
                | _ \<Rightarrow> Inl (ExplicitPanic ''interface conversion''))
           | SDFS_PUT \<Rightarrow> Inr (Result (SDFSPutTaskResult OK))
           | SDFS_DELETE \<Rightarrow> Inr (Result (SDFSDeleteTaskResult OK))
           | SDFS_LIST \<Rightarrow>
               (case lookups results of
                  Inl e \<Rightarrow> Inl e
                | Inr ls \<Rightarrow> Inr (Result (SDFSListTaskResults OK ls)))
           | SDFS_STORE \<Rightarrow> Inr (ExecError ''unknown request type'')))"

definition timeout_outcome :: "sdfs_task_type \<Rightarrow> exec_outcome" where
  "timeout_outcome ty =
     (case ty of
        SDFS_GET \<Rightarrow> Result (SDFSGetTaskResult NOT_FOUND None '''')
      | SDFS_LIST \<Rightarrow> Result (SDFSListTaskResults NOT_FOUND [])
      | _ \<Rightarrow> ExecError ''timeout waiting for acks'')"

fun ack_loop :: "sdfs_task_type \<Rightarrow> int \<Rightarrow> task_result list \<Rightarrow> task_result list \<Rightarrow> exec_outcome run" where
  "ack_loop ty ackRequired arrivals ackResults =
     (if int (length ackResults) \<ge> ackRequired then HandleTaskResults ty ackResults
      else case arrivals of
        [] \<Rightarrow> Inr (timeout_outcome ty)
      | res # rest \<Rightarrow> ack_loop ty ackRequired rest (ackResults @ [res]))"

declare ack_loop.simps [simp del]

text \<open>\<open>fetched\<close> is the answer of the leader: an error, or a status with a sequence number.\<close>

definition ExecuteTask :: "(response_status \<times> sequence option) option \<Rightarrow> sdfs_task \<Rightarrow> hash_ring \<Rightarrow> task_result list
    \<Rightarrow> exec_outcome run" where
  "ExecuteTask fetched task hr arrivals =
     (case fetched of
        None \<Rightarrow> Inr (ExecError ''failed to fetch sequence'')
      | Some (st, seq) \<Rightarrow>
          if st = NOT_CONVERGED then Inr NotConverged
          else ack_loop (GetType task) (GetConsistencyLevel (GetType task) hr) arrivals [])"

text \<open>What a client gets when it asks the leader: \<open>None\<close> is an error, \<open>answer\<close> the outcome of the call.\<close>

definition sc_FetchSequence :: "string option \<Rightarrow> bool \<Rightarrow> (response_status \<times> sequence option) option \<Rightarrow> ring_server
    \<Rightarrow> (response_status \<times> sequence option) option \<times> ring_server" where
  "sc_FetchSequence dns dial answer s =
     (case LookupLeader dns s of
        (None, s1) \<Rightarrow> (None, s1)
      | (Some leaderAddr, s1) \<Rightarrow> (if dial then answer else None, s1))"

text \<open>\<open>RouteTask\<close> at a replica: the request is served and its answer turned into a result. A read or
  a look-up that fails, and a write that fails, comes with an error, so there is no result.\<close>

definition RouteTask :: "bool \<Rightarrow> write_io \<Rightarrow> sdfs_task \<Rightarrow> sequence \<Rightarrow> sdfs_server \<Rightarrow> (task_result option \<times> sdfs_server) run" where
  "RouteTask rio wio task seq s =
     (case task of
        SDFSGetTask _ f version \<Rightarrow>
          (case Read rio f version s of
             Inl e \<Rightarrow> Inl e
           | Inr (ReadError, s1) \<Rightarrow> Inr (None, s1)
           | Inr (ReadOK d q, s1) \<Rightarrow> Inr (Some (SDFSGetTaskResult OK (Some q) d), s1))
      | SDFSPutTask _ f d wid \<Rightarrow>
          (case Write wio \<lparr>req_Filename = f, req_Data = d, req_WriteId = wid, req_Seq = seq\<rparr> s of
             Inl e \<Rightarrow> Inl e
           | Inr (st, s1) \<Rightarrow> Inr (if st = ERROR then None else Some (SDFSPutTaskResult st), s1))
      | SDFSDeleteTask f \<Rightarrow>
          (case Delete f s of (st, s1) \<Rightarrow> Inr (Some (SDFSDeleteTaskResult st), s1))
      | SDFSListTask f \<Rightarrow>
          (case Lookup f s of (st, i, p) \<Rightarrow> Inr (if st = ERROR then None else Some (SDFSListTaskResult st i p), s))
      | SDFSStoreTask \<Rightarrow> Inr (None, s))"

section \<open>Commands\<close>

text \<open>The loop of \<open>Put\<close>, \<open>Delete\<close> and \<open>List\<close>: run the task until the ring has converged.\<close>

fun until_converged :: "exec_outcome list \<Rightarrow> exec_outcome option" where
  "until_converged [] = None"
| "until_converged (NotConverged # os) = until_converged os"
| "until_converged (o1 # os) = Some o1"

definition Put_task :: "string \<Rightarrow> string \<Rightarrow> bytes \<Rightarrow> process \<Rightarrow> time \<Rightarrow> sdfs_task" where
  "Put_task localFile sdfsFile data self now = SDFSPutTask localFile sdfsFile data (WriteId (ip self) (port self) now)"

datatype cli_result = CliOK | CliError string

definition Put :: "bytes option \<Rightarrow> exec_outcome list \<Rightarrow> cli_result option" where
  "Put data outcomes =
     (case data of
        None \<Rightarrow> Some (CliError ''error reading file'')
      | Some _ \<Rightarrow>
          (case until_converged outcomes of
             None \<Rightarrow> None
           | Some (ExecError e) \<Rightarrow> Some (CliError e)
           | Some _ \<Rightarrow> Some CliOK))"

definition Get_task :: "string \<Rightarrow> string \<Rightarrow> int \<Rightarrow> sdfs_task" where
  "Get_task localFile sdfsFile version = SDFSGetTask localFile (replace_all (CHR ''/'') (CHR '':'') sdfsFile) version"

text \<open>The result, and the bytes written to the local file.\<close>

definition Get :: "exec_outcome list \<Rightarrow> bool \<Rightarrow> (cli_result \<times> bytes option) option" where
  "Get outcomes local_write_ok =
     (case until_converged outcomes of
        None \<Rightarrow> None
      | Some (ExecError e) \<Rightarrow> Some (CliError e, None)
      | Some (Result (SDFSGetTaskResult st _ data)) \<Rightarrow>
          if st = NOT_FOUND then Some (CliOK, None)
          else if local_write_ok then Some (CliOK, Some data) else Some (CliError ''error writing file'', None)
      | Some _ \<Rightarrow> Some (CliOK, None))"

definition Delete_cmd :: "exec_outcome list \<Rightarrow> cli_result option" where
  "Delete_cmd outcomes =
     (case until_converged outcomes of
        None \<Rightarrow> None | Some (ExecError e) \<Rightarrow> Some (CliError e) | Some _ \<Rightarrow> Some CliOK)"

definition List_cmd :: "exec_outcome list \<Rightarrow> (cli_result \<times> (string \<times> int) list) option" where
  "List_cmd outcomes =
     (case until_converged outcomes of
        None \<Rightarrow> None
      | Some (ExecError e) \<Rightarrow> Some (CliError e, [])
      | Some (Result (SDFSListTaskResults st rs)) \<Rightarrow>
          if st = NOT_FOUND then Some (CliError ''file does not exist'', [])
          else Some (CliOK, map (\<lambda>(_, i, p). (i, p)) rs)
      | Some _ \<Rightarrow> Some (CliOK, []))"

definition Store :: "file_table \<Rightarrow> (string \<times> nat) list" where
  "Store ft = map (\<lambda>(f, vs). (f, length vs)) ft"

definition GetVersions_tasks :: "string \<Rightarrow> string \<Rightarrow> int \<Rightarrow> sdfs_task queue" where
  "GetVersions_tasks localFile sdfsFile versions =
     fold (\<lambda>i. Queue_Push (SDFSGetTask localFile sdfsFile (to_int32 i))) [1..versions] NewQueue"

text \<open>The loop of \<open>GetVersions\<close>: the content of the local file.\<close>

fun GetVersions_loop :: "sdfs_task queue \<Rightarrow> exec_outcome list \<Rightarrow> bytes \<Rightarrow> (cli_result \<times> bytes) option" where
  "GetVersions_loop [] os file = Some (CliOK, file)"
| "GetVersions_loop (t # ts) [] file = None"
| "GetVersions_loop (t # ts) (NotConverged # os) file = GetVersions_loop (t # ts) os file"
| "GetVersions_loop (t # ts) (ExecError e # os) file = Some (CliError e, file)"
| "GetVersions_loop (t # ts) (Result (SDFSGetTaskResult st q d) # os) file =
     (if st = NOT_FOUND then Some (CliOK, file) else GetVersions_loop ts os (file @ d @ [CHR 0x0A]))"
| "GetVersions_loop (t # ts) (Result r # os) file = None"

text \<open>\<open>PutDir\<close>: the files of the directory and the listing stored under the directory's name.\<close>

definition PutDir_files :: "string \<Rightarrow> string list \<Rightarrow> string list" where
  "PutDir_files sdfsDir names = map (\<lambda>n. sdfsDir @ '':'' @ n) (filter (\<lambda>n. n \<noteq> ''.DS_Store'') names)"

definition PutDir_listing :: "string \<Rightarrow> string list \<Rightarrow> bytes" where
  "PutDir_listing sdfsDir names = join [CHR 0x0A] (PutDir_files sdfsDir names)"

text \<open>Its first loop: a file that cannot be read is tried again and again; the \<open>bool\<close> says whether
  reading succeeded.\<close>

fun PutDir_loop :: "string queue \<Rightarrow> (bool \<times> exec_outcome) list \<Rightarrow> cli_result option" where
  "PutDir_loop [] os = Some CliOK"
| "PutDir_loop (f # fs) [] = None"
| "PutDir_loop (f # fs) ((readable, o1) # os) =
     (if \<not> readable then PutDir_loop (f # fs) os
      else case o1 of
        ExecError e \<Rightarrow> Some (CliError e)
      | NotConverged \<Rightarrow> PutDir_loop (f # fs) os
      | Result _ \<Rightarrow> PutDir_loop fs os)"

definition ValidateDir_tasks :: "bytes \<Rightarrow> sdfs_task queue" where
  "ValidateDir_tasks dirFile = map SDFSListTask (split_on (CHR 0x0A) dirFile)"

text \<open>The loop of \<open>ValidateDir\<close>: a file that is not found is looked up again, without an end.\<close>

fun ValidateDir_loop :: "sdfs_task queue \<Rightarrow> exec_outcome list \<Rightarrow> cli_result option" where
  "ValidateDir_loop [] os = Some CliOK"
| "ValidateDir_loop (t # ts) [] = None"
| "ValidateDir_loop (t # ts) (ExecError e # os) = Some (CliError e)"
| "ValidateDir_loop (t # ts) (NotConverged # os) = ValidateDir_loop (t # ts) os"
| "ValidateDir_loop (t # ts) (Result r # os) =
     (if GetStatus r = NOT_FOUND then ValidateDir_loop (t # ts) os else ValidateDir_loop ts os)"

definition DeleteDir_tasks :: "bytes \<Rightarrow> string \<Rightarrow> sdfs_task queue" where
  "DeleteDir_tasks dirFile sdfsDir = map SDFSDeleteTask (split_on (CHR 0x0A) dirFile) @ [SDFSDeleteTask sdfsDir]"

fun DeleteDir_loop :: "sdfs_task queue \<Rightarrow> exec_outcome list \<Rightarrow> cli_result option" where
  "DeleteDir_loop [] os = Some CliOK"
| "DeleteDir_loop (t # ts) [] = None"
| "DeleteDir_loop (t # ts) (ExecError e # os) = Some (CliError e)"
| "DeleteDir_loop (t # ts) (NotConverged # os) = DeleteDir_loop (t # ts) os"
| "DeleteDir_loop (t # ts) (Result r # os) = DeleteDir_loop ts os"

section \<open>Command line\<close>

text \<open>\<open>strconv.Atoi\<close>: an optional sign and decimal digits, in the range of a 64-bit integer.\<close>

definition is_digit :: "char \<Rightarrow> bool" where
  "is_digit c \<longleftrightarrow> 48 \<le> (of_char c :: nat) \<and> (of_char c :: nat) \<le> 57"

definition Atoi :: "string \<Rightarrow> int option" where
  "Atoi s =
     (let (neg, ds) = (case s of
          [] \<Rightarrow> (False, [])
        | c # cs \<Rightarrow> if c = CHR ''-'' then (True, cs) else if c = CHR ''+'' then (False, cs) else (False, s));
          n = (if neg then - int (digits_value ds) else int (digits_value ds))
      in if ds \<noteq> [] \<and> list_all is_digit ds \<and> - (2 ^ 63) \<le> n \<and> n < 2 ^ 63 then Some n else None)"

datatype sdfs_call =
    CallGet string string int
  | CallPut string string
  | CallDelete string
  | CallList string
  | CallStore
  | CallGetVersions string string int
  | CallPutDir string string
  | CallValidateDir string
  | CallDeleteDir string
  | CallEnableLogs bool
  | InvalidArguments
  | InvalidCommand

definition ExecuteCommand :: "string \<Rightarrow> sdfs_call" where
  "ExecuteCommand command =
     (let args = split_on (CHR '' '') command; n = length args in
      if args ! 0 = ''get'' then (if n \<noteq> 3 then InvalidArguments else CallGet (args ! 2) (args ! 1) LATEST_VERSION)
      else if args ! 0 = ''put'' then (if n \<noteq> 3 then InvalidArguments else CallPut (args ! 1) (args ! 2))
      else if args ! 0 = ''delete'' then (if n \<noteq> 2 then InvalidArguments else CallDelete (args ! 1))
      else if args ! 0 = ''ls'' then (if n \<noteq> 2 then InvalidArguments else CallList (args ! 1))
      else if args ! 0 = ''store'' then (if n \<noteq> 1 then InvalidArguments else CallStore)
      else if args ! 0 = ''get-versions'' then
        (if n < 4 then InvalidArguments
         else case Atoi (args ! 2) of
           None \<Rightarrow> InvalidArguments
         | Some k \<Rightarrow> CallGetVersions (args ! 3) (args ! 1) k)
      else if args ! 0 = ''putdir'' then (if n \<noteq> 3 then InvalidArguments else CallPutDir (args ! 1) (args ! 2))
      else if args ! 0 = ''valdir'' then (if n \<noteq> 2 then InvalidArguments else CallValidateDir (args ! 1))
      else if args ! 0 = ''deldir'' then (if n \<noteq> 2 then InvalidArguments else CallDeleteDir (args ! 1))
      else if args ! 0 = ''enable-log'' then (if n \<noteq> 1 then InvalidArguments else CallEnableLogs True)
      else if args ! 0 = ''disable-log'' then (if n \<noteq> 1 then InvalidArguments else CallEnableLogs False)
      else InvalidCommand)"

section \<open>Quorums\<close>

definition read_result :: "sequence \<times> bytes \<Rightarrow> task_result" where
  "read_result r = SDFSGetTaskResult OK (Some (fst r)) (snd r)"

text \<open>The loop keeps the newest of the results it has seen.\<close>

lemma latest_loop_max:
  "\<exists>r \<in> insert r0 (set rs). latest_loop (map read_result rs) (Some (fst r0)) (snd r0) = Inr (Some (fst r), snd r)
    \<and> (\<forall>x \<in> insert r0 (set rs). fst x \<le> fst r)"
proof (induction rs arbitrary: r0)
  case (Cons a rs)
  show ?case
  proof (cases "fst r0 < fst a")
    case True
    from Cons.IH [of a] obtain r where "r \<in> insert a (set rs)"
      "latest_loop (map read_result rs) (Some (fst a)) (snd a) = Inr (Some (fst r), snd r)" "\<forall>x \<in> insert a (set rs). fst x \<le> fst r" by blast
    with True show ?thesis by (intro bexI [of _ r]) (auto simp: read_result_def [of a])
  next
    case False
    from Cons.IH [of r0] obtain r where "r \<in> insert r0 (set rs)"
      "latest_loop (map read_result rs) (Some (fst r0)) (snd r0) = Inr (Some (fst r), snd r)" "\<forall>x \<in> insert r0 (set rs). fst x \<le> fst r" by blast
    with False show ?thesis by (intro bexI [of _ r]) (auto simp: read_result_def [of a])
  qed
qed simp

lemma HandleTaskResults_get:
  assumes "rs \<noteq> []"
  obtains r where "HandleTaskResults SDFS_GET (map read_result rs) = Inr (Result (read_result r))"
    and "r \<in> set rs" and "\<And>x. x \<in> set rs \<Longrightarrow> fst x \<le> fst r"
proof -
  obtain a as where rs: "rs = a # as" using assms by (cases rs) auto
  obtain r where "r \<in> insert a (set rs)" "latest_loop (map read_result rs) (Some (fst a)) (snd a) = Inr (Some (fst r), snd r)"
    "\<forall>x \<in> insert a (set rs). fst x \<le> fst r" using latest_loop_max [of a rs] by blast
  with that [of r] show ?thesis by (simp add: HandleTaskResults_def rs read_result_def)
qed

lemma ack_loop_eq:
  "int (length acks) \<le> n \<Longrightarrow> ack_loop ty n arrivals acks =
     (if int (length acks + length arrivals) \<ge> n
      then HandleTaskResults ty (acks @ take (nat n - length acks) arrivals) else Inr (timeout_outcome ty))"
proof (induction arrivals arbitrary: acks)
  case Nil
  then show ?case by (subst ack_loop.simps) auto
next
  case (Cons r rs)
  show ?case
  proof (cases "int (length acks) = n")
    case True
    then show ?thesis by (subst ack_loop.simps) auto
  next
    case False
    with Cons.prems have lt: "int (length (acks @ [r])) \<le> n" by simp
    moreover have "nat n - length acks = Suc (nat n - length (acks @ [r]))" using lt by simp
    ultimately show ?thesis using Cons.IH [OF lt] False Cons.prems by (subst ack_loop.simps) auto
  qed
qed

text \<open>Any set of write acknowledgements meets any set of read acknowledgements.\<close>

lemma quorums_meet:
  assumes "distinct reps" "int (length reps) = min REPLICA_COUNT (int (length hr))"
    and "set W \<subseteq> set reps" "distinct W" "GetConsistencyLevel SDFS_PUT hr \<le> int (length W)"
    and "set R \<subseteq> set reps" "distinct R" "GetConsistencyLevel SDFS_GET hr \<le> int (length R)" "hr \<noteq> []"
  shows "set W \<inter> set R \<noteq> {}"
proof
  assume disj: "set W \<inter> set R = {}"
  have "length W + length R = card (set W \<union> set R)"
    using assms(4,7) disj by (simp add: card_Un_disjoint distinct_card)
  also have "\<dots> \<le> length reps"
    using assms(1,3,6) by (metis List.finite_set Un_least card_mono distinct_card)
  finally have le: "int (length W) + int (length R) \<le> int (length reps)" by simp
  have "1 \<le> int (length hr)" using assms(9) by (cases hr) auto
  then show False using le assms(2,5,8)
    by (simp add: GetConsistencyLevel_def READ_CONSISTENCY_def WRITE_CONSISTENCY_def REPLICA_COUNT_def min_def split: if_splits)
qed

lemma RouteTask_get:
  assumes "RouteTask io wio (SDFSGetTask l f n) seq s = Inr (Some (read_result a), s')"
  shows "Read io f n s = Inr (ReadOK (snd a) (fst a), s')"
  using assms by (auto simp: RouteTask_def read_result_def split: sum.splits prod.splits read_response.splits)

lemma GetConsistencyLevel_pos: "hr \<noteq> [] \<Longrightarrow> 1 \<le> GetConsistencyLevel SDFS_GET hr"
  by (cases hr) (auto simp: GetConsistencyLevel_def READ_CONSISTENCY_def)

section \<open>Properties\<close>

text \<open>C32. \<open>ExecuteTask\<close> on a converged ring handles exactly the first acknowledgements it requires, in
  the order of their arrival; with fewer of them before the timeout a read or look-up reports that the
  file is not found and any other task fails. It never waits on.\<close>

theorem execute_task_waits_for_quorum:
  assumes "st \<noteq> NOT_CONVERGED"
  shows "ExecuteTask (Some (st, seq)) task hr arrivals =
    (if int (length arrivals) \<ge> GetConsistencyLevel (GetType task) hr
     then HandleTaskResults (GetType task) (take (nat (GetConsistencyLevel (GetType task) hr)) arrivals)
     else Inr (timeout_outcome (GetType task)))"
proof -
  have "0 \<le> GetConsistencyLevel (GetType task) hr"
    by (simp add: GetConsistencyLevel_def READ_CONSISTENCY_def WRITE_CONSISTENCY_def DELETE_CONSISTENCY_def
        LOOKUP_CONSISTENCY_def REPLICA_COUNT_def split: sdfs_task_type.splits)
  with assms show ?thesis by (simp add: ExecuteTask_def ack_loop_eq)
qed

theorem execute_task_waits_for_quorum_witness:
  "ExecuteTask (Some (OK, None)) (SDFSGetTask ''l'' ''f'' 1) (Refresh [p81]) [] = Inr (Result (SDFSGetTaskResult NOT_FOUND None ''''))"
proof -
  have "GetConsistencyLevel SDFS_GET (Refresh [p81]) = 1" by (simp add: GetConsistencyLevel_def READ_CONSISTENCY_def)
  with execute_task_waits_for_quorum [of OK None "SDFSGetTask ''l'' ''f'' 1" "Refresh [p81]" "[]"] show ?thesis
    by (simp add: timeout_outcome_def)
qed

text \<open>C33. A directory survives the round trip: when no file name has a newline, the listing that \<open>PutDir\<close>
  stores for a non-empty directory makes \<open>DeleteDir\<close> delete exactly the files that were put and then
  the listing itself, and \<open>ValidateDir\<close> look up exactly those files.\<close>

theorem directory_roundtrip:
  assumes "PutDir_files dir names \<noteq> []" and "CHR 0x0A \<notin> set dir" and "\<forall>n \<in> set names. CHR 0x0A \<notin> set n"
  shows "DeleteDir_tasks (PutDir_listing dir names) dir = map SDFSDeleteTask (PutDir_files dir names @ [dir])
    \<and> ValidateDir_tasks (PutDir_listing dir names) = map SDFSListTask (PutDir_files dir names)"
proof -
  have "CHR 0x0A \<notin> set f" if "f \<in> set (PutDir_files dir names)" for f
    using that assms(2,3) by (auto simp: PutDir_files_def)
  then have "split_on (CHR 0x0A) (join [CHR 0x0A] (PutDir_files dir names)) = PutDir_files dir names"
    by (intro split_join) (use assms(1) in auto)
  then show ?thesis by (simp add: DeleteDir_tasks_def ValidateDir_tasks_def PutDir_listing_def)
qed

theorem directory_roundtrip_witness:
  "DeleteDir_tasks (PutDir_listing ''d'' [''x'', ''.DS_Store'', ''y'']) ''d''
    = map SDFSDeleteTask [''d:x'', ''d:y'', ''d'']"
  using directory_roundtrip [of "''d''" "[''x'', ''.DS_Store'', ''y'']"] by (simp add: PutDir_files_def)

text \<open>C40. \<open>ValidateDir\<close> does not end when a listed file is missing: as long as the answer is that the
  file is not found the loop looks the same file up again, so for every number of answers it is still
  running, whatever other files are left.\<close>

theorem validate_dir_never_ends_on_missing_file:
  "ValidateDir_loop (t # ts) (replicate n (Result (SDFSListTaskResults NOT_FOUND []))) = None"
  by (induction n) auto

text \<open>A file whose SDFS name has a slash cannot be fetched under the name it was put: \<open>Put\<close> sends the
  name as it is, \<open>Get\<close> asks for the name with colons, which is a different file.\<close>

theorem put_get_names_differ:
  assumes "CHR ''/'' \<in> set f"
  shows "GetSDFSFile (Put_task l f d p t) \<noteq> GetSDFSFile (Get_task l f n)"
proof -
  have "CHR ''/'' \<notin> set (replace_all (CHR ''/'') (CHR '':'') f)" by (auto simp: replace_all_def)
  with assms show ?thesis by (auto simp: Put_task_def Get_task_def)
qed

theorem put_get_names_differ_witness:
  "GetSDFSFile (Put_task ''l'' ''a/b'' ''x'' p81 0) \<noteq> GetSDFSFile (Get_task ''l'' ''a/b'' 1)"
  by (rule put_get_names_differ) simp

text \<open>The command line: a command printed from its words, which have no blanks, is parsed back into the
  corresponding call.\<close>

theorem command_roundtrip:
  assumes "CHR '' '' \<notin> set a" and "CHR '' '' \<notin> set b"
  shows "ExecuteCommand (join '' '' [''put'', a, b]) = CallPut a b
    \<and> ExecuteCommand (join '' '' [''get'', a, b]) = CallGet b a LATEST_VERSION
    \<and> ExecuteCommand (join '' '' [''putdir'', a, b]) = CallPutDir a b
    \<and> ExecuteCommand (join '' '' [''delete'', a]) = CallDelete a
    \<and> ExecuteCommand (join '' '' [''deldir'', a]) = CallDeleteDir a
    \<and> ExecuteCommand (join '' '' [''ls'', a]) = CallList a
    \<and> ExecuteCommand (join '' '' [''valdir'', a]) = CallValidateDir a"
proof -
  have "split_on (CHR '' '') (join '' '' ws) = ws" if "ws \<noteq> []" "\<forall>w \<in> set ws. CHR '' '' \<notin> set w" for ws
    using that by (intro split_join) auto
  with assms show ?thesis by (simp add: ExecuteCommand_def Let_def del: join.simps)
qed

theorem command_roundtrip_witness: "ExecuteCommand ''put local sdfs'' = CallPut ''local'' ''sdfs''"
  using command_roundtrip [of "''local''" "''sdfs''"] by simp

end
