(* ===== verification/Sdfs_Cluster.thy ===== *)
theory Sdfs_Cluster
  imports Sdfs_Client
begin

text \<open>
  SDFS servers and clients together. Any server can hand out sequence numbers, serve reads and writes, transfer
  files, recycle, converge, see its ring change, and crash and start again with an empty table; requests can be
  delayed, lost, reordered and delivered again, and a local file is written any time after the lock is released.
  A join time is taken never to be given twice, a server hands out fewer than \<open>2 ^ 31\<close> sequence numbers, only
  after it has joined, and no local write is cut short. \<open>sdfs_cluster_reachable\<close> is the set of states.
\<close>

section \<open>State and steps\<close>

text \<open>\<open>SeqReplies\<close>: sequence numbers on their way to a client. \<open>Puts\<close>: the writes clients have asked for, which
  no step reads. \<open>DiskWrites\<close>: local files still to be written. \<open>GetAnswers\<close>: file, version and result.
  \<open>JoinTimes\<close>: the join times given so far.\<close>

record sdfs_cluster =
  sdfs_at :: "string \<Rightarrow> sdfs_server"
  SeqReplies :: "sequence set"
  Puts :: "write_request set"
  WriteRequests :: "write_request set"
  DiskWrites :: "(string \<times> string \<times> bytes) set"
  GetAnswers :: "(string \<times> int \<times> task_result) set"
  JoinTimes :: "time set"

definition put_sdfs :: "string \<Rightarrow> sdfs_server \<Rightarrow> sdfs_cluster \<Rightarrow> sdfs_cluster" where
  "put_sdfs a s k = k\<lparr>sdfs_at := (sdfs_at k)(a := s)\<rparr>"

abbreviation join_time :: "sdfs_server \<Rightarrow> time" where "join_time s \<equiv> joinTime (rs_Process (srv_Ring s))"

text \<open>A process that starts again finds the files of its directory when they cannot be removed.\<close>

definition restarted :: "bool \<Rightarrow> string \<Rightarrow> int \<Rightarrow> sdfs_server \<Rightarrow> sdfs_server" where
  "restarted cleared host port0 s = ClearSDFSFiles cleared ((NewSDFSServer (NewRingServer host port0))\<lparr>disk := disk s\<rparr>)"

inductive sdfs_cluster_reachable :: "sdfs_cluster \<Rightarrow> bool" where
  boot: "(\<And>a. \<exists>host port0. sdfs_at k a = NewSDFSServer (NewRingServer host port0)) \<Longrightarrow> SeqReplies k = {} \<Longrightarrow> Puts k = {}
    \<Longrightarrow> WriteRequests k = {} \<Longrightarrow> DiskWrites k = {} \<Longrightarrow> GetAnswers k = {} \<Longrightarrow> JoinTimes k = {} \<Longrightarrow> sdfs_cluster_reachable k"
| restart: "sdfs_cluster_reachable k \<Longrightarrow> sdfs_cluster_reachable (put_sdfs a (restarted cleared host port0 (sdfs_at k a)) k)"
| ring: "sdfs_cluster_reachable k \<Longrightarrow> joinTime (rs_Process r) = join_time (sdfs_at k a)
    \<Longrightarrow> sdfs_cluster_reachable (put_sdfs a ((sdfs_at k a)\<lparr>srv_Ring := r\<rparr>) k)"
| joined: "sdfs_cluster_reachable k \<Longrightarrow> joinTime (rs_Process r) \<noteq> 0 \<Longrightarrow> joinTime (rs_Process r) \<notin> JoinTimes k
    \<Longrightarrow> sdfs_cluster_reachable (put_sdfs a ((sdfs_at k a)\<lparr>srv_Ring := r\<rparr>) (k\<lparr>JoinTimes := insert (joinTime (rs_Process r)) (JoinTimes k)\<rparr>))"
| update: "sdfs_cluster_reachable k \<Longrightarrow> sdfs_cluster_reachable (put_sdfs a (OnMemberUpdate action p (sdfs_at k a)) k)"
| fetch: "sdfs_cluster_reachable k \<Longrightarrow> join_time (sdfs_at k a) \<noteq> 0 \<Longrightarrow> SeqCounter (sdfs_at k a) + 1 < 2 ^ 31
    \<Longrightarrow> FetchSequence (sdfs_at k a) = ((st, seq), s')
    \<Longrightarrow> sdfs_cluster_reachable (put_sdfs a s' (k\<lparr>SeqReplies := set_option seq \<union> SeqReplies k\<rparr>))"
| put: "sdfs_cluster_reachable k \<Longrightarrow> req_Seq req \<in> SeqReplies k
    \<Longrightarrow> sdfs_cluster_reachable (k\<lparr>SeqReplies := SeqReplies k - {req_Seq req}, Puts := insert req (Puts k),
          WriteRequests := insert req (WriteRequests k)\<rparr>)"
| serve_write: "sdfs_cluster_reachable k \<Longrightarrow> req \<in> WriteRequests k \<Longrightarrow> Write_locked req (sdfs_at k a) = Inr (name, s')
    \<Longrightarrow> sdfs_cluster_reachable (put_sdfs a s' (k\<lparr>DiskWrites := (\<lambda>n. (a, n, req_Data req)) ` set_option name \<union> DiskWrites k\<rparr>))"
| disk_write: "sdfs_cluster_reachable k \<Longrightarrow> (a, name, data) \<in> DiskWrites k \<Longrightarrow> \<forall>p. io \<noteq> WriteFails p
    \<Longrightarrow> sdfs_cluster_reachable (put_sdfs a (snd (WriteSDFSFile io name data (sdfs_at k a))) k)"
| transfer: "sdfs_cluster_reachable k \<Longrightarrow> req \<in> set (transfer_requests rio files (sdfs_at k a))
    \<Longrightarrow> sdfs_cluster_reachable (k\<lparr>WriteRequests := insert req (WriteRequests k)\<rparr>)"
| serve_get: "sdfs_cluster_reachable k \<Longrightarrow> 1 \<le> n \<Longrightarrow> RouteTask rio wio (SDFSGetTask l f n) seq (sdfs_at k a) = Inr (answer, s')
    \<Longrightarrow> sdfs_cluster_reachable (put_sdfs a s' (k\<lparr>GetAnswers := (\<lambda>r. (f, n, r)) ` set_option answer \<union> GetAnswers k\<rparr>))"
| serve_delete: "sdfs_cluster_reachable k \<Longrightarrow> sdfs_cluster_reachable (put_sdfs a (snd (Delete f (sdfs_at k a))) k)"
| recycle: "sdfs_cluster_reachable k \<Longrightarrow> Recycle rio (sdfs_at k a) = Inr s' \<Longrightarrow> sdfs_cluster_reachable (put_sdfs a s' k)"
| converge: "sdfs_cluster_reachable k \<Longrightarrow> Converge_plan (sdfs_at k a) = Some (plan, s') \<Longrightarrow> sdfs_cluster_reachable (put_sdfs a s' k)"
| converged: "sdfs_cluster_reachable k \<Longrightarrow> sdfs_cluster_reachable (put_sdfs a (Converge_end (sdfs_at k a)) k)"
| clear: "sdfs_cluster_reachable k \<Longrightarrow> sdfs_cluster_reachable (put_sdfs a (ClearSDFSFiles cleared (sdfs_at k a)) k)"

section \<open>Invariant\<close>

abbreviation local_name :: "write_request \<Rightarrow> string" where "local_name req \<equiv> ConcatFilename (req_Filename req) (req_Seq req)"

text \<open>Everything a server, a message or an answer holds was put by a client under its name.\<close>

definition contents_ok :: "(string \<rightharpoonup> bytes) \<Rightarrow> sdfs_cluster \<Rightarrow> bool" where
  "contents_ok w k \<longleftrightarrow>
     (\<forall>a. server_inv w (sdfs_at k a))
     \<and> (\<forall>req \<in> WriteRequests k. w (local_name req) = Some (req_Data req))
     \<and> (\<forall>(a, name, data) \<in> DiskWrites k. w name = Some data)
     \<and> (\<forall>(f, n, r) \<in> GetAnswers k. \<exists>q d. r = read_result (q, d) \<and> w (ConcatFilename f q) = Some d)
     \<and> (\<forall>name data. w name = Some data \<longrightarrow> (\<exists>req \<in> Puts k. name = local_name req \<and> data = req_Data req))"

text \<open>A sequence number is handed out once and used once.\<close>

definition handed_out :: "sdfs_cluster \<Rightarrow> sequence set" where
  "handed_out k = SeqReplies k \<union> req_Seq ` Puts k"

definition counters_ok :: "(string \<Rightarrow> time) \<Rightarrow> (string \<Rightarrow> int) \<Rightarrow> sequence set \<Rightarrow> time set \<Rightarrow> bool" where
  "counters_ok t c Q T \<longleftrightarrow>
     (\<forall>a. 0 \<le> c a \<and> (t a = 0 \<or> t a \<in> T)) \<and> (\<forall>a b. t a = t b \<longrightarrow> t a = 0 \<or> a = b)
     \<and> (\<forall>q \<in> Q. seq_time q \<noteq> 0 \<and> seq_time q \<in> T \<and> (\<forall>a. seq_time q = t a \<longrightarrow> seq_count q \<le> c a))"

definition sequences_ok :: "sdfs_cluster \<Rightarrow> bool" where
  "sequences_ok k \<longleftrightarrow> inj_on req_Seq (Puts k) \<and> SeqReplies k \<inter> req_Seq ` Puts k = {}
     \<and> counters_ok (\<lambda>a. join_time (sdfs_at k a)) (\<lambda>a. SeqCounter (sdfs_at k a)) (handed_out k) (JoinTimes k)"

definition sdfs_cluster_inv :: "sdfs_cluster \<Rightarrow> bool" where
  "sdfs_cluster_inv k \<longleftrightarrow> sequences_ok k \<and> (\<exists>w. contents_ok w k)"

lemma contents_ok_server: "contents_ok w k \<Longrightarrow> server_inv w s \<Longrightarrow> contents_ok w (put_sdfs a s k)"
  by (simp add: contents_ok_def put_sdfs_def)

definition same_clock :: "sdfs_server \<Rightarrow> sdfs_server \<Rightarrow> bool" where
  "same_clock s s' \<longleftrightarrow> join_time s' = join_time s \<and> SeqCounter s' = SeqCounter s"

lemma sequences_ok_server:
  assumes "sequences_ok k" and "same_clock (sdfs_at k a) s"
  shows "sequences_ok (put_sdfs a s k)"
proof -
  have "(\<lambda>b. join_time (sdfs_at (put_sdfs a s k) b)) = (\<lambda>b. join_time (sdfs_at k b))"
    "(\<lambda>b. SeqCounter (sdfs_at (put_sdfs a s k) b)) = (\<lambda>b. SeqCounter (sdfs_at k b))"
    using assms(2) by (auto simp: put_sdfs_def same_clock_def)
  with assms(1) show ?thesis by (simp add: sequences_ok_def handed_out_def) (simp add: put_sdfs_def)
qed

lemma sdfs_cluster_inv_server:
  assumes "sdfs_cluster_inv k" and "\<And>w. server_inv w (sdfs_at k a) \<Longrightarrow> server_inv w s" and "same_clock (sdfs_at k a) s"
  shows "sdfs_cluster_inv (put_sdfs a s k)"
proof -
  obtain w where w: "contents_ok w k" using assms(1) by (auto simp: sdfs_cluster_inv_def)
  then have "server_inv w s" using assms(2) by (simp add: contents_ok_def)
  with w have "contents_ok w (put_sdfs a s k)" by (rule contents_ok_server)
  with assms(1,3) show ?thesis by (auto simp: sdfs_cluster_inv_def sequences_ok_server)
qed

text \<open>Operations of a server that leave its process and its counter alone.\<close>

lemma same_clock_refl [simp]: "same_clock s s"
  by (simp add: same_clock_def)

lemma same_clock_Write_locked: "Write_locked req s = Inr (name, s') \<Longrightarrow> same_clock s s'"
  by (auto simp: Write_locked_def Let_def same_clock_def split: prod.splits option.splits if_splits sum.splits)

lemma same_clock_Read: "Read io f n s = Inr (r, s') \<Longrightarrow> same_clock s s'"
  by (auto simp: Read_def Let_def same_clock_def split: sum.splits prod.splits option.splits if_splits)

lemma same_clock_WriteSDFSFile: "same_clock s (snd (WriteSDFSFile io name data s))"
  by (simp add: WriteSDFSFile_def same_clock_def split: write_io.splits)

lemma same_clock_fold_Recycle_file: "same_clock s (fold Recycle_file fs s)"
  by (induction fs arbitrary: s) (auto simp: same_clock_def Recycle_file_def Let_def)

lemma same_clock_Recycle:
  assumes "Recycle io s = Inr s'"
  shows "same_clock s s'"
proof -
  obtain s1 where 1: "Recycle_pool io s = Inr s1" using assms by (auto simp: Recycle_def split: sum.splits)
  then have "same_clock s s1" by (auto simp: Recycle_pool_def DeleteSDFSFile_def same_clock_def split: if_splits sum.splits)
  moreover have "same_clock s1 s'"
    using assms 1 same_clock_fold_Recycle_file [of "s1\<lparr>HashRing := Refresh (members (srv_Ring s1))\<rparr>" "GetStoredFiles (FileTable s1)"]
    by (auto simp: Recycle_def Let_def same_clock_def split: if_splits)
  ultimately show ?thesis by (simp add: same_clock_def)
qed

section \<open>Every step keeps the invariant\<close>

lemma counters_ok_count: "counters_ok t c Q T \<Longrightarrow> q \<in> Q \<Longrightarrow> seq_time q = t a \<Longrightarrow> seq_count q \<le> c a"
  by (simp add: counters_ok_def)

lemma counters_ok_restart: "counters_ok t c Q T \<Longrightarrow> counters_ok (t(a := 0)) (c(a := 0)) Q T"
  by (auto simp: counters_ok_def)

lemma counters_ok_joined:
  "counters_ok t c Q T \<Longrightarrow> n \<noteq> 0 \<Longrightarrow> n \<notin> T \<Longrightarrow> counters_ok (t(a := n)) c Q (insert n T)"
  by (auto simp: counters_ok_def)

lemma counters_ok_fetch:
  "counters_ok t c Q T \<Longrightarrow> t a \<noteq> 0 \<Longrightarrow> counters_ok t (c(a := c a + 1)) (insert (Sequence (t a) (c a + 1)) Q) T"
  by (auto simp: counters_ok_def) force+

lemma clocks_put_sdfs:
  "(\<lambda>b. join_time (sdfs_at (put_sdfs a s k) b)) = (\<lambda>b. join_time (sdfs_at k b))(a := join_time s)"
  "(\<lambda>b. SeqCounter (sdfs_at (put_sdfs a s k) b)) = (\<lambda>b. SeqCounter (sdfs_at k b))(a := SeqCounter s)"
  by (auto simp: put_sdfs_def)

lemma put_sdfs_others [simp]:
  "SeqReplies (put_sdfs a s k) = SeqReplies k" "Puts (put_sdfs a s k) = Puts k" "WriteRequests (put_sdfs a s k) = WriteRequests k"
  "DiskWrites (put_sdfs a s k) = DiskWrites k" "GetAnswers (put_sdfs a s k) = GetAnswers k" "JoinTimes (put_sdfs a s k) = JoinTimes k"
  "handed_out (put_sdfs a s k) = handed_out k"
  by (simp_all add: put_sdfs_def handed_out_def)

lemma restarted_inv: "server_inv w s \<Longrightarrow> server_inv w (restarted cleared host port0 s)"
  using NewSDFSServer_inv [of w "NewRingServer host port0"] by (auto simp: restarted_def ClearSDFSFiles_def server_inv_def)

lemma restart_ok:
  assumes "sdfs_cluster_inv k"
  shows "sdfs_cluster_inv (put_sdfs a (restarted cleared host port0 (sdfs_at k a)) k)"
proof -
  let ?s = "restarted cleared host port0 (sdfs_at k a)"
  have "join_time ?s = 0" "SeqCounter ?s = 0" by (simp_all add: restarted_def ClearSDFSFiles_def NewSDFSServer_def NewRingServer_def)
  then have "sequences_ok (put_sdfs a ?s k)"
    using assms counters_ok_restart by (simp add: sdfs_cluster_inv_def sequences_ok_def clocks_put_sdfs)
  moreover obtain w where "contents_ok w k" using assms by (auto simp: sdfs_cluster_inv_def)
  then have "contents_ok w (put_sdfs a ?s k)" by (intro contents_ok_server restarted_inv) (simp_all add: contents_ok_def)
  ultimately show ?thesis by (auto simp: sdfs_cluster_inv_def)
qed

lemma ring_frame: "server_inv w s \<Longrightarrow> server_inv w (s\<lparr>srv_Ring := r\<rparr>)"
  using server_inv_frame [of w s "s\<lparr>srv_Ring := r\<rparr>"] by simp

lemma joined_ok:
  assumes "sdfs_cluster_inv k" and "joinTime (rs_Process r) \<noteq> 0" and "joinTime (rs_Process r) \<notin> JoinTimes k"
  shows "sdfs_cluster_inv (put_sdfs a ((sdfs_at k a)\<lparr>srv_Ring := r\<rparr>) (k\<lparr>JoinTimes := insert (joinTime (rs_Process r)) (JoinTimes k)\<rparr>))"
proof -
  let ?s = "(sdfs_at k a)\<lparr>srv_Ring := r\<rparr>" let ?k = "k\<lparr>JoinTimes := insert (joinTime (rs_Process r)) (JoinTimes k)\<rparr>"
  have "(\<lambda>b. SeqCounter (sdfs_at k b))(a := SeqCounter (sdfs_at k a)) = (\<lambda>b. SeqCounter (sdfs_at k b))" by auto
  moreover have "handed_out ?k = handed_out k" by (simp add: handed_out_def)
  ultimately have "sequences_ok (put_sdfs a ?s ?k)"
    using assms counters_ok_joined by (simp add: sdfs_cluster_inv_def sequences_ok_def clocks_put_sdfs)
  moreover obtain w where "contents_ok w k" using assms(1) by (auto simp: sdfs_cluster_inv_def)
  then have "contents_ok w (put_sdfs a ?s ?k)" by (intro contents_ok_server ring_frame) (simp_all add: contents_ok_def)
  ultimately show ?thesis by (auto simp: sdfs_cluster_inv_def)
qed

lemma fetch_ok:
  assumes "sdfs_cluster_inv k" and "join_time (sdfs_at k a) \<noteq> 0" and "SeqCounter (sdfs_at k a) + 1 < 2 ^ 31"
    and run: "FetchSequence (sdfs_at k a) = ((st, seq), s')"
  shows "sdfs_cluster_inv (put_sdfs a s' (k\<lparr>SeqReplies := set_option seq \<union> SeqReplies k\<rparr>))"
proof (cases "stable (sdfs_at k a)")
  case False
  then have "seq = None" "s' = sdfs_at k a" using run by (simp_all add: FetchSequence_def)
  with assms(1) sdfs_cluster_inv_server [of k a "sdfs_at k a"] show ?thesis by simp
next
  case True
  let ?q = "Sequence (join_time (sdfs_at k a)) (SeqCounter (sdfs_at k a) + 1)"
  let ?k = "k\<lparr>SeqReplies := insert ?q (SeqReplies k)\<rparr>"
  have c: "counters_ok (\<lambda>b. join_time (sdfs_at k b)) (\<lambda>b. SeqCounter (sdfs_at k b)) (handed_out k) (JoinTimes k)"
    using assms(1) by (simp add: sdfs_cluster_inv_def sequences_ok_def)
  then have s': "seq = Some ?q" "s' = (sdfs_at k a)\<lparr>SeqCounter := SeqCounter (sdfs_at k a) + 1\<rparr>"
    using run True assms(3) by (auto simp: FetchSequence_def Let_def to_int32_id counters_ok_def)
  have "?q \<notin> handed_out k" using counters_ok_count [OF c, of ?q a] by auto
  moreover have "handed_out ?k = insert ?q (handed_out k)" by (simp add: handed_out_def)
  moreover have "(\<lambda>b. join_time (sdfs_at k b))(a := join_time (sdfs_at k a)) = (\<lambda>b. join_time (sdfs_at k b))" by auto
  ultimately have "sequences_ok (put_sdfs a s' ?k)"
    using assms(1) counters_ok_fetch [OF c assms(2)]
    by (simp add: sdfs_cluster_inv_def sequences_ok_def clocks_put_sdfs s') (auto simp: handed_out_def)
  moreover obtain w where w: "contents_ok w k" using assms(1) by (auto simp: sdfs_cluster_inv_def)
  then have "server_inv w s'" using server_inv_frame [of w "sdfs_at k a" s'] by (simp add: contents_ok_def s')
  with w have "contents_ok w (put_sdfs a s' ?k)" by (intro contents_ok_server) (simp_all add: contents_ok_def)
  ultimately show ?thesis by (auto simp: sdfs_cluster_inv_def s'(1))
qed

text \<open>A client's write has a new local name.\<close>

lemma put_ok:
  assumes "sdfs_cluster_inv k" and q: "req_Seq req \<in> SeqReplies k"
  shows "sdfs_cluster_inv (k\<lparr>SeqReplies := SeqReplies k - {req_Seq req}, Puts := insert req (Puts k), WriteRequests := insert req (WriteRequests k)\<rparr>)"
    (is "sdfs_cluster_inv ?k")
proof -
  obtain w where w: "contents_ok w k" using assms(1) by (auto simp: sdfs_cluster_inv_def)
  have s: "sequences_ok k" using assms(1) by (simp add: sdfs_cluster_inv_def)
  have new: "req_Seq req \<notin> req_Seq ` Puts k" using s q by (auto simp: sequences_ok_def)
  have "handed_out ?k = handed_out k" using q by (auto simp: handed_out_def)
  then have "sequences_ok ?k" using s new by (auto simp: sequences_ok_def inj_on_insert)
  moreover have "w (local_name req) = None"
  proof (cases "w (local_name req)")
    case (Some d)
    moreover have "\<forall>name data. w name = Some data \<longrightarrow> (\<exists>req \<in> Puts k. name = local_name req \<and> data = req_Data req)"
      using w by (simp add: contents_ok_def)
    ultimately obtain req' where "req' \<in> Puts k" "local_name req = local_name req'" by blast
    with new show ?thesis by (auto simp: ConcatFilename_eq)
  qed
  then have keep: "server_inv w s \<Longrightarrow> server_inv (w(local_name req \<mapsto> req_Data req)) s" "w name = Some d \<Longrightarrow> (w(local_name req \<mapsto> req_Data req)) name = Some d" for s name d
    by (auto intro: server_inv_written)
  have "contents_ok (w(local_name req \<mapsto> req_Data req)) ?k"
    unfolding contents_ok_def
  proof (intro conjI)
    show "\<forall>(f, n, r) \<in> GetAnswers ?k. \<exists>q d. r = read_result (q, d) \<and> (w(local_name req \<mapsto> req_Data req)) (ConcatFilename f q) = Some d"
      using w keep(2) by (fastforce simp: contents_ok_def simp del: fun_upd_apply)
    show "\<forall>name data. (w(local_name req \<mapsto> req_Data req)) name = Some data \<longrightarrow> (\<exists>r \<in> Puts ?k. name = local_name r \<and> data = req_Data r)"
      using w by (auto simp: contents_ok_def)
  qed (use w keep in \<open>auto simp: contents_ok_def simp del: fun_upd_apply\<close>, simp)
  ultimately show ?thesis by (auto simp: sdfs_cluster_inv_def)
qed

lemma transfer_ok:
  assumes "sdfs_cluster_inv k" and "req \<in> set (transfer_requests rio files (sdfs_at k a))"
  shows "sdfs_cluster_inv (k\<lparr>WriteRequests := insert req (WriteRequests k)\<rparr>)"
proof -
  obtain w where w: "contents_ok w k" using assms(1) by (auto simp: sdfs_cluster_inv_def)
  then have "w (local_name req) = Some (req_Data req)" using transfer_requests_written [OF _ assms(2)] by (simp add: contents_ok_def)
  with w have "contents_ok w (k\<lparr>WriteRequests := insert req (WriteRequests k)\<rparr>)" by (simp add: contents_ok_def)
  with assms(1) show ?thesis by (auto simp: sdfs_cluster_inv_def sequences_ok_def handed_out_def)
qed

lemma serve_write_ok:
  assumes "sdfs_cluster_inv k" and req: "req \<in> WriteRequests k" and run: "Write_locked req (sdfs_at k a) = Inr (name, s')"
  shows "sdfs_cluster_inv (put_sdfs a s' (k\<lparr>DiskWrites := (\<lambda>n. (a, n, req_Data req)) ` set_option name \<union> DiskWrites k\<rparr>))"
    (is "sdfs_cluster_inv (put_sdfs a s' ?k)")
proof -
  obtain w where w: "contents_ok w k" using assms(1) by (auto simp: sdfs_cluster_inv_def)
  have name: "w (local_name req) = Some (req_Data req)" using w req by (simp add: contents_ok_def)
  then have same: "w(local_name req \<mapsto> req_Data req) = w" by auto
  have "server_inv w s' \<and> name \<in> {None, Some (local_name req)}"
    using Write_locked_inv [of w "sdfs_at k a" req] w name run by (auto simp: contents_ok_def same)
  with w name have "contents_ok w ?k" "server_inv w s'" by (auto simp: contents_ok_def)
  then have "contents_ok w (put_sdfs a s' ?k)" by (rule contents_ok_server)
  moreover have "sequences_ok ?k" using assms(1) by (simp add: sdfs_cluster_inv_def sequences_ok_def handed_out_def)
  then have "sequences_ok (put_sdfs a s' ?k)" by (rule sequences_ok_server) (simp add: same_clock_Write_locked [OF run])
  ultimately show ?thesis by (auto simp: sdfs_cluster_inv_def)
qed

lemma disk_write_ok:
  assumes "sdfs_cluster_inv k" and "(a, name, data) \<in> DiskWrites k" and "\<forall>p. io \<noteq> WriteFails p"
  shows "sdfs_cluster_inv (put_sdfs a (snd (WriteSDFSFile io name data (sdfs_at k a))) k)"
proof -
  obtain w where w: "contents_ok w k" using assms(1) by (auto simp: sdfs_cluster_inv_def)
  then have "server_inv w (sdfs_at k a)" "w name = Some data" using assms(2) by (auto simp: contents_ok_def)
  from WriteSDFSFile_inv [OF this assms(3)] w have "contents_ok w (put_sdfs a (snd (WriteSDFSFile io name data (sdfs_at k a))) k)"
    by (intro contents_ok_server)
  then show ?thesis using assms(1) sequences_ok_server [OF _ same_clock_WriteSDFSFile] by (auto simp: sdfs_cluster_inv_def)
qed

lemma serve_get_ok:
  assumes "sdfs_cluster_inv k" and "1 \<le> n" and run: "RouteTask rio wio (SDFSGetTask l f n) seq (sdfs_at k a) = Inr (answer, s')"
  shows "sdfs_cluster_inv (put_sdfs a s' (k\<lparr>GetAnswers := (\<lambda>r. (f, n, r)) ` set_option answer \<union> GetAnswers k\<rparr>))"
    (is "sdfs_cluster_inv (put_sdfs a s' ?k)")
proof -
  obtain w where w: "contents_ok w k" using assms(1) by (auto simp: sdfs_cluster_inv_def)
  then have inv: "server_inv w (sdfs_at k a)" by (simp add: contents_ok_def)
  obtain r where r: "Read rio f n (sdfs_at k a) = Inr (r, s')" "server_inv w s'" "\<forall>d q. r = ReadOK d q \<longrightarrow> w (ConcatFilename f q) = Some d"
    using run Read_inv [OF inv assms(2), of rio f] by (auto simp: RouteTask_def split: read_response.splits)
  have "\<exists>q d. x = read_result (q, d) \<and> w (ConcatFilename f q) = Some d" if "answer = Some x" for x
    using run r(1,3) that by (auto simp: RouteTask_def read_result_def split: read_response.splits)
  then have "contents_ok w ?k" using w by (auto simp: contents_ok_def)
  then have "contents_ok w (put_sdfs a s' ?k)" using r(2) by (rule contents_ok_server)
  moreover have "sequences_ok ?k" using assms(1) by (simp add: sdfs_cluster_inv_def sequences_ok_def handed_out_def)
  then have "sequences_ok (put_sdfs a s' ?k)" by (rule sequences_ok_server) (simp add: same_clock_Read [OF r(1)])
  ultimately show ?thesis by (auto simp: sdfs_cluster_inv_def)
qed

lemma sdfs_cluster_reachable_inv: "sdfs_cluster_reachable k \<Longrightarrow> sdfs_cluster_inv k"
proof (induction rule: sdfs_cluster_reachable.induct)
  case (boot k)
  have "join_time (sdfs_at k a) = 0 \<and> SeqCounter (sdfs_at k a) = 0 \<and> server_inv Map.empty (sdfs_at k a)" for a
    using boot(1) [of a] NewSDFSServer_inv [of Map.empty] by (auto simp: NewSDFSServer_def NewRingServer_def)
  then show ?case using boot(2-) by (auto simp: sdfs_cluster_inv_def sequences_ok_def contents_ok_def counters_ok_def handed_out_def)
next
  case (ring k r a)
  then show ?case by (intro sdfs_cluster_inv_server) (simp_all add: ring_frame same_clock_def)
next
  case (update k a action p)
  then show ?case using sdfs_step_inv [OF sdfs_step.update]
    by (intro sdfs_cluster_inv_server) (simp_all add: same_clock_def, simp_all add: OnMemberUpdate_def)
next
  case (serve_delete k a f)
  then show ?case using sdfs_step_inv [OF sdfs_step.delete]
    by (intro sdfs_cluster_inv_server) (simp_all add: same_clock_def, simp_all add: Delete_def)
next
  case (recycle k rio a s')
  then show ?case using sdfs_step_inv [OF sdfs_step.recycle] by (intro sdfs_cluster_inv_server) (auto intro: same_clock_Recycle)
next
  case (converge k a plan s')
  then show ?case using sdfs_step_inv [OF sdfs_step.plan]
    by (intro sdfs_cluster_inv_server) (auto simp: same_clock_def Converge_plan_def Let_def split: if_splits)
next
  case (converged k a)
  then show ?case using sdfs_step_inv [OF sdfs_step.converged]
    by (intro sdfs_cluster_inv_server) (simp_all add: same_clock_def, simp_all add: Converge_end_def)
next
  case (clear k a cleared)
  then show ?case using sdfs_step_inv [OF sdfs_step.clear]
    by (intro sdfs_cluster_inv_server) (simp_all add: same_clock_def, simp_all add: ClearSDFSFiles_def)
next
  case restart
  show ?case by (rule restart_ok [OF restart(2)])
next
  case joined
  show ?case by (rule joined_ok [OF joined(4) joined(2,3)])
next
  case fetch
  show ?case by (rule fetch_ok [OF fetch(5) fetch(2-4)])
next
  case put
  show ?case by (rule put_ok [OF put(3) put(2)])
next
  case serve_write
  show ?case by (rule serve_write_ok [OF serve_write(4) serve_write(2,3)])
next
  case disk_write
  show ?case by (rule disk_write_ok [OF disk_write(4) disk_write(2,3)])
next
  case transfer
  show ?case by (rule transfer_ok [OF transfer(3) transfer(2)])
next
  case serve_get
  show ?case by (rule serve_get_ok [OF serve_get(4) serve_get(2,3)])
qed

section \<open>What a client reads is what a client put\<close>

lemma ExecuteTask_get:
  assumes "set arrivals \<subseteq> range read_result"
  shows "\<exists>out. ExecuteTask fetched (SDFSGetTask l f n) hr arrivals = Inr out
    \<and> (\<forall>st seq data. out = Result (SDFSGetTaskResult st (Some seq) data) \<longrightarrow> read_result (seq, data) \<in> set arrivals)"
proof -
  let ?m = "GetConsistencyLevel SDFS_GET hr"
  obtain rs where rs: "arrivals = map read_result rs" using assms by (metis ex_map_conv rangeE subsetD)
  have "0 \<le> ?m" by (simp add: GetConsistencyLevel_def READ_CONSISTENCY_def)
  then have loop: "ack_loop SDFS_GET ?m arrivals [] =
      (if ?m \<le> int (length arrivals) then HandleTaskResults SDFS_GET (map read_result (take (nat ?m) rs)) else Inr (timeout_outcome SDFS_GET))"
    by (simp add: ack_loop_eq rs take_map)
  have handle: "\<exists>out. HandleTaskResults SDFS_GET (map read_result xs) = Inr out
      \<and> (\<forall>st seq data. out = Result (SDFSGetTaskResult st (Some seq) data) \<longrightarrow> (seq, data) \<in> set xs)" for xs
  proof (cases "xs = []")
    case False
    from HandleTaskResults_get [OF this] obtain r where "HandleTaskResults SDFS_GET (map read_result xs) = Inr (Result (read_result r))" "r \<in> set xs"
      by blast
    then show ?thesis by (auto simp: read_result_def)
  qed (simp add: HandleTaskResults_def)
  have "\<exists>out. ack_loop SDFS_GET ?m arrivals [] = Inr out
      \<and> (\<forall>st seq data. out = Result (SDFSGetTaskResult st (Some seq) data) \<longrightarrow> read_result (seq, data) \<in> set arrivals)"
    unfolding loop using handle [of "take (nat ?m) rs"] by (auto simp: rs timeout_outcome_def dest!: in_set_takeD)
  then show ?thesis by (auto simp: ExecuteTask_def split: option.splits)
qed

text \<open>The answer of one server stems from the one put that was given its sequence number.\<close>

abbreviation the_put :: "string \<Rightarrow> sequence \<Rightarrow> bytes \<Rightarrow> sdfs_cluster \<Rightarrow> bool" where
  "the_put f seq data k \<equiv> \<exists>wid. {req \<in> Puts k. req_Seq req = seq} = {\<lparr>req_Filename = f, req_Data = data, req_WriteId = wid, req_Seq = seq\<rparr>}"

lemma answers_are_puts:
  assumes reach: "sdfs_cluster_reachable k" and answer: "(f, n, r) \<in> GetAnswers k"
  obtains q d where "r = read_result (q, d)" and "the_put f q d k"
proof -
  obtain w where w: "contents_ok w k" and inj: "inj_on req_Seq (Puts k)"
    using sdfs_cluster_reachable_inv [OF reach] by (auto simp: sdfs_cluster_inv_def sequences_ok_def)
  obtain q d where r: "r = read_result (q, d)" "w (ConcatFilename f q) = Some d"
    using w answer by (auto simp: contents_ok_def)
  have "\<forall>name data. w name = Some data \<longrightarrow> (\<exists>req \<in> Puts k. name = local_name req \<and> data = req_Data req)"
    using w by (simp add: contents_ok_def)
  with r(2) obtain req where req: "req \<in> Puts k" "ConcatFilename f q = local_name req" "d = req_Data req" by blast
  then have "{x \<in> Puts k. req_Seq x = q} = {req}" using inj_onD [OF inj] by (auto simp: ConcatFilename_eq)
  moreover have "req = \<lparr>req_Filename = f, req_Data = d, req_WriteId = req_WriteId req, req_Seq = q\<rparr>"
    using req(2,3) by (simp add: ConcatFilename_eq)
  ultimately show thesis using that [OF r(1)] by metis
qed

text \<open>An answer given now, without waiting for the step that records it.\<close>

lemma answer_now_is_put:
  assumes reach: "sdfs_cluster_reachable k" and "1 \<le> n"
    and run: "RouteTask rio wio (SDFSGetTask l f n) seq (sdfs_at k a) = Inr (Some (read_result (q, d)), s')"
  shows "the_put f q d k"
proof -
  from sdfs_cluster_reachable.serve_get [OF reach assms(2) run]
  obtain q' d' where "read_result (q, d) = read_result (q', d')" "the_put f q' d' k"
    by (rule answers_are_puts [where f = f and n = n and r = "read_result (q, d)"]) auto
  then show ?thesis by (simp add: read_result_def)
qed


text \<open>One server that has joined; a client puts a file and gets it.\<close>

definition lone_sdfs :: "sdfs_server \<Rightarrow> sequence set \<Rightarrow> write_request set \<Rightarrow> (string \<times> string \<times> bytes) set \<Rightarrow> (string \<times> int \<times> task_result) set
    \<Rightarrow> time set \<Rightarrow> sdfs_cluster" where
  "lone_sdfs s Q P D G T = \<lparr>sdfs_at = (\<lambda>_. example_server)((Address p81) := s), SeqReplies = Q, Puts = P, WriteRequests = P, DiskWrites = D,
     GetAnswers = G, JoinTimes = T\<rparr>"

lemma lone_sdfs_simps [simp]:
  "sdfs_at (lone_sdfs s Q P D G T) (Address p81) = s" "put_sdfs (Address p81) s' (lone_sdfs s Q P D G T) = lone_sdfs s' Q P D G T"
  "SeqReplies (lone_sdfs s Q P D G T) = Q" "Puts (lone_sdfs s Q P D G T) = P" "WriteRequests (lone_sdfs s Q P D G T) = P"
  "DiskWrites (lone_sdfs s Q P D G T) = D" "GetAnswers (lone_sdfs s Q P D G T) = G" "JoinTimes (lone_sdfs s Q P D G T) = T"
  "(lone_sdfs s Q P D G T)\<lparr>SeqReplies := Q'\<rparr> = lone_sdfs s Q' P D G T"
  "(lone_sdfs s Q P D G T)\<lparr>Puts := P', WriteRequests := P'\<rparr> = lone_sdfs s Q P' D G T"
  "(lone_sdfs s Q P D G T)\<lparr>DiskWrites := D'\<rparr> = lone_sdfs s Q P D' G T"
  "(lone_sdfs s Q P D G T)\<lparr>GetAnswers := G'\<rparr> = lone_sdfs s Q P D G' T"
  "(lone_sdfs s Q P D G T)\<lparr>JoinTimes := T'\<rparr> = lone_sdfs s Q P D G T'"
  by (simp_all add: lone_sdfs_def put_sdfs_def)

lemma lone_sdfs_run:
  obtains s s' where "sdfs_cluster_reachable (lone_sdfs s {} {example_request} {(Address p81, local_name example_request, ''data'')} {} {1})"
    and "ft_at (FileTable s) ''f'' = [fv_of example_request]"
    and "RouteTask True WriteDone (SDFSGetTask ''l'' ''f'' LATEST_VERSION) (Sequence 1 1) s = Inr (Some (read_result (Sequence 1 1, ''data'')), s')"
    and "sdfs_cluster_reachable (lone_sdfs s' {} {example_request} {(Address p81, local_name example_request, ''data'')}
      {(''f'', LATEST_VERSION, read_result (Sequence 1 1, ''data''))} {1})"
proof -
  let ?k = "local_name example_request" and ?w = "[local_name example_request \<mapsto> ''data'']"
  let ?ring = "fst (Join_alone 1 1 (NewRingServer ''vm1'' 5000))"
  let ?s0 = "example_server\<lparr>srv_Ring := ?ring\<rparr>" let ?s1 = "?s0\<lparr>SeqCounter := 1\<rparr>"
  have join: "joinTime (rs_Process ?ring) = 1" "ExpirationPool ?ring = []" by (simp_all add: Join_alone_def NewRingServer_def Let_def)
  have req: "req_Seq example_request = Sequence 1 1" "req_Data example_request = ''data''" "req_Filename example_request = ''f''"
    by (simp_all add: example_request_def)
  have new: "SeqCounter example_server = 0" "Signal example_server = []" by (simp_all add: example_server_def NewSDFSServer_def NewQueue_def)
  have "sdfs_cluster_reachable (lone_sdfs example_server {} {} {} {} {})"
    by (rule sdfs_cluster_reachable.boot) (auto simp: lone_sdfs_def example_server_def)
  from sdfs_cluster_reachable.joined [OF this, of ?ring "Address p81"] join
  have 1: "sdfs_cluster_reachable (lone_sdfs ?s0 {} {} {} {} {1})" by simp
  have "FetchSequence ?s0 = ((OK, Some (Sequence 1 1)), ?s1)"
    using join new by (simp add: FetchSequence_def stable_def Queue_Len_def Let_def to_int32_id)
  from sdfs_cluster_reachable.fetch [OF 1, of "Address p81" OK "Some (Sequence 1 1)" ?s1] this join new
  have 2: "sdfs_cluster_reachable (lone_sdfs ?s1 {Sequence 1 1} {} {} {} {1})" by simp
  from sdfs_cluster_reachable.put [OF 2, of example_request] req
  have 3: "sdfs_cluster_reachable (lone_sdfs ?s1 {} {example_request} {} {} {1})" by simp
  have "server_inv Map.empty ?s1" using server_inv_frame [OF example_server_inv, of ?s1] by simp
  then obtain name s2 where s2: "Write_locked example_request ?s1 = Inr (name, s2)" "server_inv ?w s2" "name \<in> {None, Some ?k}"
      "FileTable s2 = snd (ft_Insert ''f'' (fv_of example_request) (FileTable example_server))"
      "name = None \<longleftrightarrow> fst (ft_Insert ''f'' (fv_of example_request) (FileTable example_server)) \<noteq> None"
    using Write_locked_inv [of Map.empty ?s1 example_request] by (auto simp: fv_of_def req)
  have "fst (ft_Insert ''f'' (fv_of example_request) (FileTable example_server)) = None"
    by (rule ft_Insert_accepts) (simp_all add: example_server_empty)
  then have name: "name = Some ?k" using s2(3,5) by simp
  have at: "ft_at (FileTable s2) ''f'' = [fv_of example_request]" by (simp add: s2(4) ft_Insert_at example_server_empty fv_of_def)
  from sdfs_cluster_reachable.serve_write [OF 3, of example_request "Address p81" name s2] s2(1) name
  have 4: "sdfs_cluster_reachable (lone_sdfs s2 {} {example_request} {(Address p81, ?k, ''data'')} {} {1})" by (simp add: req)
  let ?s3 = "s2\<lparr>disk := (disk s2)(?k \<mapsto> ''data'')\<rparr>"
  have local: "WriteSDFSFile WriteDone ?k ''data'' s2 = (True, ?s3)" using example_name_slash by (simp add: WriteSDFSFile_def req)
  from sdfs_cluster_reachable.disk_write [OF 4, of "Address p81" ?k "''data''" WriteDone] local
  have 5: "sdfs_cluster_reachable (lone_sdfs ?s3 {} {example_request} {(Address p81, ?k, ''data'')} {} {1})" by simp
  have "server_inv ?w ?s3" using WriteSDFSFile_inv [OF s2(2), of ?k "''data''" WriteDone] local by simp
  then obtain s4 where "Read True ''f'' LATEST_VERSION ?s3 = Inr (ReadOK ''data'' (Sequence 1 1), s4)"
    using Read_newest [of ?w ?s3 "fv_of example_request" "''f''" "''data''"] at by (auto simp: fv_of_def req)
  then have get: "RouteTask True WriteDone (SDFSGetTask ''l'' ''f'' LATEST_VERSION) (Sequence 1 1) ?s3 = Inr (Some (read_result (Sequence 1 1, ''data'')), s4)"
    by (simp add: RouteTask_def read_result_def)
  from sdfs_cluster_reachable.serve_get [OF 5 _, of LATEST_VERSION True WriteDone "''l''" "''f''" "Sequence 1 1" "Address p81" _ s4] get
  have "sdfs_cluster_reachable (lone_sdfs s4 {} {example_request} {(Address p81, ?k, ''data'')} {(''f'', LATEST_VERSION, read_result (Sequence 1 1, ''data''))} {1})"
    by (simp add: LATEST_VERSION_def)
  with that [OF 5 _ get] at show ?thesis by simp
qed


text \<open>Why only a server that has joined may hand out sequence numbers: one that has started again and not joined
  yet, while others still take it for their leader, begins with the same number each time, which is smaller than
  all others; and a write under a number that is taken is answered with OK and dropped.\<close>

lemma unjoined_leader_repeats: "fst (FetchSequence (restarted cleared host port0 s)) = (OK, Some (Sequence 0 1))"
  by (simp add: FetchSequence_def stable_def restarted_def ClearSDFSFiles_def NewSDFSServer_def NewRingServer_def NewQueue_def Queue_Len_def Let_def to_int32_id)

lemma taken_number_drops_write:
  assumes "v \<in> set (ft_at (FileTable s) (req_Filename req))" and "fv_Seq v = req_Seq req"
  shows "Write io req s = Inr (OK, s)"
proof -
  have "ft_Insert (req_Filename req) u (FileTable s) = (fst (ft_Insert (req_Filename req) u (FileTable s)), FileTable s)
      \<and> fst (ft_Insert (req_Filename req) u (FileTable s)) \<noteq> None" if "fv_Seq u = req_Seq req" for u
  proof -
    have "fv_Seq u \<in> fv_Seq ` set (ft_at (FileTable s) (req_Filename req))" using assms that by (metis imageI)
    then have "Insert_check (ft_at (FileTable s) (req_Filename req)) u \<noteq> None" by (auto simp: Insert_check_None)
    moreover have "ft_Contains (req_Filename req) (FileTable s)" using assms ft_at_missing by fastforce
    ultimately show ?thesis by (auto simp: ft_Insert_def Let_def)
  qed
  then obtain e where "ft_Insert (req_Filename req) (FileVersion (local_name req) (req_Seq req) (req_WriteId req)) (FileTable s) = (Some e, FileTable s)"
    by (metis file_version.sel(2) not_None_eq)
  then show ?thesis by (simp add: Write_def Write_locked_def Let_def)
qed

text \<open>The two rules on rings cover the steps of \<open>Ring\<close>: only the ends of \<open>Join\<close> change the join time.\<close>

lemma ring_steps_covered:
  assumes reach: "sdfs_cluster_reachable k" and step: "ring_step (srv_Ring (sdfs_at k a)) r"
    and alone: "\<And>t1 t2. r = fst (Join_alone t1 t2 (srv_Ring (sdfs_at k a))) \<Longrightarrow> t2 \<noteq> 0 \<and> t2 \<notin> JoinTimes k"
    and reply: "\<And>p. r = fst (Join_reply p (srv_Ring (sdfs_at k a))) \<Longrightarrow> joinTime p \<noteq> 0 \<and> joinTime p \<notin> JoinTimes k"
  shows "\<exists>T. sdfs_cluster_reachable (put_sdfs a ((sdfs_at k a)\<lparr>srv_Ring := r\<rparr>) (k\<lparr>JoinTimes := T\<rparr>))"
proof (cases "joinTime (rs_Process r) = join_time (sdfs_at k a)")
  case True
  with sdfs_cluster_reachable.ring [OF reach] have "sdfs_cluster_reachable (put_sdfs a ((sdfs_at k a)\<lparr>srv_Ring := r\<rparr>) (k\<lparr>JoinTimes := JoinTimes k\<rparr>))"
    by simp
  then show ?thesis ..
next
  case False
  then have "ident (rs_Process r) \<noteq> ident (rs_Process (srv_Ring (sdfs_at k a)))" by (auto simp: ident_def)
  then have "joinTime (rs_Process r) \<noteq> 0 \<and> joinTime (rs_Process r) \<notin> JoinTimes k"
    using ring_step_self [OF step] alone reply by (auto simp: Join_alone_def Join_reply_def Let_def)
  with sdfs_cluster_reachable.joined [OF reach] show ?thesis by blast
qed

end
