(* ===== verification/Go_Float.thy ===== *)
theory Go_Float
  imports Prelude Complex_Main
begin

text \<open>
  Go's \<open>float64\<close> arithmetic as a record of operations, an argument of every definition that
  computes with floats. The theorems then hold for IEEE-754 doubles and for any other arithmetic,
  and name the laws they use. \<open>f_float32\<close> is the conversion to \<open>float32\<close>, whose values are
  float64 values. \<open>exact_float\<close> is the instance that examples are evaluated on: rational numbers,
  with \<open>None\<close> for the infinities and NaN.
\<close>

section \<open>The operations\<close>

record 'f float64 =
  f_of_int :: "int \<Rightarrow> 'f"
  f_to_int :: "'f \<Rightarrow> int"
  f_add :: "'f \<Rightarrow> 'f \<Rightarrow> 'f"
  f_sub :: "'f \<Rightarrow> 'f \<Rightarrow> 'f"
  f_mul :: "'f \<Rightarrow> 'f \<Rightarrow> 'f"
  f_div :: "'f \<Rightarrow> 'f \<Rightarrow> 'f"
  f_less :: "'f \<Rightarrow> 'f \<Rightarrow> bool"
  f_leq :: "'f \<Rightarrow> 'f \<Rightarrow> bool"
  f_equal :: "'f \<Rightarrow> 'f \<Rightarrow> bool"
  f_abs :: "'f \<Rightarrow> 'f"
  f_round :: "'f \<Rightarrow> 'f"
  f_min :: "'f \<Rightarrow> 'f \<Rightarrow> 'f"
  f_max :: "'f \<Rightarrow> 'f \<Rightarrow> 'f"
  f_MaxFloat64 :: 'f
  f_finite :: "'f \<Rightarrow> bool"
  f_float32 :: "'f \<Rightarrow> 'f"

text \<open>\<open>Duration.Seconds\<close>: whole seconds and the remaining nanoseconds, converted one by one; Go's
  integer division truncates.\<close>

definition go_quot :: "int \<Rightarrow> int \<Rightarrow> int" where
  "go_quot a b = sgn a * sgn b * (\<bar>a\<bar> div \<bar>b\<bar>)"

definition go_rem :: "int \<Rightarrow> int \<Rightarrow> int" where
  "go_rem a b = a - b * go_quot a b"

definition Seconds :: "'f float64 \<Rightarrow> int \<Rightarrow> 'f" where
  "Seconds F d = f_add F (f_of_int F (go_quot d 1000000000)) (f_div F (f_of_int F (go_rem d 1000000000)) (f_of_int F 1000000000))"

section \<open>64-bit integers\<close>

text \<open>Go's \<open>int\<close> arithmetic wraps at 64 bits; written out where a float conversion can give an
  operand of any size.\<close>

definition to_int64 :: "int \<Rightarrow> int" where
  "to_int64 x = signed_take_bit 63 x"

lemma to_int64_id: "- (2 ^ 63) \<le> x \<Longrightarrow> x < 2 ^ 63 \<Longrightarrow> to_int64 x = x"
  by (simp add: to_int64_def signed_take_bit_int_eq_self_iff)

section \<open>An exact instance\<close>

definition lift2 :: "(rat \<Rightarrow> rat \<Rightarrow> rat) \<Rightarrow> rat option \<Rightarrow> rat option \<Rightarrow> rat option" where
  "lift2 g x y = (case x of None \<Rightarrow> None | Some a \<Rightarrow> (case y of None \<Rightarrow> None | Some b \<Rightarrow> Some (g a b)))"

definition lift_test :: "(rat \<Rightarrow> rat \<Rightarrow> bool) \<Rightarrow> rat option \<Rightarrow> rat option \<Rightarrow> bool" where
  "lift_test g x y = (case x of None \<Rightarrow> False | Some a \<Rightarrow> (case y of None \<Rightarrow> False | Some b \<Rightarrow> g a b))"

definition exact_float :: "rat option float64" where
  "exact_float =
     \<lparr>f_of_int = \<lambda>i. Some (of_int i),
      f_to_int = \<lambda>x. (case x of None \<Rightarrow> - (2 ^ 63) | Some a \<Rightarrow> (if a < 0 then - \<lfloor>- a\<rfloor> else \<lfloor>a\<rfloor>)),
      f_add = lift2 (+), f_sub = lift2 (-), f_mul = lift2 (*),
      f_div = \<lambda>x y. if y = Some 0 then None else lift2 (/) x y,
      f_less = lift_test (<), f_leq = lift_test (\<le>), f_equal = lift_test (=),
      f_abs = map_option abs,
      f_round = map_option (\<lambda>a. if a < 0 then - of_int \<lfloor>- a + 1 / 2\<rfloor> else of_int \<lfloor>a + 1 / 2\<rfloor>),
      f_min = lift2 min, f_max = lift2 max,
      f_MaxFloat64 = Some (2 ^ 1024 - 2 ^ 971),
      f_finite = \<lambda>x. x \<noteq> None,
      f_float32 = id\<rparr>"

lemma exact_float_simps [simp]:
  "f_of_int exact_float i = Some (of_int i)"
  "f_add exact_float (Some a) (Some b) = Some (a + b)"
  "f_sub exact_float (Some a) (Some b) = Some (a - b)"
  "f_mul exact_float (Some a) (Some b) = Some (a * b)"
  "f_div exact_float x (Some 0) = None"
  "b \<noteq> 0 \<Longrightarrow> f_div exact_float (Some a) (Some b) = Some (a / b)"
  "f_less exact_float (Some a) (Some b) \<longleftrightarrow> a < b"
  "f_leq exact_float (Some a) (Some b) \<longleftrightarrow> a \<le> b"
  "f_equal exact_float (Some a) (Some b) \<longleftrightarrow> a = b"
  "f_abs exact_float (Some a) = Some \<bar>a\<bar>"
  "f_min exact_float (Some a) (Some b) = Some (min a b)"
  "f_max exact_float (Some a) (Some b) = Some (max a b)"
  "f_finite exact_float x \<longleftrightarrow> x \<noteq> None"
  "f_float32 exact_float x = x"
  by (simp_all add: exact_float_def lift2_def lift_test_def)

section \<open>Helpers that compute with floats\<close>

text \<open>\<open>ConvertTo64\<close> of \<open>utils/helper.go\<close> fills a slice of zeros by index. \<open>widen\<close> is the conversion of one number.\<close>

definition ConvertTo64 :: "('g \<Rightarrow> 'f) \<Rightarrow> 'f \<Rightarrow> 'g list \<Rightarrow> 'f list" where
  "ConvertTo64 widen zero ar = fold (\<lambda>(i, v) newar. newar[i := widen v]) (enumerate 0 ar) (replicate (length ar) zero)"

lemma ConvertTo64_from:
  "fold (\<lambda>(i, v) newar. newar[i := widen v]) (enumerate (length xs) ar) (xs @ replicate (length ar) zero) = xs @ map widen ar"
proof (induction ar arbitrary: xs)
  case (Cons v ar)
  from Cons.IH [of "xs @ [widen v]"] show ?case by (simp add: list_update_append)
qed simp

lemma ConvertTo64_map: "ConvertTo64 widen zero ar = map widen ar"
  using ConvertTo64_from [of widen "[]" ar zero] by (simp add: ConvertTo64_def)

text \<open>\<open>TimeSince\<close> of \<open>api/proto_utils.go\<close> reads the clock once for each field: seconds and nanoseconds of the
  timestamp. The second field holds the whole duration, which is valid only below a second.\<close>

definition TimeSince :: "'f float64 \<Rightarrow> int \<Rightarrow> int \<Rightarrow> int \<times> int" where
  "TimeSince F since1 since2 = (f_to_int F (Seconds F since1), to_int32 since2)"

lemma TimeSince_below_a_second: "0 \<le> d \<Longrightarrow> d < 1000000000 \<Longrightarrow> TimeSince exact_float d d = (0, d)"
  by (simp add: TimeSince_def Seconds_def go_quot_def go_rem_def to_int32_id) (simp add: exact_float_def floor_eq_iff)

lemma TimeSince_two_seconds: "TimeSince exact_float 2000000000 2000000000 = (2, 2000000000)"
  "TimeSince exact_float 3000000000 3000000000 = (3, - 1294967296)"
  by (simp_all add: TimeSince_def Seconds_def go_quot_def go_rem_def to_int32_def exact_float_def lift2_def)

end
