(* ===== verification/Model_Store.thy ===== *)
theory Model_Store
  imports Go_Std Utils
begin

text \<open>
  \<open>idunno/model_store.go\<close>: the trained models with their data sets, a Go map, and the checks of model
  names, data set names and inputs.
\<close>

type_synonym model_store = "(string \<times> string) list"

definition NewModelStore :: model_store where "NewModelStore = []"

definition AddModel :: "string \<Rightarrow> string \<Rightarrow> model_store \<Rightarrow> model_store" where
  "AddModel modelType dataset ms = AList.update modelType dataset ms"

definition ms_Contains :: "string \<Rightarrow> model_store \<Rightarrow> bool" where
  "ms_Contains modelType ms \<longleftrightarrow> mem_key modelType ms"

text \<open>A missing key reads as the empty string.\<close>

definition GetDataset :: "string \<Rightarrow> model_store \<Rightarrow> string" where
  "GetDataset modelType ms = (case map_of ms modelType of None \<Rightarrow> '''' | Some d \<Rightarrow> d)"

definition IsValidModelType :: "string \<Rightarrow> bool" where
  "IsValidModelType modelType \<longleftrightarrow> modelType = ResNet50 \<or> modelType = Albert"

definition IsValidDatasetType :: "string \<Rightarrow> bool" where
  "IsValidDatasetType datasetType \<longleftrightarrow> datasetType = Imagenet \<or> datasetType = Emotion"

definition ContainFilenames :: "string \<Rightarrow> bool" where
  "ContainFilenames dataset = (if dataset = Imagenet then True else if dataset = Emotion then False else False)"

definition ValidateDatasetInput :: "string \<Rightarrow> string \<Rightarrow> bool" where
  "ValidateDatasetInput dataset input =
     (if dataset = Imagenet then has_suffix input ''.JPEG''
      else if dataset = Emotion then length (split_on (CHR '';'') input) = 2
      else False)"

definition ValidateDatasetInputs :: "string \<Rightarrow> string list \<Rightarrow> string list" where
  "ValidateDatasetInputs dataset inputs = filter (ValidateDatasetInput dataset) inputs"

lemma ValidateDatasetInputs_idem [simp]:
  "ValidateDatasetInputs d (ValidateDatasetInputs d xs) = ValidateDatasetInputs d xs"
  by (simp add: ValidateDatasetInputs_def)

lemma GetDataset_AddModel [simp]:
  "GetDataset m (AddModel m' d ms) = (if m = m' then d else GetDataset m ms)"
  "ms_Contains m (AddModel m' d ms) \<longleftrightarrow> m = m' \<or> ms_Contains m ms"
  by (auto simp: GetDataset_def AddModel_def ms_Contains_def)

end
