(* ===== verification/Job.thy ===== *)
theory Job
  imports Go_Float Model_Store
begin

text \<open>
  \<open>api/job.go\<close> and the job messages of \<open>api.proto\<close>: a job is a list of batches, each available, in
  progress or completed, with the statistics the scheduler reads. A nil timestamp reads as the epoch
  (\<open>AsTime\<close>). \<open>time.Since\<close> reads the clock; \<open>clk k\<close> is the \<open>k\<close>-th reading of a call. The slice of
  pointers to batch states is owned by its job, so the batches are values inside the job; batch inputs
  are only changed through the job.
\<close>

section \<open>Data\<close>

datatype batch_status = Available | InProgress | Completed

datatype eval_result = EvalResult (er_Input: string) (er_Output: string)

record batch_input =
  BatchId :: int
  Inputs :: "string list"

record 'f batch_output =
  bo_BatchId :: int
  Results :: "eval_result list"
  Metric :: 'f

record 'f batch_state =
  Status :: batch_status
  BatchInput :: "batch_input option"
  BatchOutput :: "'f batch_output option"
  QueryTime :: "time option"
  ReceiveTime :: "time option"

record 'f job =
  job_Id :: string
  ModelType :: string
  Dataset :: string
  BatchSize :: int
  StartTime :: "time option"
  FinishTime :: "time option"
  TotalQueries :: int
  CompletedQueries :: int
  BatchStates :: "'f batch_state list"
  QueryRates :: "'f list"
  QueryProcessTimes :: "'f list"

definition AsTime :: "time option \<Rightarrow> time" where
  "AsTime t = (case t of None \<Rightarrow> 0 | Some x \<Rightarrow> x)"

definition QUERY_TIME_LIMIT :: int where "QUERY_TIME_LIMIT = 6"

section \<open>Statistics\<close>

definition TotalQueryTime :: "time \<Rightarrow> 'f job \<Rightarrow> int" where
  "TotalQueryTime now j =
     (case FinishTime j of
        None \<Rightarrow> now - AsTime (StartTime j)
      | Some t \<Rightarrow> t - AsTime (StartTime j))"

definition SecondPerQuery :: "'f float64 \<Rightarrow> time \<Rightarrow> 'f job \<Rightarrow> 'f" where
  "SecondPerQuery F now j =
     (if CompletedQueries j = 0 then f_of_int F 1
      else f_div F (Seconds F (TotalQueryTime now j)) (f_of_int F (CompletedQueries j)))"

fun processing_loop :: "'f float64 \<Rightarrow> 'f batch_state list \<Rightarrow> 'f \<Rightarrow> int \<Rightarrow> 'f \<times> int" where
  "processing_loop F [] totalSeconds completedQueries = (totalSeconds, completedQueries)"
| "processing_loop F (state # states) totalSeconds completedQueries =
     (if Status state = Completed
      then processing_loop F states
             (f_add F totalSeconds (f_min F (Seconds F (AsTime (ReceiveTime state) - AsTime (QueryTime state))) (f_of_int F QUERY_TIME_LIMIT)))
             (completedQueries + 1)
      else processing_loop F states totalSeconds completedQueries)"

definition QueryProcessingTime :: "'f float64 \<Rightarrow> 'f job \<Rightarrow> 'f" where
  "QueryProcessingTime F j =
     (if CompletedQueries j = 0 then f_of_int F 1
      else case processing_loop F (BatchStates j) (f_of_int F 0) 0 of
        (totalSeconds, completedQueries) \<Rightarrow> f_div F totalSeconds (f_of_int F completedQueries))"

definition GetExpectedQPS :: "'f float64 \<Rightarrow> (nat \<Rightarrow> time) \<Rightarrow> int \<Rightarrow> 'f job \<Rightarrow> 'f" where
  "GetExpectedQPS F clk resource j =
     (if resource = 0 then f_of_int F 0
      else
        let remainQueryCount = f_of_int F (to_int32 (TotalQueries j - CompletedQueries j));
            totalElapsedTime = f_add F (Seconds F (TotalQueryTime (clk 0) j))
              (f_div F (f_mul F remainQueryCount (SecondPerQuery F (clk 1) j)) (f_of_int F resource))
        in f_div F (f_of_int F (TotalQueries j)) totalElapsedTime)"

fun recent_count :: "'f float64 \<Rightarrow> (nat \<Rightarrow> time) \<Rightarrow> 'f \<Rightarrow> 'f batch_state list \<Rightarrow> int" where
  "recent_count F clk lastSeconds [] = 0"
| "recent_count F clk lastSeconds (state # states) =
     (case QueryTime state of
        Some t \<Rightarrow> (if f_leq F (Seconds F (clk 0 - t)) lastSeconds then 1 else 0)
      | None \<Rightarrow> 0) + recent_count F (clk \<circ> Suc) lastSeconds states"

definition GetQPS :: "'f float64 \<Rightarrow> (nat \<Rightarrow> time) \<Rightarrow> 'f \<Rightarrow> 'f job \<Rightarrow> 'f" where
  "GetQPS F clk lastSeconds j =
     (if f_equal F lastSeconds (f_of_int F 0) then f_of_int F 0
      else
        let totalSeconds = Seconds F (clk 0 - AsTime (StartTime j));
            last = f_min F lastSeconds totalSeconds;
            queryCount = recent_count F (clk \<circ> Suc) last (BatchStates j)
        in f_div F (f_of_int F queryCount) last)"

definition MeasureQPS :: "'f float64 \<Rightarrow> (nat \<Rightarrow> time) \<Rightarrow> 'f job \<Rightarrow> 'f job" where
  "MeasureQPS F clk j = j\<lparr>QueryRates := QueryRates j @ [f_float32 F (GetQPS F clk (f_of_int F 10) j)]\<rparr>"

definition MeasureQueryProcessTime :: "'f float64 \<Rightarrow> 'f job \<Rightarrow> 'f job" where
  "MeasureQueryProcessTime F j = j\<lparr>QueryProcessTimes := QueryProcessTimes j @ [f_float32 F (QueryProcessingTime F j)]\<rparr>"

definition GetExpectedTimeLeft :: "'f float64 \<Rightarrow> (nat \<Rightarrow> time) \<Rightarrow> int \<Rightarrow> 'f job \<Rightarrow> 'f" where
  "GetExpectedTimeLeft F clk resource j =
     (if resource = 0 then f_MaxFloat64 F
      else f_div F (f_of_int F (to_int32 (TotalQueries j - CompletedQueries j))) (GetQPS F clk (f_of_int F 10) j))"

section \<open>Batches\<close>

text \<open>Replacing the batch at an index in range.\<close>

definition modify_batch :: "nat \<Rightarrow> ('f batch_state \<Rightarrow> 'f batch_state) \<Rightarrow> 'f job \<Rightarrow> 'f job" where
  "modify_batch i g j = j\<lparr>BatchStates := (BatchStates j)[i := g (BatchStates j ! i)]\<rparr>"

text \<open>\<open>FetchBatchInput\<close> returns a pointer to the input of the first available batch: its index, or
  none.\<close>

definition FetchBatchInput :: "time \<Rightarrow> 'f job \<Rightarrow> nat option \<times> 'f job" where
  "FetchBatchInput now j =
     (let i = find_index (\<lambda>b. Status b = Available) (BatchStates j) in
      if i = -1 then (None, j)
      else (Some (nat i), modify_batch (nat i) (\<lambda>b. b\<lparr>Status := InProgress, QueryTime := Some now\<rparr>) j))"

definition GetCompletedBatchCount :: "'f job \<Rightarrow> int" where
  "GetCompletedBatchCount j = int (length (filter (\<lambda>b. Status b = Completed) (BatchStates j)))"

text \<open>\<open>GetResults\<close> shortens the inputs of the collected results to their last path component, in
  place, so the job changes as well.\<close>

definition short_input :: "eval_result \<Rightarrow> eval_result" where
  "short_input r = EvalResult (last (split_on (CHR ''/'') (er_Input r))) (er_Output r)"

definition output_of :: "'f batch_state \<Rightarrow> eval_result list" where
  "output_of b = (case BatchOutput b of None \<Rightarrow> [] | Some out \<Rightarrow> Results out)"

definition short_output :: "'f batch_state \<Rightarrow> 'f batch_state" where
  "short_output b = b\<lparr>BatchOutput := map_option (\<lambda>out. out\<lparr>Results := map short_input (Results out)\<rparr>) (BatchOutput b)\<rparr>"

definition GetResults :: "'f float64 \<Rightarrow> 'f job \<Rightarrow> (eval_result list \<times> 'f) \<times> 'f job" where
  "GetResults F j =
     (let metricSum = foldl (\<lambda>sum b. case BatchOutput b of
            None \<Rightarrow> sum
          | Some out \<Rightarrow> f_float32 F (f_add F sum (Metric out))) (f_of_int F 0) (BatchStates j);
          evalResults = map short_input (concat (map output_of (BatchStates j)))
      in ((evalResults, f_float32 F (f_div F metricSum (f_float32 F (f_of_int F (int (length evalResults)))))),
          j\<lparr>BatchStates := map short_output (BatchStates j)\<rparr>))"

section \<open>Well-formed jobs\<close>

text \<open>What a job is meant to compute: its model and data set, the inputs of its batches, and which results
  are an answer to a batch.\<close>

record evaluation =
  ev_Model :: "string \<Rightarrow> string"
  ev_Dataset :: "string \<Rightarrow> string"
  ev_Batches :: "string \<Rightarrow> string list list"
  ev_Answer :: "string \<Rightarrow> int \<Rightarrow> eval_result list \<Rightarrow> bool"

definition computed :: "evaluation \<Rightarrow> string \<Rightarrow> 'f batch_output \<Rightarrow> bool" where
  "computed eval jid out \<longleftrightarrow> (\<exists>rs. ev_Answer eval jid (bo_BatchId out) rs \<and> map short_input (Results out) = map short_input rs)"

text \<open>The inputs of a batch are dropped when they do not fit the data set, at the time it is handed out.\<close>

definition valid_batch :: "evaluation \<Rightarrow> string \<Rightarrow> int \<Rightarrow> string list" where
  "valid_batch eval jid i = ValidateDatasetInputs (ev_Dataset eval jid) (ev_Batches eval jid ! nat i)"

lemma valid_batch_idem [simp]: "ValidateDatasetInputs (ev_Dataset eval jid) (valid_batch eval jid i) = valid_batch eval jid i"
  by (simp add: valid_batch_def)

text \<open>A batch carries its position as id and the inputs meant for it, a completed batch has an output, and an
  output is an answer to the batch, up to the shortening of inputs.\<close>

definition batch_ok :: "evaluation \<Rightarrow> string \<Rightarrow> nat \<Rightarrow> 'f batch_state \<Rightarrow> bool" where
  "batch_ok eval jid i b \<longleftrightarrow>
     (\<exists>inp. BatchInput b = Some inp \<and> BatchId inp = int i
        \<and> ValidateDatasetInputs (ev_Dataset eval jid) (Inputs inp) = valid_batch eval jid (int i))
     \<and> (Status b = Completed \<longrightarrow> BatchOutput b \<noteq> None)
     \<and> (\<forall>out. BatchOutput b = Some out \<longrightarrow> bo_BatchId out = int i \<and> computed eval jid out)"

definition job_ok :: "evaluation \<Rightarrow> 'f job \<Rightarrow> bool" where
  "job_ok eval j \<longleftrightarrow>
     ModelType j = ev_Model eval (job_Id j) \<and> Dataset j = ev_Dataset eval (job_Id j)
     \<and> TotalQueries j = int (length (BatchStates j)) \<and> length (BatchStates j) < 2 ^ 31
     \<and> length (BatchStates j) = length (ev_Batches eval (job_Id j))
     \<and> (\<forall>i < length (BatchStates j). batch_ok eval (job_Id j) i (BatchStates j ! i))"

definition all_outputs :: "'f job \<Rightarrow> bool" where
  "all_outputs j \<longleftrightarrow> (\<forall>b \<in> set (BatchStates j). BatchOutput b \<noteq> None)"

text \<open>What every operation on a job does: its identity and size stay, its batches stay well formed and
  keep the outputs they have.\<close>

definition evolves :: "evaluation \<Rightarrow> 'f job \<Rightarrow> 'f job \<Rightarrow> bool" where
  "evolves eval j j' \<longleftrightarrow>
     job_Id j' = job_Id j \<and> ModelType j' = ModelType j \<and> Dataset j' = Dataset j
     \<and> TotalQueries j' = TotalQueries j \<and> length (BatchStates j') = length (BatchStates j)
     \<and> (\<forall>i < length (BatchStates j).
          (Dataset j = ev_Dataset eval (job_Id j) \<longrightarrow>
             batch_ok eval (job_Id j) i (BatchStates j ! i) \<longrightarrow> batch_ok eval (job_Id j) i (BatchStates j' ! i))
          \<and> (BatchOutput (BatchStates j ! i) \<noteq> None \<longrightarrow> BatchOutput (BatchStates j' ! i) \<noteq> None))"

lemma evolves_refl [simp]: "evolves eval j j"
  by (simp add: evolves_def)

lemma evolves_trans: "evolves eval j j' \<Longrightarrow> evolves eval j' j'' \<Longrightarrow> evolves eval j j''"
  by (simp add: evolves_def)

interpretation job_evolution: evolution "evolves eval" for eval
  by unfold_locales (auto intro: evolves_trans)

lemma evolves_job_ok: "evolves eval j j' \<Longrightarrow> job_ok eval j \<Longrightarrow> job_ok eval j'"
  by (simp add: evolves_def job_ok_def)

lemma evolves_all_outputs: "evolves eval j j' \<Longrightarrow> all_outputs j \<Longrightarrow> all_outputs j'"
  by (simp add: evolves_def all_outputs_def all_set_conv_all_nth)

lemma evolves_Id: "evolves eval j j' \<Longrightarrow> job_Id j' = job_Id j"
  by (simp add: evolves_def)

lemma evolves_same_batches:
  "job_Id j' = job_Id j \<Longrightarrow> ModelType j' = ModelType j \<Longrightarrow> Dataset j' = Dataset j \<Longrightarrow> TotalQueries j' = TotalQueries j
     \<Longrightarrow> BatchStates j' = BatchStates j \<Longrightarrow> evolves eval j j'"
  by (simp add: evolves_def)

lemma evolves_batches:
  assumes "length bs = length (BatchStates j)"
    and "\<And>i. i < length (BatchStates j) \<Longrightarrow> Dataset j = ev_Dataset eval (job_Id j) \<Longrightarrow>
      batch_ok eval (job_Id j) i (BatchStates j ! i) \<Longrightarrow> batch_ok eval (job_Id j) i (bs ! i)"
    and "\<And>i. i < length (BatchStates j) \<Longrightarrow> BatchOutput (BatchStates j ! i) \<noteq> None \<Longrightarrow> BatchOutput (bs ! i) \<noteq> None"
  shows "evolves eval j (j\<lparr>BatchStates := bs\<rparr>)"
  using assms by (simp add: evolves_def)

lemma evolves_modify_batch:
  assumes "\<And>b. Dataset j = ev_Dataset eval (job_Id j) \<Longrightarrow> batch_ok eval (job_Id j) i b \<Longrightarrow> batch_ok eval (job_Id j) i (g b)"
    and "\<And>b. BatchOutput b \<noteq> None \<Longrightarrow> BatchOutput (g b) \<noteq> None"
  shows "evolves eval j (modify_batch i g j)"
proof (cases "i < length (BatchStates j)")
  case True
  then show ?thesis
    unfolding modify_batch_def by (intro evolves_batches) (use assms in \<open>auto simp: nth_list_update simp del: not_None_eq\<close>)
next
  case False
  then show ?thesis by (intro evolves_same_batches) (simp_all add: modify_batch_def list_update_beyond)
qed

lemma modify_batch_simps [simp]:
  "job_Id (modify_batch i g j) = job_Id j" "ModelType (modify_batch i g j) = ModelType j" "Dataset (modify_batch i g j) = Dataset j"
  "TotalQueries (modify_batch i g j) = TotalQueries j"
  "length (BatchStates (modify_batch i g j)) = length (BatchStates j)"
  by (simp_all add: modify_batch_def)

text \<open>The changes the program makes to a batch.\<close>

lemma evolves_available: "evolves eval j (modify_batch i (\<lambda>b. b\<lparr>Status := Available\<rparr>) j)"
  by (rule evolves_modify_batch) (simp_all add: batch_ok_def)

lemma evolves_FetchBatchInput: "evolves eval j (snd (FetchBatchInput now j))"
  unfolding FetchBatchInput_def Let_def by (simp, intro impI evolves_modify_batch) (simp_all add: batch_ok_def)

lemma evolves_completed:
  assumes "computed eval (job_Id j) out" "bo_BatchId out = int i"
  shows "evolves eval j (modify_batch i (\<lambda>b. b\<lparr>BatchOutput := Some out, Status := Completed, ReceiveTime := Some t\<rparr>) j)"
  by (rule evolves_modify_batch) (use assms in \<open>simp_all add: batch_ok_def\<close>)

lemma evolves_stats [simp]:
  "evolves eval j (MeasureQPS F clk j)" "evolves eval j (MeasureQueryProcessTime F j)"
  by (simp_all add: MeasureQPS_def MeasureQueryProcessTime_def evolves_same_batches)

lemma short_input_idem [simp]: "short_input (short_input r) = short_input r"
proof -
  have "CHR ''/'' \<notin> set (last (split_on (CHR ''/'') (er_Input r)))"
    by (rule split_on_parts) (rule last_in_set, simp)
  then show ?thesis by (simp add: short_input_def split_on_no_sep)
qed

lemma short_input_comp [simp]: "short_input \<circ> short_input = short_input"
  by auto

lemma computed_short [simp]:
  "computed eval jid (out\<lparr>Results := map short_input (Results out)\<rparr>) = computed eval jid out"
  by (simp add: computed_def)

lemma evolves_GetResults: "evolves eval j (snd (GetResults F j))"
  unfolding GetResults_def Let_def snd_conv
  by (rule evolves_batches) (auto simp: short_output_def batch_ok_def)

text \<open>A job whose count of completed batches reaches its size has an output for every batch.\<close>

lemma all_completed:
  assumes "job_ok eval j" and "TotalQueries j \<le> to_int32 (GetCompletedBatchCount j)"
  shows "all_outputs j"
proof -
  let ?c = "filter (\<lambda>b. Status b = Completed) (BatchStates j)"
  have le: "length ?c \<le> length (BatchStates j)" by simp
  have "to_int32 (int (length ?c)) = int (length ?c)"
    using assms(1) le_less_trans [OF le, of "2 ^ 31"] by (intro to_int32_id) (simp_all add: job_ok_def)
  with assms have "length (BatchStates j) \<le> length ?c" by (simp add: GetCompletedBatchCount_def job_ok_def)
  with le have "length ?c = length (BatchStates j)" by (rule antisym)
  then have "\<forall>b \<in> set (BatchStates j). Status b = Completed"
    using length_filter_less [of _ "BatchStates j" "\<lambda>b. Status b = Completed"] by (metis (no_types, lifting) nat_neq_iff)
  with assms(1) show ?thesis by (simp add: all_outputs_def job_ok_def batch_ok_def all_set_conv_all_nth del: not_None_eq)
qed

text \<open>The results of such a job are an answer to every batch, in order.\<close>

lemma GetResults_all:
  assumes ok: "job_ok eval j" and all: "all_outputs j"
  obtains rss where "fst (fst (GetResults F j)) = map short_input (concat rss)" and "length rss = length (BatchStates j)"
    and "\<And>i. i < length rss \<Longrightarrow> ev_Answer eval (job_Id j) (int i) (rss ! i)"
proof -
  let ?n = "length (BatchStates j)"
  have "\<exists>rs. ev_Answer eval (job_Id j) (int i) rs \<and> map short_input (output_of (BatchStates j ! i)) = map short_input rs"
    if i: "i < ?n" for i
  proof -
    obtain out where "BatchOutput (BatchStates j ! i) = Some out" using all nth_mem [OF i] by (auto simp: all_outputs_def)
    moreover have "batch_ok eval (job_Id j) i (BatchStates j ! i)" using ok i by (simp add: job_ok_def)
    ultimately show ?thesis by (auto simp: batch_ok_def computed_def output_of_def)
  qed
  then obtain h where h: "\<And>i. i < ?n \<Longrightarrow> ev_Answer eval (job_Id j) (int i) (h i)
      \<and> map short_input (output_of (BatchStates j ! i)) = map short_input (h i)" by metis
  have "map (\<lambda>b. map short_input (output_of b)) (BatchStates j) = map (\<lambda>i. map short_input (h i)) [0..<?n]"
    using h by (intro nth_equalityI) simp_all
  then have "fst (fst (GetResults F j)) = map short_input (concat (map h [0..<?n]))"
    by (simp add: GetResults_def Let_def map_concat comp_def)
  then show ?thesis using h that [of "map h [0..<?n]"] by simp
qed

lemma FetchBatchInput_length [simp]: "length (BatchStates (snd (FetchBatchInput now j))) = length (BatchStates j)"
  by (simp add: FetchBatchInput_def Let_def)

end
