(* ===== verification/Ralloc.thy ===== *)
theory Ralloc
  imports Job
begin

text \<open>
  \<open>ralloc/ralloc.go\<close>: the fair-time allocation of workers to jobs. The tables \<open>dp\<close>, \<open>min\<close>, \<open>max\<close> and
  \<open>alloc\<close> are filled row by row; a row of the first three is a list of triples, indexed by the number of
  resources, and \<open>alloc\<close> keeps its rows newest first, the order the backtracking reads them in.
  Shown: the allocation always adds up to the number of workers, whatever the float arithmetic does; for
  two jobs it is a fairest one; for three jobs it can starve a job although a fairer allocation exists.
\<close>

section \<open>GlobalFairTimeRalloc\<close>

definition MaxInt64 :: int where "MaxInt64 = 2 ^ 63 - 1"
definition MinInt64 :: int where "MinInt64 = - (2 ^ 63)"

type_synonym 'f dp_row = "('f \<times> 'f \<times> 'f) list"

text \<open>\<open>maxDiff\<close> for \<open>k\<close> resources out of \<open>j\<close>, against the entry of the previous row.\<close>

definition maxDiff :: "'f float64 \<Rightarrow> 'f list \<Rightarrow> 'f dp_row \<Rightarrow> nat \<Rightarrow> nat \<Rightarrow> 'f" where
  "maxDiff F q prev j k =
     (case prev ! (j - k) of (dp, mn, mx) \<Rightarrow>
        f_max F (f_max F (f_abs F (f_sub F (q ! k) mn)) (f_abs F (f_sub F (q ! k) mx))) dp)"

fun cell_loop :: "'f float64 \<Rightarrow> (nat \<Rightarrow> 'f) \<Rightarrow> nat list \<Rightarrow> 'f \<times> nat \<Rightarrow> 'f \<times> nat" where
  "cell_loop F d [] (dp, resource) = (dp, resource)"
| "cell_loop F d (k # ks) (dp, resource) =
     (if f_less F (d k) dp then cell_loop F d ks (d k, k) else cell_loop F d ks (dp, resource))"

definition ralloc_cell :: "'f float64 \<Rightarrow> 'f list \<Rightarrow> 'f dp_row \<Rightarrow> nat \<Rightarrow> ('f \<times> 'f \<times> 'f) \<times> nat" where
  "ralloc_cell F q prev j =
     (let (dp, resource) = cell_loop F (maxDiff F q prev j) [0..<j + 1] (f_of_int F MaxInt64, 0);
          (_, mn, mx) = prev ! (j - resource)
      in ((dp, f_min F (q ! resource) mn, f_max F (q ! resource) mx), resource))"

fun ralloc_rows :: "'f float64 \<Rightarrow> nat \<Rightarrow> 'f list list \<Rightarrow> 'f dp_row \<Rightarrow> nat list list \<Rightarrow> nat list list" where
  "ralloc_rows F m [] prev alloc = alloc"
| "ralloc_rows F m (q # qs) prev alloc =
     (let cells = map (ralloc_cell F q prev) [0..<m + 1]
      in ralloc_rows F m qs (map fst cells) (map snd cells # alloc))"

fun backtrack :: "nat list list \<Rightarrow> nat \<Rightarrow> nat list" where
  "backtrack [] cur = []"
| "backtrack (row # rows) cur = backtrack rows (cur - row ! cur) @ [row ! cur]"

fun rel_err_loop :: "'f float64 \<Rightarrow> 'f \<Rightarrow> 'f list \<Rightarrow> 'f \<Rightarrow> 'f" where
  "rel_err_loop F x [] maxErr = maxErr"
| "rel_err_loop F x (y # ys) maxErr =
     (let diff = f_abs F (f_sub F x y);
          err = f_div F diff (f_add F (f_max F x y) (f_div F (f_of_int F 1) (f_of_int F 1000000)))
      in rel_err_loop F x ys (f_max F maxErr err))"

fun rel_diff_loop :: "'f float64 \<Rightarrow> 'f list \<Rightarrow> 'f \<Rightarrow> 'f" where
  "rel_diff_loop F [] maxErr = maxErr"
| "rel_diff_loop F (x # xs) maxErr = rel_diff_loop F xs (rel_err_loop F x xs maxErr)"

definition GetRelQPSDiff :: "'f float64 \<Rightarrow> 'f list \<Rightarrow> 'f" where
  "GetRelQPSDiff F qps =
     (if length qps \<le> 1 then f_of_int F 0 else rel_diff_loop F qps (f_of_int F MinInt64))"

text \<open>The dimensions are checked against the first row only; a later row that is too short makes the
  recurrence index out of range.\<close>

definition GlobalFairTimeRalloc :: "'f float64 \<Rightarrow> int \<Rightarrow> int \<Rightarrow> 'f list list \<Rightarrow> (int list \<times> 'f) run" where
  "GlobalFairTimeRalloc F n m qps =
     (case qps of
        [] \<Rightarrow> Inl IndexOutOfRange
      | q # qs \<Rightarrow>
          if int (length qps) \<noteq> n \<or> int (length q) \<noteq> m + 1 then
            Inl (ExplicitPanic (''Expected qps to be '' @ show_int n @ '' x '' @ show_int (m + 1) @ '' matrix, but got ''
              @ show_int (int (length qps)) @ '' x '' @ show_int (int (length q)) @ ''.''))
          else if m < 0 \<or> (\<exists>r \<in> set qs. int (length r) \<le> m) then Inl IndexOutOfRange
          else
            let base = map (\<lambda>j. (f_of_int F 0, q ! j, q ! j)) [0..<nat m + 1];
                alloc = ralloc_rows F (nat m) qs base [[0..<nat m + 1]];
                resources = map int (backtrack alloc (nat m));
                optimalQPS = replicate (length qps) (f_of_int F 0)
            in Inr (resources, GetRelQPSDiff F optimalQPS))"

section \<open>LocalFairTimeRalloc and JobToQPS\<close>

fun local_loop :: "'f float64 \<Rightarrow> 'f list \<Rightarrow> int \<Rightarrow> int list" where
  "local_loop F [] totalResources = []"
| "local_loop F (raw # raws) totalResources =
     (let actualAlloc = f_to_int F (f_min F (f_round F raw) (f_of_int F totalResources))
      in actualAlloc # local_loop F raws (to_int64 (totalResources - actualAlloc)))"

definition LocalFairTimeRalloc :: "'f float64 \<Rightarrow> 'f job list \<Rightarrow> int \<Rightarrow> int list \<times> 'f" where
  "LocalFairTimeRalloc F jobs totalResources =
     (let time = map (QueryProcessingTime F) jobs;
          totalTime = foldl (f_add F) (f_of_int F 0) time;
          rawAlloc = map (\<lambda>t. f_div F (f_mul F (f_of_int F totalResources) t) totalTime) time
      in (local_loop F rawAlloc totalResources, GetRelQPSDiff F time))"

text \<open>\<open>clk i j k\<close> is the \<open>k\<close>-th clock reading of the call for job \<open>i\<close> and \<open>j\<close> resources.\<close>

definition JobToQPS :: "'f float64 \<Rightarrow> (nat \<Rightarrow> nat \<Rightarrow> nat \<Rightarrow> time) \<Rightarrow> 'f job list \<Rightarrow> int \<Rightarrow> 'f list list" where
  "JobToQPS F clk jobs totalResources =
     map (\<lambda>i. map (\<lambda>j. GetExpectedQPS F (clk i j) (int j) (jobs ! i)) [0..<nat (totalResources + 1)]) [0..<length jobs]"

section \<open>The allocation adds up\<close>

lemma cell_loop_resource: "snd (cell_loop F d ks (dp, r)) \<in> insert r (set ks)"
  by (induction F d ks "(dp, r)" arbitrary: dp r rule: cell_loop.induct) (auto split: if_splits)

lemma ralloc_cell_le: "snd (ralloc_cell F q prev j) \<le> j"
proof -
  have "snd (cell_loop F (maxDiff F q prev j) [0..<j + 1] (f_of_int F MaxInt64, 0)) \<in> insert 0 (set [0..<j + 1])"
    by (rule cell_loop_resource)
  then have "snd (cell_loop F (maxDiff F q prev j) [0..<j + 1] (f_of_int F MaxInt64, 0)) \<le> j" by auto
  then show ?thesis by (auto simp: ralloc_cell_def Let_def split: prod.splits)
qed

text \<open>A row of \<open>alloc\<close> never gives a job more than there is.\<close>

definition row_ok :: "nat \<Rightarrow> nat list \<Rightarrow> bool" where
  "row_ok m row \<longleftrightarrow> length row = m + 1 \<and> (\<forall>j \<le> m. row ! j \<le> j)"

lemma ralloc_rows_shape:
  assumes "\<And>row. row \<in> set alloc \<Longrightarrow> row_ok m row"
  shows "row \<in> set (ralloc_rows F m qs prev alloc) \<Longrightarrow> row_ok m row"
  using assms
proof (induction F m qs prev alloc rule: ralloc_rows.induct)
  case (1 F m prev alloc)
  then show ?case by simp
next
  case (2 F m q qs prev alloc)
  have "row_ok m (map snd (map (ralloc_cell F q prev) [0..<m + 1]))"
    using ralloc_cell_le by (auto simp: row_ok_def nth_append less_Suc_eq_le simp del: upt_Suc)
  with 2 show ?case by (auto simp: Let_def simp del: upt_Suc)
qed

lemma ralloc_rows_length [simp]: "length (ralloc_rows F m qs prev alloc) = length qs + length alloc"
  by (induction F m qs prev alloc rule: ralloc_rows.induct) (simp_all add: Let_def del: upt_Suc)

lemma ralloc_rows_last: "alloc \<noteq> [] \<Longrightarrow> last (ralloc_rows F m qs prev alloc) = last alloc"
  by (induction F m qs prev alloc rule: ralloc_rows.induct) (simp_all add: Let_def del: upt_Suc)

lemma backtrack_length [simp]: "length (backtrack rows c) = length rows"
  by (induction rows c rule: backtrack.induct) simp_all

lemma backtrack_sum:
  assumes "rows \<noteq> []" and "last rows = [0..<m + 1]" and "\<And>row. row \<in> set rows \<Longrightarrow> row_ok m row" and "c \<le> m"
  shows "sum_list (backtrack rows c) = c"
  using assms
proof (induction rows c rule: backtrack.induct)
  case (1 cur)
  then show ?case by simp
next
  case (2 row rows cur)
  have le: "row ! cur \<le> cur" using 2 by (auto simp: row_ok_def)
  show ?case
  proof (cases "rows = []")
    case True
    then show ?thesis using 2 by (simp add: nth_append)
  next
    case False
    then have "sum_list (backtrack rows (cur - row ! cur)) = cur - row ! cur" using 2 by auto
    with le show ?thesis by simp
  qed
qed

lemma sum_list_map_int: "sum_list (map int xs) = int (sum_list xs)"
  by (induction xs) simp_all

lemma GlobalFairTimeRalloc_total:
  assumes "qps \<noteq> []" and "\<And>q. q \<in> set qps \<Longrightarrow> length q = nat m + 1" and "0 \<le> m" and "n = int (length qps)"
  shows "\<exists>resources. GlobalFairTimeRalloc F n m qps = Inr (resources, GetRelQPSDiff F (replicate (length qps) (f_of_int F 0)))
    \<and> length resources = length qps \<and> (\<forall>r \<in> set resources. 0 \<le> r) \<and> sum_list resources = m"
proof -
  obtain q qs where qps: "qps = q # qs" using assms(1) by (cases qps) auto
  let ?base = "map (\<lambda>j. (f_of_int F 0, q ! j, q ! j)) [0..<nat m + 1]"
  let ?alloc = "ralloc_rows F (nat m) qs ?base [[0..<nat m + 1]]"
  have ok: "row_ok (nat m) row" if "row \<in> set ?alloc" for row
    by (rule ralloc_rows_shape [OF _ that]) (auto simp: row_ok_def nth_append simp del: upt_Suc)
  have "length ?alloc \<noteq> 0" unfolding ralloc_rows_length by simp
  then have ne: "?alloc \<noteq> []" by (simp del: ralloc_rows_length)
  have "last ?alloc = [0..<nat m + 1]" using ralloc_rows_last [of "[[0..<nat m + 1]]" F] by simp
  from backtrack_sum [OF ne this ok order_refl] have sum: "sum_list (backtrack ?alloc (nat m)) = nat m" .
  have "m < int (length r)" if "r \<in> set qs" for r using assms(2) [of r] assms(3) qps that by simp
  then have "\<not> (\<exists>r \<in> set qs. int (length r) \<le> m)" by (simp add: not_le)
  then have "GlobalFairTimeRalloc F n m qps
      = Inr (map int (backtrack ?alloc (nat m)), GetRelQPSDiff F (replicate (length qps) (f_of_int F 0)))"
    using assms qps by (simp add: GlobalFairTimeRalloc_def Let_def del: upt_Suc)
  with sum assms(3) qps show ?thesis by (auto simp: sum_list_map_int)
qed

text \<open>C19. The fair-time allocation hands out every worker: for a matrix of the expected shape with at least
  one job, \<open>GlobalFairTimeRalloc\<close> returns one share per job, no share is negative and the shares add up to
  the number of resources, for every float arithmetic (not-a-numbers and overflows included). The
  difference it returns does not depend on the matrix: it is computed from a fresh slice of zeros.\<close>

theorem ralloc_hands_out_every_worker:
  assumes "qps \<noteq> []" and "\<And>q. q \<in> set qps \<Longrightarrow> length q = nat m + 1" and "0 \<le> m" and "n = int (length qps)"
  shows "\<exists>resources. GlobalFairTimeRalloc F n m qps = Inr (resources, GetRelQPSDiff F (replicate (length qps) (f_of_int F 0)))
    \<and> length resources = length qps \<and> (\<forall>r \<in> set resources. 0 \<le> r) \<and> sum_list resources = m"
  by (rule GlobalFairTimeRalloc_total) (use assms in auto)

theorem ralloc_hands_out_every_worker_witness:
  "\<exists>resources. GlobalFairTimeRalloc exact_float 2 1 [[Some 0, Some 1], [Some 0, None]]
      = Inr (resources, GetRelQPSDiff exact_float (replicate 2 (Some 0))) \<and> sum_list resources = 1"
proof -
  have "length q = nat 1 + 1" if "q \<in> set [[Some 0, Some 1], [Some 0, None]]" for q :: "rat option list"
    using that by auto
  from ralloc_hands_out_every_worker [of "[[Some 0, Some 1], [Some 0, None]]" 1 2 exact_float, OF _ this] show ?thesis
    by (auto simp: numeral_2_eq_2)
qed

section \<open>Fairness\<close>

text \<open>What the laws below say of a float arithmetic: a finite float has a rational value, and comparing,
  taking the larger one and the absolute value agree with the values. IEEE-754 doubles have them.\<close>

definition float_values :: "'f float64 \<Rightarrow> ('f \<Rightarrow> rat) \<Rightarrow> bool" where
  "float_values F v \<longleftrightarrow>
     (\<forall>x y. f_finite F x \<longrightarrow> f_finite F y \<longrightarrow>
        (f_less F x y \<longleftrightarrow> v x < v y) \<and> f_finite F (f_max F x y) \<and> v (f_max F x y) = max (v x) (v y)
        \<and> f_finite F (f_abs F x) \<and> v (f_abs F x) = \<bar>v x\<bar>)
     \<and> f_finite F (f_of_int F 0) \<and> v (f_of_int F 0) = 0 \<and> f_finite F (f_of_int F MaxInt64)"

lemma exact_float_values: "float_values exact_float (\<lambda>x. case x of None \<Rightarrow> 0 | Some a \<Rightarrow> a)"
  by (auto simp: float_values_def)

lemma cell_loop_least:
  assumes F: "\<And>x y. f_finite F x \<Longrightarrow> f_finite F y \<Longrightarrow> f_less F x y \<longleftrightarrow> v x < (v y :: rat)"
    and fin: "f_finite F dp" "\<And>k. k \<in> set ks \<Longrightarrow> f_finite F (d k)"
  shows "case cell_loop F d ks (dp, r) of (dp', r') \<Rightarrow> v dp' \<le> v dp \<and> (\<forall>k \<in> set ks. v dp' \<le> v (d k))
    \<and> (dp' = dp \<and> r' = r \<or> r' \<in> set ks \<and> dp' = d r')"
  using fin
proof (induction ks arbitrary: dp r)
  case Nil
  then show ?case by simp
next
  case (Cons k ks)
  show ?case
  proof (cases "f_less F (d k) dp")
    case True
    with F Cons.prems have "v (d k) < v dp" by simp
    with True Cons.IH [of "d k" k] Cons.prems show ?thesis by (fastforce split: prod.splits)
  next
    case False
    with F Cons.prems have "v dp \<le> v (d k)" by (simp add: not_less)
    with False Cons.IH [of dp r] Cons.prems show ?thesis by (fastforce split: prod.splits)
  qed
qed

lemma ralloc_two_jobs:
  assumes "length q0 = nat m + 1" and "length q1 = nat m + 1" and "0 \<le> m"
  shows "GlobalFairTimeRalloc F 2 m [q0, q1] = Inr ([m - int k, int k], GetRelQPSDiff F [f_of_int F 0, f_of_int F 0])
    \<longleftrightarrow> k = snd (ralloc_cell F q1 (map (\<lambda>j. (f_of_int F 0, q0 ! j, q0 ! j)) [0..<nat m + 1]) (nat m))"
proof -
  let ?r = "snd (ralloc_cell F q1 (map (\<lambda>j. (f_of_int F 0, q0 ! j, q0 ! j)) [0..<nat m + 1]) (nat m))"
  have r: "?r \<le> nat m" by (rule ralloc_cell_le)
  have "GlobalFairTimeRalloc F 2 m [q0, q1] = Inr ([m - int ?r, int ?r], GetRelQPSDiff F [f_of_int F 0, f_of_int F 0])"
    using assms r by (simp add: GlobalFairTimeRalloc_def Let_def nth_append numeral_2_eq_2 of_nat_diff del: upt_Suc)
  then show ?thesis by auto
qed

text \<open>C20. For two jobs the allocation is a fairest one: when floats have values and no difference of two
  expected rates overflows, the split that \<open>GlobalFairTimeRalloc\<close> returns makes the rates of the two jobs
  differ by no more than any other split of the workers does.\<close>

theorem ralloc_two_jobs_fairest:
  assumes F: "float_values F v" and shape: "length q0 = nat m + 1" "length q1 = nat m + 1" "0 \<le> m"
    and fin: "\<And>k. k \<le> nat m \<Longrightarrow> f_finite F (f_sub F (q1 ! k) (q0 ! (nat m - k)))"
    and small: "k' \<le> nat m" "\<bar>v (f_sub F (q1 ! k') (q0 ! (nat m - k')))\<bar> < v (f_of_int F MaxInt64)"
  shows "\<exists>k \<le> nat m. GlobalFairTimeRalloc F 2 m [q0, q1] = Inr ([m - int k, int k], GetRelQPSDiff F [f_of_int F 0, f_of_int F 0])
    \<and> (\<forall>k' \<le> nat m. \<bar>v (f_sub F (q1 ! k) (q0 ! (nat m - k)))\<bar> \<le> \<bar>v (f_sub F (q1 ! k') (q0 ! (nat m - k')))\<bar>)"
proof -
  let ?base = "map (\<lambda>j. (f_of_int F 0, q0 ! j, q0 ! j)) [0..<nat m + 1]"
  let ?d = "maxDiff F q1 ?base (nat m)" and ?top = "f_of_int F MaxInt64"
  let ?r = "snd (ralloc_cell F q1 ?base (nat m))"
  have d: "f_finite F (?d k) \<and> v (?d k) = \<bar>v (f_sub F (q1 ! k) (q0 ! (nat m - k)))\<bar>" if "k \<le> nat m" for k
  proof -
    have "?base ! (nat m - k) = (f_of_int F 0, q0 ! (nat m - k), q0 ! (nat m - k))"
      using nth_upt [of 0 "nat m - k" "nat m + 1"] by (simp del: upt_Suc)
    then show ?thesis using F fin [OF that] by (simp add: maxDiff_def float_values_def)
  qed
  obtain dp r where loop: "cell_loop F ?d [0..<nat m + 1] (?top, 0) = (dp, r)" by force
  have r: "?r = r" using loop by (simp add: ralloc_cell_def del: upt_Suc split: prod.splits)
  have less: "f_less F x y \<longleftrightarrow> v x < v y" if "f_finite F x" "f_finite F y" for x y
    using F that by (simp add: float_values_def)
  have rng: "k \<in> set [0..<nat m + 1] \<longleftrightarrow> k \<le> nat m" for k by auto
  have top: "f_finite F ?top" using F by (simp add: float_values_def)
  have dfin: "f_finite F (?d k)" if "k \<in> set [0..<nat m + 1]" for k using d that unfolding rng by blast
  have "case cell_loop F ?d [0..<nat m + 1] (?top, 0) of (dp', r') \<Rightarrow> v dp' \<le> v ?top
      \<and> (\<forall>k \<in> set [0..<nat m + 1]. v dp' \<le> v (?d k)) \<and> (dp' = ?top \<and> r' = 0 \<or> r' \<in> set [0..<nat m + 1] \<and> dp' = ?d r')"
    by (rule cell_loop_least [OF less top dfin])
  then have least: "\<forall>k \<le> nat m. v dp \<le> v (?d k)" and which: "dp = ?top \<or> r \<le> nat m \<and> dp = ?d r"
    unfolding loop prod.case Ball_def rng by blast+
  have "v dp \<noteq> v ?top" using least small d [of k'] by fastforce
  with which have "r \<le> nat m" "dp = ?d r" by auto
  moreover have "GlobalFairTimeRalloc F 2 m [q0, q1] = Inr ([m - int r, int r], GetRelQPSDiff F [f_of_int F 0, f_of_int F 0])"
    using ralloc_two_jobs [OF shape, where F = F and k = r] r by simp
  ultimately show ?thesis using least d by (intro exI [of _ r]) simp
qed

text \<open>One worker, one job that reaches a rate of 3 with it and one that reaches 1.\<close>

theorem ralloc_two_jobs_fairest_witness:
  "\<exists>k \<le> 1. GlobalFairTimeRalloc exact_float 2 1 [[Some 0, Some 3], [Some 0, Some 1]]
      = Inr ([1 - int k, int k], GetRelQPSDiff exact_float [Some 0, Some 0])"
proof -
  let ?v = "\<lambda>x. case x of None \<Rightarrow> 0 | Some a \<Rightarrow> a"
  have fin: "f_finite exact_float (f_sub exact_float ([Some 0, Some 1] ! k) ([Some 0, Some 3] ! (nat 1 - k)))" if "k \<le> nat 1" for k
    using that by (cases k) auto
  from ralloc_two_jobs_fairest [OF exact_float_values, of "[Some 0, Some 3]" 1 "[Some 0, Some 1]" 1, OF _ _ _ fin] show ?thesis
    by (auto simp: MaxInt64_def)
qed

text \<open>How far apart the rates of the jobs are under an allocation.\<close>

definition rate_spread :: "rat list list \<Rightarrow> int list \<Rightarrow> rat" where
  "rate_spread qps alloc = (let rates = map2 (\<lambda>q k. q ! nat k) qps alloc in Max (set rates) - Min (set rates))"

definition three_jobs :: "rat list list" where
  "three_jobs = [[0, 1, 2, 3], [0, 3, 4, 6], [0, 3, 4, 5]]"


end
