(* ===== verification/Scheduler.thy ===== *)
theory Scheduler
  imports Ralloc Queue Proto
begin

text \<open>
  \<open>idunno/resource_manager.go\<close> and \<open>idunno/scheduler.go\<close>. Workers and jobs are shared by pointer: the same
  job is in the active jobs and in the queue of pending ones, and a goroutine may hold a worker after it
  was removed. So the state has a heap of jobs and a heap of workers, a pointer is a natural number, and
  the maps and the queue hold pointers. The batch input a worker is processing is a value: only its
  id is read through the worker.
\<close>

section \<open>State\<close>

record worker =
  w_JobId :: string
  CurrBatchInput :: "batch_input option"
  LastQueryTime :: time
  w_Process :: process

record 'f scheduler =
  ActiveJobs :: "(string \<times> nat) list"
  PendingJobs :: "nat queue"
  CompletedJobs :: "(string \<times> nat) list"
  ResourceManager :: "(string \<times> nat) list"
  job_at :: "nat \<Rightarrow> 'f job"
  job_free :: nat
  worker_at :: "nat \<Rightarrow> worker"
  worker_free :: nat

definition EMPTY_STRING :: string where "EMPTY_STRING = ''''"

definition put_job :: "nat \<Rightarrow> 'f job \<Rightarrow> 'f scheduler \<Rightarrow> 'f scheduler" where
  "put_job r j s = s\<lparr>job_at := (job_at s)(r := j)\<rparr>"

definition put_worker :: "nat \<Rightarrow> worker \<Rightarrow> 'f scheduler \<Rightarrow> 'f scheduler" where
  "put_worker r w s = s\<lparr>worker_at := (worker_at s)(r := w)\<rparr>"

section \<open>resource\_manager.go\<close>

definition Reset :: "time \<Rightarrow> worker \<Rightarrow> worker" where
  "Reset now w = w\<lparr>w_JobId := EMPTY_STRING, CurrBatchInput := None, LastQueryTime := now\<rparr>"

definition Idle :: "worker \<Rightarrow> bool" where
  "Idle w \<longleftrightarrow> w_JobId w = EMPTY_STRING"

text \<open>\<open>WorkerList.Less\<close>: the most recent query first.\<close>

definition worker_Less :: "worker \<Rightarrow> worker \<Rightarrow> bool" where
  "worker_Less a b \<longleftrightarrow> LastQueryTime a > LastQueryTime b"

interpretation worker_order: sort_interface worker_Less
  by unfold_locales (auto simp: worker_Less_def)

definition GetWorker :: "string \<Rightarrow> 'f scheduler \<Rightarrow> nat option" where
  "GetWorker workerAddr s = map_of (ResourceManager s) workerAddr"

definition AddWorker :: "time \<Rightarrow> process \<Rightarrow> 'f scheduler \<Rightarrow> 'f scheduler" where
  "AddWorker now p s =
     (let r = worker_free s;
          w = \<lparr>w_JobId = EMPTY_STRING, CurrBatchInput = None, LastQueryTime = now, w_Process = p\<rparr>
      in (put_worker r w s)\<lparr>worker_free := r + 1, ResourceManager := AList.update (Address p) r (ResourceManager s)\<rparr>)"

definition RemoveWorker :: "process \<Rightarrow> 'f scheduler \<Rightarrow> nat option \<times> 'f scheduler" where
  "RemoveWorker p s =
     (case map_of (ResourceManager s) (Address p) of
        None \<Rightarrow> (None, s)
      | Some r \<Rightarrow> (Some r, s\<lparr>ResourceManager := AList.delete (Address p) (ResourceManager s)\<rparr>))"

definition GetIdleWorkers :: "'f scheduler \<Rightarrow> nat list" where
  "GetIdleWorkers s = filter (\<lambda>r. Idle (worker_at s r)) (map snd (ResourceManager s))"

definition GetWorkersById :: "string \<Rightarrow> 'f scheduler \<Rightarrow> nat list" where
  "GetWorkersById jobId s = filter (\<lambda>r. w_JobId (worker_at s r) = jobId) (map snd (ResourceManager s))"

definition GetWorkerCountById :: "string \<Rightarrow> 'f scheduler \<Rightarrow> int" where
  "GetWorkerCountById jobId s = int (length (GetWorkersById jobId s))"

definition rm_Len :: "'f scheduler \<Rightarrow> int" where
  "rm_Len s = int (length (ResourceManager s))"

section \<open>scheduler.go\<close>

definition NewIDunnoScheduler :: "(nat \<Rightarrow> 'f job) \<Rightarrow> (nat \<Rightarrow> worker) \<Rightarrow> 'f scheduler" where
  "NewIDunnoScheduler jobs workers =
     \<lparr>ActiveJobs = [], PendingJobs = NewQueue, CompletedJobs = [], ResourceManager = [],
      job_at = jobs, job_free = 0, worker_at = workers, worker_free = 0\<rparr>"

text \<open>\<open>AddJob\<close> gets a pointer to a job that was just allocated.\<close>

definition new_job :: "'f job \<Rightarrow> 'f scheduler \<Rightarrow> nat \<times> 'f scheduler" where
  "new_job j s = (job_free s, (put_job (job_free s) j s)\<lparr>job_free := job_free s + 1\<rparr>)"

definition AddJob :: "nat \<Rightarrow> 'f scheduler \<Rightarrow> 'f scheduler" where
  "AddJob r s = s\<lparr>ActiveJobs := AList.update (job_Id (job_at s r)) r (ActiveJobs s)\<rparr>"

definition GetJob :: "string \<Rightarrow> 'f scheduler \<Rightarrow> nat option" where
  "GetJob jobId s = map_of (ActiveJobs s) jobId"

text \<open>\<open>clk r\<close> is the time at which worker \<open>r\<close> is reset.\<close>

definition refresh_worker :: "(nat \<Rightarrow> time) \<Rightarrow> 'f scheduler \<Rightarrow> nat \<Rightarrow> 'f scheduler" where
  "refresh_worker clk s r =
     (if mem_key (w_JobId (worker_at s r)) (ActiveJobs s) then s
      else put_worker r (Reset (clk r) (worker_at s r)) s)"

definition RefreshWorkerStatus :: "(nat \<Rightarrow> time) \<Rightarrow> 'f scheduler \<Rightarrow> 'f scheduler" where
  "RefreshWorkerStatus clk s = foldl (refresh_worker clk) s (map snd (ResourceManager s))"

definition holds_batch :: "'f scheduler \<Rightarrow> int \<Rightarrow> nat \<Rightarrow> bool" where
  "holds_batch s bid r = (case CurrBatchInput (worker_at s r) of None \<Rightarrow> False | Some b \<Rightarrow> BatchId b = bid)"

definition refresh_batch :: "'f scheduler \<Rightarrow> nat list \<Rightarrow> nat \<times> 'f batch_state \<Rightarrow> 'f batch_state" where
  "refresh_batch s workers = (\<lambda>(i, b).
     if Status b \<noteq> InProgress then b
     else if \<exists>r \<in> set workers. holds_batch s (to_int32 (int i)) r then b
     else b\<lparr>Status := Available\<rparr>)"

definition RefreshBatchStatus :: "'f scheduler \<Rightarrow> 'f scheduler" where
  "RefreshBatchStatus s =
     foldl (\<lambda>s jr.
       let j = job_at s jr; workers = GetWorkersById (job_Id j) s
       in put_job jr (j\<lparr>BatchStates := map (refresh_batch s workers) (enumerate 0 (BatchStates j))\<rparr>) s)
       s (map snd (ActiveJobs s))"

subsection \<open>RefreshSchedule\<close>

text \<open>\<open>sort.Strings\<close>: byte-wise lexicographic order.\<close>

fun string_less :: "string \<Rightarrow> string \<Rightarrow> bool" where
  "string_less _ [] = False"
| "string_less [] (_ # _) = True"
| "string_less (x # xs) (y # ys) \<longleftrightarrow>
     (of_char x :: nat) < of_char y \<or> (of_char x :: nat) = of_char y \<and> string_less xs ys"

definition active_jobs :: "'f scheduler \<Rightarrow> (string \<times> nat) list" where
  "active_jobs s = map (\<lambda>jid. (jid, the (map_of (ActiveJobs s) jid))) (sort_Sort string_less (map fst (ActiveJobs s)))"

text \<open>The allocation for the jobs in the order of their ids: global when \<open>LAST_SECONDS\<close> has its initial
  value, local otherwise.\<close>

definition allocate :: "'f float64 \<Rightarrow> 'f \<Rightarrow> (nat \<Rightarrow> nat \<Rightarrow> nat \<Rightarrow> time) \<Rightarrow> 'f scheduler \<Rightarrow> int list run" where
  "allocate F LAST_SECONDS clk s =
     (let jobs = map (\<lambda>(_, r). job_at s r) (active_jobs s) in
      if f_equal F LAST_SECONDS (f_MaxFloat64 F) then
        (case GlobalFairTimeRalloc F (int (length jobs)) (rm_Len s) (JobToQPS F clk jobs (rm_Len s)) of
           Inl e \<Rightarrow> Inl e
         | Inr (resources, _) \<Rightarrow> Inr resources)
      else Inr (fst (LocalFairTimeRalloc F jobs (rm_Len s))))"

text \<open>A missing key of \<open>allocMap\<close> reads as 0.\<close>

definition alloc_of :: "(string \<times> int) list \<Rightarrow> string \<Rightarrow> int" where
  "alloc_of allocMap jid = (case map_of allocMap jid of None \<Rightarrow> 0 | Some n \<Rightarrow> n)"

text \<open>\<open>workers[i].JobId = ""\<close> and, when it was processing a batch, that batch becomes available
  again.\<close>

definition release_worker :: "nat \<Rightarrow> nat \<Rightarrow> 'f scheduler \<Rightarrow> 'f scheduler run" where
  "release_worker jr r s =
     (let w = (worker_at s r)\<lparr>w_JobId := EMPTY_STRING\<rparr> in
      case CurrBatchInput w of
        None \<Rightarrow> Inr (put_worker r w s)
      | Some b \<Rightarrow>
          if 0 \<le> BatchId b \<and> BatchId b < int (length (BatchStates (job_at s jr))) then
            Inr (put_worker r (w\<lparr>CurrBatchInput := None\<rparr>)
              (put_job jr (modify_batch (nat (BatchId b)) (\<lambda>st. st\<lparr>Status := Available\<rparr>) (job_at s jr)) s))
          else Inl IndexOutOfRange)"

fun release_loop :: "nat \<Rightarrow> nat list \<Rightarrow> int \<Rightarrow> 'f scheduler \<Rightarrow> 'f scheduler run" where
  "release_loop jr [] n s = (if n > 0 then Inl IndexOutOfRange else Inr s)"
| "release_loop jr (r # rs) n s =
     (if n > 0 then
        (case release_worker jr r s of Inl e \<Rightarrow> Inl e | Inr s1 \<Rightarrow> release_loop jr rs (n - 1) s1)
      else Inr s)"

fun release_jobs :: "(string \<times> int) list \<Rightarrow> nat list \<Rightarrow> 'f scheduler \<Rightarrow> 'f scheduler run" where
  "release_jobs allocMap [] s = Inr s"
| "release_jobs allocMap (jr # jrs) s =
     (let jid = job_Id (job_at s jr);
          workers = sort_Sort (\<lambda>a b. worker_Less (worker_at s a) (worker_at s b)) (GetWorkersById jid s)
      in case release_loop jr workers (to_int64 (int (length workers) - alloc_of allocMap jid)) s of
           Inl e \<Rightarrow> Inl e
         | Inr s1 \<Rightarrow> release_jobs allocMap jrs s1)"

text \<open>The allocation of idle workers; \<open>newSchedule\<close> maps a job id to its new workers.\<close>

definition take_idle :: "int \<Rightarrow> int \<Rightarrow> nat list \<Rightarrow> nat list \<times> nat list" where
  "take_idle workerCount target idle = (let n = nat (target - workerCount) in (take n idle, drop n idle))"

fun assign_jobs :: "(string \<times> int) list \<Rightarrow> 'f scheduler \<Rightarrow> nat list \<Rightarrow> nat list \<Rightarrow> (string \<times> nat list) list" where
  "assign_jobs allocMap s [] idle = []"
| "assign_jobs allocMap s (jr # jrs) idle =
     (let jid = job_Id (job_at s jr);
          (new, rest) = take_idle (GetWorkerCountById jid s) (alloc_of allocMap jid) idle
      in (if new = [] then [] else [(jid, new)]) @ assign_jobs allocMap s jrs rest)"

definition RefreshSchedule :: "'f float64 \<Rightarrow> 'f \<Rightarrow> (nat \<Rightarrow> nat \<Rightarrow> nat \<Rightarrow> time) \<Rightarrow> 'f scheduler
    \<Rightarrow> ((string \<times> nat list) list \<times> 'f scheduler) run" where
  "RefreshSchedule F LAST_SECONDS clk s =
     (if rm_Len s = 0 \<or> length (ActiveJobs s) = 0 then Inr ([], s)
      else
        let ids = map fst (active_jobs s); jobs = map snd (active_jobs s) in
        case allocate F LAST_SECONDS clk s of
          Inl e \<Rightarrow> Inl e
        | Inr resources \<Rightarrow>
            let allocMap = zip ids resources in
            case release_jobs allocMap jobs s of
              Inl e \<Rightarrow> Inl e
            | Inr s1 \<Rightarrow> Inr (assign_jobs allocMap s1 jobs (GetIdleWorkers s1), s1))"

subsection \<open>Callbacks\<close>

text \<open>The worker is only dereferenced after the job was updated; a worker that is not registered is a
  nil pointer.\<close>

definition OnReceiveBatchOutput :: "time \<Rightarrow> time \<Rightarrow> string \<Rightarrow> process \<Rightarrow> 'f batch_output \<Rightarrow> 'f scheduler \<Rightarrow> 'f scheduler run" where
  "OnReceiveBatchOutput t1 t2 jobId workerProcess batchOutput s =
     (let wr = GetWorker (Address workerProcess) s in
      case GetJob jobId s of
        None \<Rightarrow> Inr s
      | Some jr \<Rightarrow>
          let j = job_at s jr; batchId = bo_BatchId batchOutput in
          if \<not> (0 \<le> batchId \<and> batchId < int (length (BatchStates j))) then Inl IndexOutOfRange
          else
            let j1 = modify_batch (nat batchId) (\<lambda>b. b\<lparr>BatchOutput := Some batchOutput, Status := Completed, ReceiveTime := Some t1\<rparr>) j;
                j2 = j1\<lparr>CompletedQueries := to_int32 (GetCompletedBatchCount j1)\<rparr>;
                s1 = put_job jr j2 s
            in case wr of
                 None \<Rightarrow> Inl NilDereference
               | Some r \<Rightarrow>
                   let s2 = put_worker r ((worker_at s1 r)\<lparr>LastQueryTime := t2, CurrBatchInput := None\<rparr>) s1 in
                   if CompletedQueries j2 < TotalQueries j2 then Inr s2
                   else if \<exists>p \<in> set (PendingJobs s2). job_Id (job_at s2 p) = jobId then Inr s2
                   else Inr (s2\<lparr>PendingJobs := Queue_Push jr (PendingJobs s2)\<rparr>))"

definition OnWorkerFailed :: "process \<Rightarrow> 'f scheduler \<Rightarrow> 'f scheduler run" where
  "OnWorkerFailed p s =
     (case RemoveWorker p s of
        (None, s1) \<Rightarrow> Inr s1
      | (Some r, s1) \<Rightarrow>
          let w = worker_at s1 r in
          if w_JobId w = EMPTY_STRING then Inr s1
          else case CurrBatchInput w of
            None \<Rightarrow> Inr s1
          | Some b \<Rightarrow>
              (case GetJob (w_JobId w) s1 of
                 None \<Rightarrow> Inr s1
               | Some jr \<Rightarrow>
                   if 0 \<le> BatchId b \<and> BatchId b < int (length (BatchStates (job_at s1 jr)))
                   then Inr (put_job jr (modify_batch (nat (BatchId b)) (\<lambda>st. st\<lparr>Status := Available\<rparr>) (job_at s1 jr)) s1)
                   else Inl IndexOutOfRange))"

definition OnWorkerJoined :: "time \<Rightarrow> process \<Rightarrow> 'f scheduler \<Rightarrow> 'f scheduler" where
  "OnWorkerJoined now p s = AddWorker now p s"

definition OnWorkerLeaved :: "process \<Rightarrow> 'f scheduler \<Rightarrow> 'f scheduler" where
  "OnWorkerLeaved p s = s\<lparr>ResourceManager := [], ActiveJobs := []\<rparr>"

section \<open>Invariant\<close>

definition jobs_inv :: "evaluation \<Rightarrow> 'f scheduler \<Rightarrow> bool" where
  "jobs_inv eval s \<longleftrightarrow>
     wf_map (ActiveJobs s) \<and> wf_map (CompletedJobs s)
     \<and> (\<forall>(jid, r) \<in> set (ActiveJobs s). r < job_free s \<and> job_Id (job_at s r) = jid \<and> job_ok eval (job_at s r))
     \<and> (\<forall>r \<in> set (PendingJobs s). r < job_free s \<and> job_ok eval (job_at s r) \<and> all_outputs (job_at s r))
     \<and> (\<forall>(jid, r) \<in> set (CompletedJobs s).
          r < job_free s \<and> job_Id (job_at s r) = jid \<and> job_ok eval (job_at s r) \<and> all_outputs (job_at s r))"

definition rm_inv :: "'f scheduler \<Rightarrow> bool" where
  "rm_inv s \<longleftrightarrow> wf_map (ResourceManager s) \<and> distinct (map snd (ResourceManager s))
     \<and> (\<forall>r \<in> set (map snd (ResourceManager s)). r < worker_free s)"

text \<open>The jobs of one state become those of another by operations that only evolve them.\<close>

definition heap_le :: "evaluation \<Rightarrow> 'f scheduler \<Rightarrow> 'f scheduler \<Rightarrow> bool" where
  "heap_le eval s s' \<longleftrightarrow> job_free s \<le> job_free s' \<and> (\<forall>r < job_free s. evolves eval (job_at s r) (job_at s' r))"

definition same_maps :: "'f scheduler \<Rightarrow> 'f scheduler \<Rightarrow> bool" where
  "same_maps s s' \<longleftrightarrow> ActiveJobs s' = ActiveJobs s \<and> PendingJobs s' = PendingJobs s \<and> CompletedJobs s' = CompletedJobs s
     \<and> ResourceManager s' = ResourceManager s \<and> worker_free s' = worker_free s"

definition quiet :: "evaluation \<Rightarrow> 'f scheduler \<Rightarrow> 'f scheduler \<Rightarrow> bool" where
  "quiet eval s s' \<longleftrightarrow> heap_le eval s s' \<and> same_maps s s'"

lemma heap_le_refl [simp]: "heap_le eval s s"
  by (simp add: heap_le_def)

lemma quiet_refl [simp]: "quiet eval s s"
  by (simp add: quiet_def same_maps_def)

lemma quiet_trans: "quiet eval s s' \<Longrightarrow> quiet eval s' s'' \<Longrightarrow> quiet eval s s''"
  unfolding quiet_def heap_le_def same_maps_def by (auto intro: evolves_trans)

lemma quiet_put_worker [simp]: "quiet eval s (put_worker r w s)"
  by (simp add: quiet_def heap_le_def same_maps_def put_worker_def)

lemma quiet_put_job: "evolves eval (job_at s r) j \<Longrightarrow> quiet eval s (put_job r j s)"
  by (simp add: quiet_def heap_le_def same_maps_def put_job_def)

lemma jobs_inv_mono:
  assumes "jobs_inv eval s" and "heap_le eval s s'" and "wf_map (ActiveJobs s')"
    and "set (ActiveJobs s') \<subseteq> set (ActiveJobs s)" and "set (PendingJobs s') \<subseteq> set (PendingJobs s)" and "CompletedJobs s' = CompletedJobs s"
  shows "jobs_inv eval s'"
proof -
  have e: "r < job_free s' \<and> job_Id (job_at s' r) = job_Id (job_at s r) \<and> (job_ok eval (job_at s r) \<longrightarrow> job_ok eval (job_at s' r))
      \<and> (all_outputs (job_at s r) \<longrightarrow> all_outputs (job_at s' r))" if "r < job_free s" for r
  proof -
    have ev: "evolves eval (job_at s r) (job_at s' r)" and "job_free s \<le> job_free s'" using assms(2) that by (simp_all add: heap_le_def)
    with that evolves_job_ok [OF ev] evolves_all_outputs [OF ev] evolves_Id [OF ev] show ?thesis by simp
  qed
  show ?thesis using assms(1,3-6) e unfolding jobs_inv_def split_def by (intro conjI ballI) (simp_all add: subset_eq)
qed

lemma quiet_jobs_inv: "quiet eval s s' \<Longrightarrow> jobs_inv eval s \<Longrightarrow> jobs_inv eval s'"
  by (rule jobs_inv_mono [of eval s s']) (simp_all add: quiet_def same_maps_def jobs_inv_def)

lemma quiet_rm_inv: "quiet eval s s' \<Longrightarrow> rm_inv s \<Longrightarrow> rm_inv s'"
  by (simp add: quiet_def same_maps_def rm_inv_def)

interpretation sched: evolution "quiet eval" for eval
  by unfold_locales (auto intro: quiet_trans)

lemmas quiet_foldl = sched.foldl_le

subsection \<open>The operations keep it\<close>

lemma RefreshWorkerStatus_quiet: "quiet eval s (RefreshWorkerStatus clk s)"
  unfolding RefreshWorkerStatus_def by (rule quiet_foldl) (simp add: refresh_worker_def)

lemma evolves_refresh: "evolves eval j (j\<lparr>BatchStates := map (refresh_batch s ws) (enumerate 0 (BatchStates j))\<rparr>)"
  by (rule evolves_batches) (auto simp: nth_enumerate_eq refresh_batch_def batch_ok_def)

lemma RefreshBatchStatus_quiet: "quiet eval s (RefreshBatchStatus s)"
  unfolding RefreshBatchStatus_def Let_def by (intro quiet_foldl quiet_put_job evolves_refresh)

lemma release_worker_quiet: "release_worker jr r s = Inr s' \<Longrightarrow> quiet eval s s'"
  by (auto simp: release_worker_def Let_def split: option.splits if_splits
      intro: quiet_trans [OF quiet_put_job [OF evolves_available] quiet_put_worker])

lemma release_loop_quiet: "release_loop jr rs n s = Inr s' \<Longrightarrow> quiet eval s s'"
  by (induction jr rs n s rule: release_loop.induct)
    (auto split: if_splits sum.splits intro: quiet_trans release_worker_quiet)

lemma release_jobs_quiet: "release_jobs m jrs s = Inr s' \<Longrightarrow> quiet eval s s'"
  by (induction m jrs s rule: release_jobs.induct)
    (auto simp: Let_def split: sum.splits intro: quiet_trans release_loop_quiet)

lemma RefreshSchedule_quiet: "RefreshSchedule F last_s clk s = Inr (sch, s') \<Longrightarrow> quiet eval s s'"
  by (auto simp: RefreshSchedule_def Let_def split: if_splits sum.splits intro: release_jobs_quiet)

lemma OnWorkerFailed_heap:
  assumes "OnWorkerFailed p s = Inr s'"
  shows "heap_le eval s s' \<and> ActiveJobs s' = ActiveJobs s \<and> PendingJobs s' = PendingJobs s \<and> CompletedJobs s' = CompletedJobs s
    \<and> worker_free s' = worker_free s \<and> ResourceManager s' = AList.delete (Address p) (ResourceManager s)"
  using assms evolves_available
  by (fastforce simp: OnWorkerFailed_def RemoveWorker_def Let_def heap_le_def put_job_def delete_id map_of_eq_None_iff
      split: option.splits if_splits)

lemma rm_inv_AddWorker: "rm_inv s \<Longrightarrow> rm_inv (AddWorker now p s)"
proof -
  have "distinct (map snd (AList.update k v m)) \<and> snd ` set (AList.update k v m) \<subseteq> insert v (snd ` set m)"
    if "distinct (map snd m)" "v \<notin> snd ` set m" for k v and m :: "(string \<times> nat) list"
    using that by (induction m) auto
  then show "rm_inv s \<Longrightarrow> ?thesis"
    by (fastforce simp: rm_inv_def AddWorker_def Let_def put_worker_def)
qed

lemma jobs_inv_active:
  assumes "jobs_inv eval s" and "GetJob jid s = Some r"
  shows "r < job_free s" and "job_Id (job_at s r) = jid" and "job_ok eval (job_at s r)"
proof -
  have "(jid, r) \<in> set (ActiveJobs s)" using assms(2) by (simp add: GetJob_def map_of_SomeD)
  then show "r < job_free s" "job_Id (job_at s r) = jid" "job_ok eval (job_at s r)"
    using assms(1) by (auto simp: jobs_inv_def)
qed

text \<open>What recording an output does to the job.\<close>

definition record_output :: "time \<Rightarrow> 'f batch_output \<Rightarrow> 'f job \<Rightarrow> 'f job" where
  "record_output t out j =
     (let j1 = modify_batch (nat (bo_BatchId out)) (\<lambda>b. b\<lparr>BatchOutput := Some out, Status := Completed, ReceiveTime := Some t\<rparr>) j
      in j1\<lparr>CompletedQueries := to_int32 (GetCompletedBatchCount j1)\<rparr>)"

lemma record_output_evolves:
  assumes "computed eval (job_Id j) out" and "0 \<le> bo_BatchId out"
  shows "evolves eval j (record_output t out j)"
  unfolding record_output_def Let_def
  by (rule evolves_trans [OF evolves_completed [OF assms(1)] evolves_same_batches]) (use assms(2) in simp_all)

lemma record_output_completed:
  assumes "job_ok eval (record_output t out j)" and "\<not> CompletedQueries (record_output t out j) < TotalQueries (record_output t out j)"
  shows "all_outputs (record_output t out j)"
  by (rule all_completed [OF assms(1)]) (use assms(2) in \<open>simp add: record_output_def Let_def GetCompletedBatchCount_def\<close>)

lemma OnReceiveBatchOutput_eq:
  "OnReceiveBatchOutput t1 t2 jobId p out s =
     (case GetJob jobId s of
        None \<Rightarrow> Inr s
      | Some jr \<Rightarrow>
          if \<not> (0 \<le> bo_BatchId out \<and> bo_BatchId out < int (length (BatchStates (job_at s jr)))) then Inl IndexOutOfRange
          else let j2 = record_output t1 out (job_at s jr); s1 = put_job jr j2 s in
            case GetWorker (Address p) s of
              None \<Rightarrow> Inl NilDereference
            | Some r \<Rightarrow>
                let s2 = put_worker r ((worker_at s r)\<lparr>LastQueryTime := t2, CurrBatchInput := None\<rparr>) s1 in
                Inr (if CompletedQueries j2 < TotalQueries j2 \<or> (\<exists>q \<in> set (PendingJobs s). job_Id (job_at s2 q) = jobId) then s2
                     else s2\<lparr>PendingJobs := PendingJobs s @ [jr]\<rparr>))"
  unfolding OnReceiveBatchOutput_def record_output_def Let_def
  by (auto simp: put_job_def put_worker_def Queue_Push_def split: option.splits)

lemma OnReceiveBatchOutput_inv:
  assumes inv: "jobs_inv eval s" and out: "computed eval jobId out" and run: "OnReceiveBatchOutput t1 t2 jobId p out s = Inr s'"
  shows "jobs_inv eval s' \<and> ActiveJobs s' = ActiveJobs s \<and> ResourceManager s' = ResourceManager s \<and> worker_free s' = worker_free s"
proof (cases "GetJob jobId s")
  case None
  with run inv show ?thesis by (simp add: OnReceiveBatchOutput_eq)
next
  case (Some jr)
  note j = jobs_inv_active [OF inv Some]
  let ?j2 = "record_output t1 out (job_at s jr)"
  obtain r where range: "0 \<le> bo_BatchId out" and r: "GetWorker (Address p) s = Some r"
    using run Some by (auto simp: OnReceiveBatchOutput_eq Let_def split: if_splits option.splits)
  let ?s2 = "put_worker r ((worker_at s r)\<lparr>LastQueryTime := t2, CurrBatchInput := None\<rparr>) (put_job jr ?j2 s)"
  have ev: "evolves eval (job_at s jr) ?j2" using record_output_evolves out j(2) range by blast
  have q: "quiet eval s ?s2" by (rule quiet_trans [OF quiet_put_job [OF ev] quiet_put_worker])
  have inv2: "jobs_inv eval ?s2" by (rule quiet_jobs_inv [OF q inv])
  have maps: "same_maps s ?s2" using q by (simp add: quiet_def)
  from run Some r have s': "s' = (if CompletedQueries ?j2 < TotalQueries ?j2 \<or> (\<exists>q \<in> set (PendingJobs s). job_Id (job_at ?s2 q) = jobId) then ?s2
      else ?s2\<lparr>PendingJobs := PendingJobs s @ [jr]\<rparr>)"
    by (auto simp: OnReceiveBatchOutput_eq Let_def split: if_splits)
  have ok: "job_ok eval ?j2" by (rule evolves_job_ok [OF ev j(3)])
  have at: "job_at ?s2 jr = ?j2" "jr < job_free ?s2" using j(1) by (simp_all add: put_worker_def put_job_def)
  have "jobs_inv eval (?s2\<lparr>PendingJobs := PendingJobs s @ [jr]\<rparr>)" if "\<not> CompletedQueries ?j2 < TotalQueries ?j2"
    using inv2 at ok record_output_completed [OF ok that] maps by (auto simp: jobs_inv_def same_maps_def)
  with inv2 maps s' show ?thesis by (auto simp: same_maps_def)
qed

section \<open>Lost batches\<close>

definition refresh_job :: "'f scheduler \<Rightarrow> 'f job \<Rightarrow> 'f job" where
  "refresh_job s j = j\<lparr>BatchStates := map (refresh_batch s (GetWorkersById (job_Id j) s)) (enumerate 0 (BatchStates j))\<rparr>"

lemma workers_put_job [simp]:
  "GetWorkersById jid (put_job r j s) = GetWorkersById jid s" "holds_batch (put_job r j s) = holds_batch s"
  by (simp_all add: GetWorkersById_def holds_batch_def put_job_def fun_eq_iff)

lemma refresh_job_put_job [simp]: "refresh_job (put_job r j s) = refresh_job s"
  by (rule ext) (simp add: refresh_job_def refresh_batch_def cong: if_cong)

lemma refresh_foldl:
  "distinct rs \<Longrightarrow> foldl (\<lambda>s r. put_job r (refresh_job s (job_at s r)) s) s rs
     = s\<lparr>job_at := \<lambda>r. if r \<in> set rs then refresh_job s (job_at s r) else job_at s r\<rparr>"
proof (induction rs arbitrary: s)
  case Nil
  then show ?case by simp
next
  case (Cons r rs)
  then have IH: "foldl (\<lambda>s r. put_job r (refresh_job s (job_at s r)) s) (put_job r (refresh_job s (job_at s r)) s) rs
     = (put_job r (refresh_job s (job_at s r)) s)\<lparr>job_at := \<lambda>r'. if r' \<in> set rs
          then refresh_job s (job_at (put_job r (refresh_job s (job_at s r)) s) r') else job_at (put_job r (refresh_job s (job_at s r)) s) r'\<rparr>"
    by (simp cong: if_cong)
  from Cons.prems show ?case by (simp add: IH) (auto simp: put_job_def fun_eq_iff)
qed

lemma active_refs_distinct: "jobs_inv eval s \<Longrightarrow> distinct (map snd (ActiveJobs s))"
proof -
  assume inv: "jobs_inv eval s"
  have "map (\<lambda>r. job_Id (job_at s r)) (map snd (ActiveJobs s)) = map fst (ActiveJobs s)"
    using inv by (auto simp: jobs_inv_def)
  then have "distinct (map (\<lambda>r. job_Id (job_at s r)) (map snd (ActiveJobs s)))" using inv by (metis jobs_inv_def)
  then show ?thesis unfolding distinct_map [of _ "map snd (ActiveJobs s)"] by blast
qed

lemma RefreshBatchStatus_eq:
  assumes "jobs_inv eval s"
  shows "RefreshBatchStatus s = s\<lparr>job_at := \<lambda>r. if r \<in> set (map snd (ActiveJobs s)) then refresh_job s (job_at s r) else job_at s r\<rparr>"
  using refresh_foldl [OF active_refs_distinct [OF assms]]
  by (simp add: RefreshBatchStatus_def refresh_job_def Let_def)

text \<open>C18. Work on a failed worker is not lost: in a well-formed state, \<open>RefreshBatchStatus\<close> makes a batch of an
  active job available exactly when it is marked in progress and no registered worker of the job is
  processing it; every other batch keeps its status, and outputs already received are kept.\<close>

theorem lost_batches_recovered:
  assumes inv: "jobs_inv eval s" and job: "GetJob jid s = Some jr" and i: "i < length (BatchStates (job_at s jr))"
  shows "Status (BatchStates (job_at (RefreshBatchStatus s) jr) ! i) =
      (if Status (BatchStates (job_at s jr) ! i) = InProgress
          \<and> \<not> (\<exists>r \<in> set (GetWorkersById jid s). \<exists>b. CurrBatchInput (worker_at s r) = Some b \<and> BatchId b = int i)
       then Available else Status (BatchStates (job_at s jr) ! i))
    \<and> BatchOutput (BatchStates (job_at (RefreshBatchStatus s) jr) ! i) = BatchOutput (BatchStates (job_at s jr) ! i)"
proof -
  note j = jobs_inv_active [OF inv job]
  have "jr \<in> set (map snd (ActiveJobs s))" using job by (force simp: GetJob_def dest: map_of_SomeD)
  then have at: "job_at (RefreshBatchStatus s) jr = refresh_job s (job_at s jr)" by (simp add: RefreshBatchStatus_eq [OF inv])
  have "to_int32 (int i) = int i" using i j(3) by (intro to_int32_id) (auto simp: job_ok_def)
  then show ?thesis using i j(2)
    by (auto simp: at refresh_job_def nth_enumerate_eq refresh_batch_def holds_batch_def split: option.splits)
qed

section \<open>The schedule uses every worker\<close>

text \<open>Every registered worker is idle or works for an active job, which \<open>RefreshWorkerStatus\<close> establishes;
  and a batch that is being processed is a batch of the worker's job.\<close>

definition worker_settled :: "'f scheduler \<Rightarrow> nat \<Rightarrow> bool" where
  "worker_settled s r \<longleftrightarrow> Idle (worker_at s r) \<or> w_JobId (worker_at s r) \<in> fst ` set (ActiveJobs s)"

definition settled :: "'f scheduler \<Rightarrow> bool" where
  "settled s \<longleftrightarrow> EMPTY_STRING \<notin> fst ` set (ActiveJobs s) \<and> (\<forall>r \<in> set (map snd (ResourceManager s)). worker_settled s r)"

definition held_in :: "'f scheduler \<Rightarrow> nat \<Rightarrow> nat \<Rightarrow> bool" where
  "held_in s jr r = (case CurrBatchInput (worker_at s r) of
      None \<Rightarrow> True
    | Some b \<Rightarrow> 0 \<le> BatchId b \<and> BatchId b < int (length (BatchStates (job_at s jr))))"

definition held_ok :: "'f scheduler \<Rightarrow> bool" where
  "held_ok s \<longleftrightarrow> (\<forall>r \<in> set (map snd (ResourceManager s)). \<forall>(jid, jr) \<in> set (ActiveJobs s).
     w_JobId (worker_at s r) = jid \<longrightarrow> held_in s jr r)"

lemma refresh_worker_settles: "r' = r \<or> worker_settled s r' \<Longrightarrow> worker_settled (refresh_worker clk s r) r'"
  by (auto simp: worker_settled_def refresh_worker_def put_worker_def Reset_def Idle_def mem_key_iff simp del: not_None_eq)

lemma refresh_foldl_settles:
  "r \<in> set rs \<or> worker_settled s r \<Longrightarrow> worker_settled (foldl (refresh_worker clk) s rs) r"
  by (induction rs arbitrary: s) (auto intro: refresh_worker_settles)

lemma RefreshWorkerStatus_settled:
  assumes "EMPTY_STRING \<notin> fst ` set (ActiveJobs s)"
  shows "settled (RefreshWorkerStatus clk s)"
  using assms RefreshWorkerStatus_quiet [of undefined s clk] refresh_foldl_settles [of _ "map snd (ResourceManager s)" s clk]
  by (auto simp: settled_def RefreshWorkerStatus_def quiet_def same_maps_def)

text \<open>Releasing the first \<open>n\<close> workers of a job.\<close>

definition released :: "worker \<Rightarrow> worker" where
  "released w = w\<lparr>w_JobId := EMPTY_STRING, CurrBatchInput := None\<rparr>"

definition same_jobs :: "'f scheduler \<Rightarrow> 'f scheduler \<Rightarrow> bool" where
  "same_jobs s s' \<longleftrightarrow> same_maps s s' \<and> (\<forall>r. job_Id (job_at s' r) = job_Id (job_at s r)
     \<and> length (BatchStates (job_at s' r)) = length (BatchStates (job_at s r)))"

lemma same_jobs_refl [simp]: "same_jobs s s"
  by (simp add: same_jobs_def same_maps_def)

lemma same_jobs_trans: "same_jobs s s' \<Longrightarrow> same_jobs s' s'' \<Longrightarrow> same_jobs s s''"
  by (simp add: same_jobs_def same_maps_def)

lemma release_worker_spec:
  assumes "held_in s jr r"
  shows "\<exists>s'. release_worker jr r s = Inr s' \<and> worker_at s' = (worker_at s)(r := released (worker_at s r)) \<and> same_jobs s s'"
  using assms
  by (auto simp: release_worker_def held_in_def released_def Let_def put_worker_def put_job_def same_jobs_def same_maps_def
      split: option.splits)

lemma release_loop_spec:
  assumes "distinct rs" and "n \<le> int (length rs)" and "\<And>r. r \<in> set rs \<Longrightarrow> held_in s jr r"
  shows "\<exists>s'. release_loop jr rs n s = Inr s' \<and> same_jobs s s'
    \<and> worker_at s' = (\<lambda>r. if r \<in> set (take (nat n) rs) then released (worker_at s r) else worker_at s r)"
  using assms
proof (induction jr rs n s rule: release_loop.induct)
  case (1 jr n s)
  then show ?case by simp
next
  case (2 jr r rs n s)
  show ?case
  proof (cases "n > 0")
    case False
    then show ?thesis by simp
  next
    case True
    obtain s1 where s1: "release_worker jr r s = Inr s1" "worker_at s1 = (worker_at s)(r := released (worker_at s r))" "same_jobs s s1"
      using release_worker_spec [of s jr r] "2.prems"(3) by auto
    have "held_in s1 jr r'" if "r' \<in> set rs" for r'
      using "2.prems"(1) "2.prems"(3) [of r'] that s1(2,3) by (auto simp: held_in_def same_jobs_def split: option.splits)
    with 2 True s1 obtain s' where s': "release_loop jr rs (n - 1) s1 = Inr s'" "same_jobs s1 s'"
      "worker_at s' = (\<lambda>r. if r \<in> set (take (nat (n - 1)) rs) then released (worker_at s1 r) else worker_at s1 r)" by auto
    have "nat n = Suc (nat (n - 1))" using True by simp
    moreover have "r \<notin> set (take k rs)" for k using "2.prems"(1) by (auto dest: in_set_takeD)
    ultimately show ?thesis using True s1 s' same_jobs_trans [OF s1(3) s'(2)] by (auto simp: fun_eq_iff)
  qed
qed

definition count_of :: "'f scheduler \<Rightarrow> string \<Rightarrow> nat" where
  "count_of s jid = length (GetWorkersById jid s)"

definition frees :: "'f scheduler \<Rightarrow> 'f scheduler \<Rightarrow> bool" where
  "frees s s' \<longleftrightarrow> same_jobs s s' \<and> (\<forall>r. worker_at s' r = worker_at s r \<or> worker_at s' r = released (worker_at s r))"

lemma released_idem [simp]: "released (released w) = released w"
  by (simp add: released_def)

lemma frees_worker: "frees s s' \<Longrightarrow> worker_at s' r = worker_at s r \<or> worker_at s' r = released (worker_at s r)"
  by (simp add: frees_def)

lemma frees_jobs: "frees s s' \<Longrightarrow> same_jobs s s'"
  by (simp add: frees_def)

lemma frees_maps: "frees s s' \<Longrightarrow> ResourceManager s' = ResourceManager s \<and> ActiveJobs s' = ActiveJobs s"
  by (simp add: frees_def same_jobs_def same_maps_def)

lemma frees_trans: "frees s s' \<Longrightarrow> frees s' s'' \<Longrightarrow> frees s s''"
  unfolding frees_def by (metis released_idem same_jobs_trans)

lemma frees_held_in:
  assumes "frees s s'" and "held_in s jr r"
  shows "held_in s' jr r"
  using frees_worker [OF assms(1), of r] frees_jobs [OF assms(1)] assms(2)
  by (auto simp: held_in_def same_jobs_def released_def split: option.splits)

lemma frees_settled:
  assumes "frees s s'" and "settled s"
  shows "settled s'"
proof -
  have "worker_settled s' r" if "worker_settled s r" for r
    by (rule disjE [OF frees_worker [OF assms(1), of r]])
      (use frees_maps [OF assms(1)] that in \<open>simp_all add: worker_settled_def released_def Idle_def\<close>)
  then show ?thesis using assms(2) frees_maps [OF assms(1)] by (simp add: settled_def)
qed

lemma frees_subset:
  assumes "frees s s'" and "jid \<noteq> EMPTY_STRING"
  shows "set (GetWorkersById jid s') \<subseteq> set (GetWorkersById jid s)"
proof
  fix r assume "r \<in> set (GetWorkersById jid s')"
  with frees_worker [OF assms(1), of r] frees_maps [OF assms(1)] assms(2) show "r \<in> set (GetWorkersById jid s)"
    by (auto simp: GetWorkersById_def released_def)
qed

lemma distinct_workers: "rm_inv s \<Longrightarrow> distinct (GetWorkersById jid s)"
  unfolding GetWorkersById_def rm_inv_def by (intro distinct_filter) simp

lemma filter_without:
  assumes "distinct xs" and "T \<subseteq> set (filter P xs)"
  shows "length (filter (\<lambda>x. x \<notin> T \<and> P x) xs) = length (filter P xs) - card T"
proof -
  have "set (filter (\<lambda>x. x \<notin> T \<and> P x) xs) = set (filter P xs) - T" by auto
  then show ?thesis using assms by (metis List.finite_set card_Diff_subset distinct_card distinct_filter rev_finite_subset)
qed

lemma count_of_le: "int (count_of s jid) \<le> rm_Len s"
  using length_filter_le [of "\<lambda>r. w_JobId (worker_at s r) = jid" "map snd (ResourceManager s)"]
  by (simp add: count_of_def GetWorkersById_def rm_Len_def)

lemma release_job_spec:
  fixes s :: "'f scheduler"
  defines "ws jid \<equiv> sort_Sort (\<lambda>a b. worker_Less (worker_at s a) (worker_at s b)) (GetWorkersById jid s)"
  assumes rm: "rm_inv s" and held: "\<And>r. r \<in> set (GetWorkersById jid s) \<Longrightarrow> held_in s jr r"
    and n: "0 \<le> n" "n \<le> rm_Len s" "rm_Len s < 2 ^ 63" and ne: "jid \<noteq> EMPTY_STRING"
  shows "\<exists>s'. release_loop jr (ws jid) (to_int64 (int (length (ws jid)) - n)) s = Inr s' \<and> frees s s'
    \<and> (\<forall>j. j \<noteq> EMPTY_STRING \<longrightarrow> count_of s' j = (if j = jid then min (count_of s jid) (nat n) else count_of s j))"
proof -
  let ?k = "int (length (ws jid)) - n"
  have len: "length (ws jid) = count_of s jid" and set_ws: "set (ws jid) = set (GetWorkersById jid s)"
    by (simp_all add: ws_def count_of_def)
  have dist: "distinct (ws jid)" using distinct_workers [OF rm] by (simp add: ws_def)
  have k: "to_int64 ?k = ?k" using n count_of_le [of s jid] len by (intro to_int64_id) auto
  obtain s' where s': "release_loop jr (ws jid) ?k s = Inr s'" "same_jobs s s'"
    "worker_at s' = (\<lambda>r. if r \<in> set (take (nat ?k) (ws jid)) then released (worker_at s r) else worker_at s r)"
    using release_loop_spec [OF dist, of ?k s jr] held set_ws n(1) by auto
  let ?T = "set (take (nat ?k) (ws jid))"
  have T: "?T \<subseteq> set (GetWorkersById jid s)" using set_take_subset [of "nat ?k" "ws jid"] set_ws by simp
  have card: "card ?T = min (count_of s jid) (nat ?k)" using distinct_card [OF distinct_take [OF dist]] len by simp
  have ids: "w_JobId (worker_at s' r) = j \<longleftrightarrow> r \<notin> ?T \<and> w_JobId (worker_at s r) = j" if "j \<noteq> EMPTY_STRING" for r j
    using that by (simp add: s'(3) released_def)
  have RM: "ResourceManager s' = ResourceManager s" using s'(2) by (simp add: same_jobs_def same_maps_def)
  have same: "count_of s' jid = count_of s jid - card ?T"
    using filter_without [of "map snd (ResourceManager s)" ?T "\<lambda>r. w_JobId (worker_at s r) = jid"] rm T
    unfolding count_of_def GetWorkersById_def RM ids [OF ne] by (simp add: rm_inv_def)
  have other: "count_of s' j = count_of s j" if "j \<noteq> EMPTY_STRING" "j \<noteq> jid" for j
  proof -
    have "r \<notin> ?T \<and> w_JobId (worker_at s r) = j \<longleftrightarrow> w_JobId (worker_at s r) = j" for r
      using T that(2) by (auto simp: GetWorkersById_def)
    then show ?thesis unfolding count_of_def GetWorkersById_def RM ids [OF that(1)] by simp
  qed
  have "frees s s'" using s'(2,3) by (simp add: frees_def)
  moreover have "count_of s jid - card ?T = min (count_of s jid) (nat n)" using card len n(1) by linarith
  ultimately show ?thesis using s'(1) k same other by auto
qed

lemma release_jobs_spec:
  assumes "rm_inv s" and "rm_Len s < 2 ^ 63" and "distinct (map (\<lambda>jr. job_Id (job_at s jr)) jrs)"
    and "\<And>jr. jr \<in> set jrs \<Longrightarrow> job_Id (job_at s jr) \<noteq> EMPTY_STRING
      \<and> 0 \<le> alloc_of m (job_Id (job_at s jr)) \<and> alloc_of m (job_Id (job_at s jr)) \<le> rm_Len s"
    and "\<And>jr r. jr \<in> set jrs \<Longrightarrow> r \<in> set (GetWorkersById (job_Id (job_at s jr)) s) \<Longrightarrow> held_in s jr r"
  shows "\<exists>s'. release_jobs m jrs s = Inr s' \<and> frees s s'
    \<and> (\<forall>jr \<in> set jrs. count_of s' (job_Id (job_at s jr)) = min (count_of s (job_Id (job_at s jr))) (nat (alloc_of m (job_Id (job_at s jr)))))
    \<and> (\<forall>j. j \<noteq> EMPTY_STRING \<longrightarrow> j \<notin> (\<lambda>jr. job_Id (job_at s jr)) ` set jrs \<longrightarrow> count_of s' j = count_of s j)"
  using assms
proof (induction m jrs s rule: release_jobs.induct)
  case (1 m s)
  then show ?case by (simp add: frees_def)
next
  case (2 m jr jrs s)
  let ?id = "\<lambda>s jr. job_Id (job_at s jr)"
  let ?ws = "sort_Sort (\<lambda>a b. worker_Less (worker_at s a) (worker_at s b)) (GetWorkersById (?id s jr) s)"
  obtain s1 where s1: "release_loop jr ?ws (to_int64 (int (length ?ws) - alloc_of m (?id s jr))) s = Inr s1" "frees s s1"
    "\<And>j. j \<noteq> EMPTY_STRING \<Longrightarrow> count_of s1 j = (if j = ?id s jr then min (count_of s (?id s jr)) (nat (alloc_of m (?id s jr))) else count_of s j)"
    using release_job_spec [OF "2.prems"(1), of "?id s jr" jr "alloc_of m (?id s jr)"] "2.prems"(2,4,5) by auto
  have ids: "?id s1 q = ?id s q" for q using frees_jobs [OF s1(2)] by (simp add: same_jobs_def)
  have rm: "rm_inv s1" "rm_Len s1 = rm_Len s"
    using "2.prems"(1) frees_jobs [OF s1(2)] by (simp_all add: rm_inv_def same_jobs_def same_maps_def rm_Len_def)
  have held: "held_in s1 q r" if "q \<in> set jrs" "r \<in> set (GetWorkersById (?id s1 q) s1)" for q r
  proof (rule frees_held_in [OF s1(2)], rule "2.prems"(5))
    show "q \<in> set (jr # jrs)" using that(1) by simp
    then have "?id s q \<noteq> EMPTY_STRING" using "2.prems"(4) by blast
    from frees_subset [OF s1(2) this] that(2) show "r \<in> set (GetWorkersById (?id s q) s)" unfolding ids by blast
  qed
  have "\<exists>s'. release_jobs m jrs s1 = Inr s' \<and> frees s1 s'
    \<and> (\<forall>jr \<in> set jrs. count_of s' (?id s1 jr) = min (count_of s1 (?id s1 jr)) (nat (alloc_of m (?id s1 jr))))
    \<and> (\<forall>j. j \<noteq> EMPTY_STRING \<longrightarrow> j \<notin> ?id s1 ` set jrs \<longrightarrow> count_of s' j = count_of s1 j)"
    using "2.prems"(2-4) rm held ids by (intro "2.IH" [OF refl refl s1(1)]) simp_all
  then obtain s' where s': "release_jobs m jrs s1 = Inr s'" "frees s1 s'"
    "\<And>jr. jr \<in> set jrs \<Longrightarrow> count_of s' (?id s jr) = min (count_of s1 (?id s jr)) (nat (alloc_of m (?id s jr)))"
    "\<And>j. j \<noteq> EMPTY_STRING \<Longrightarrow> j \<notin> ?id s ` set jrs \<Longrightarrow> count_of s' j = count_of s1 j" unfolding ids by blast
  have "?id s jr \<notin> ?id s ` set jrs" using "2.prems"(3) by simp
  then have "\<forall>q \<in> set (jr # jrs). count_of s' (?id s q) = min (count_of s (?id s q)) (nat (alloc_of m (?id s q)))"
    using s1(3) s'(3,4) "2.prems"(4) by auto
  moreover have "\<forall>j. j \<noteq> EMPTY_STRING \<longrightarrow> j \<notin> ?id s ` set (jr # jrs) \<longrightarrow> count_of s' j = count_of s j"
    using s1(3) s'(4) by simp
  moreover have "release_jobs m (jr # jrs) s = Inr s'" using s1(1) s'(1) by (simp add: Let_def)
  ultimately show ?case using frees_trans [OF s1(2) s'(2)] by blast
qed

text \<open>Handing out idle workers when there are exactly as many as the jobs still need.\<close>

definition scheduled :: "(string \<times> nat list) list \<Rightarrow> string \<Rightarrow> nat list" where
  "scheduled sch jid = (case map_of sch jid of None \<Rightarrow> [] | Some rs \<Rightarrow> rs)"

lemma assign_jobs_Cons:
  fixes n defines "n s m jr \<equiv> nat (alloc_of m (job_Id (job_at s jr)) - GetWorkerCountById (job_Id (job_at s jr)) s)"
  shows "assign_jobs m s (jr # jrs) idle =
    (if take (n s m jr) idle = [] then [] else [(job_Id (job_at s jr), take (n s m jr) idle)]) @ assign_jobs m s jrs (drop (n s m jr) idle)"
  by (simp add: Let_def take_idle_def n_def)

lemma assign_jobs_keys: "fst ` set (assign_jobs m s jrs idle) \<subseteq> (\<lambda>jr. job_Id (job_at s jr)) ` set jrs"
proof (induction jrs arbitrary: idle)
  case Nil
  then show ?case by simp
next
  case (Cons jr jrs)
  then show ?case unfolding assign_jobs_Cons by (auto split: if_splits)
qed

lemma assign_jobs_spec:
  assumes "distinct (map (\<lambda>jr. job_Id (job_at s jr)) jrs)"
    and "(\<Sum>jr\<leftarrow>jrs. nat (alloc_of m (job_Id (job_at s jr)) - GetWorkerCountById (job_Id (job_at s jr)) s)) = length idle"
  shows "concat (map snd (assign_jobs m s jrs idle)) = idle
    \<and> (\<forall>jr \<in> set jrs. length (scheduled (assign_jobs m s jrs idle) (job_Id (job_at s jr)))
        = nat (alloc_of m (job_Id (job_at s jr)) - GetWorkerCountById (job_Id (job_at s jr)) s))"
  using assms
proof (induction jrs arbitrary: idle)
  case Nil
  then show ?case by simp
next
  case (Cons jr jrs)
  let ?id = "\<lambda>jr. job_Id (job_at s jr)"
  let ?n = "nat (alloc_of m (?id jr) - GetWorkerCountById (?id jr) s)"
  have IH: "concat (map snd (assign_jobs m s jrs (drop ?n idle))) = drop ?n idle
    \<and> (\<forall>jr \<in> set jrs. length (scheduled (assign_jobs m s jrs (drop ?n idle)) (?id jr)) = nat (alloc_of m (?id jr) - GetWorkerCountById (?id jr) s))"
    using Cons.prems by (intro Cons.IH) auto
  have len: "?n \<le> length idle" using Cons.prems(2) by simp
  have "?id jr \<notin> fst ` set (assign_jobs m s jrs (drop ?n idle))"
    using Cons.prems(1) assign_jobs_keys [of m s jrs "drop ?n idle"] by auto
  then have fresh: "map_of (assign_jobs m s jrs (drop ?n idle)) (?id jr) = None" by (simp add: map_of_eq_None_iff)
  have eq: "assign_jobs m s (jr # jrs) idle = (if take ?n idle = [] then [] else [(?id jr, take ?n idle)]) @ assign_jobs m s jrs (drop ?n idle)"
    by (rule assign_jobs_Cons)
  have "scheduled (assign_jobs m s (jr # jrs) idle) (?id jr) = take ?n idle"
    unfolding eq scheduled_def by (cases "take ?n idle = []") (use fresh in simp_all)
  moreover have "scheduled (assign_jobs m s (jr # jrs) idle) j = scheduled (assign_jobs m s jrs (drop ?n idle)) j" if "j \<noteq> ?id jr" for j
    using that unfolding eq by (simp add: scheduled_def)
  moreover have "?id q \<noteq> ?id jr" if "q \<in> set jrs" for q using Cons.prems(1) imageI [OF that, of ?id] by auto
  moreover have "concat (map snd (assign_jobs m s (jr # jrs) idle)) = idle"
    unfolding eq using IH append_take_drop_id [of ?n idle] by (cases "take ?n idle = []") simp_all
  ultimately show ?case using IH len by simp
qed

lemma count_partition:
  "distinct ids \<Longrightarrow> length (filter (\<lambda>x. k x \<in> set ids) xs) = (\<Sum>i\<leftarrow>ids. length (filter (\<lambda>x. k x = i) xs))"
proof (induction ids)
  case Nil
  then show ?case by simp
next
  case (Cons i ids)
  have "length (filter (\<lambda>x. k x = i \<or> k x \<in> set ids) xs) = length (filter (\<lambda>x. k x = i) xs) + length (filter (\<lambda>x. k x \<in> set ids) xs)"
    using Cons.prems by (induction xs) auto
  with Cons show ?case by simp
qed

lemma workers_partition:
  assumes "settled s" and "wf_map (ActiveJobs s)"
  shows "(\<Sum>jid\<leftarrow>map fst (ActiveJobs s). count_of s jid) + length (GetIdleWorkers s) = length (ResourceManager s)"
proof -
  let ?k = "\<lambda>r. w_JobId (worker_at s r)" and ?xs = "map snd (ResourceManager s)" and ?ids = "map fst (ActiveJobs s)"
  have "length (filter (\<lambda>r. ?k r \<in> set ?ids) ?xs) + length (filter (\<lambda>r. \<not> ?k r \<in> set ?ids) ?xs) = length ?xs"
    by (rule sum_length_filter_compl)
  moreover have "filter (\<lambda>r. \<not> ?k r \<in> set ?ids) ?xs = GetIdleWorkers s"
    unfolding GetIdleWorkers_def
    by (rule filter_cong [OF refl]) (metis assms(1) settled_def worker_settled_def Idle_def list.set_map)
  ultimately show ?thesis
    using count_partition [OF assms(2), of ?k ?xs] unfolding count_of_def GetWorkersById_def by (simp only: length_map)
qed

lemma sum_list_minus:
  fixes f g :: "'a \<Rightarrow> nat"
  shows "(\<And>x. x \<in> set xs \<Longrightarrow> g x \<le> f x) \<Longrightarrow> (\<Sum>x\<leftarrow>xs. f x - g x) = (\<Sum>x\<leftarrow>xs. f x) - (\<Sum>x\<leftarrow>xs. g x)"
proof (induction xs)
  case (Cons x xs)
  moreover have "(\<Sum>x\<leftarrow>xs. g x) \<le> (\<Sum>x\<leftarrow>xs. f x)" by (rule sum_list_mono) (use Cons.prems in simp)
  ultimately show ?case by simp
qed simp

lemma active_jobs_perm:
  assumes "wf_map (ActiveJobs s)"
  shows "mset (active_jobs s) = mset (ActiveJobs s)"
proof -
  let ?f = "\<lambda>jid. (jid, the (map_of (ActiveJobs s) jid))"
  have "mset (active_jobs s) = mset (map ?f (map fst (ActiveJobs s)))" by (simp only: active_jobs_def mset_map mset_sort_Sort)
  also have "map ?f (map fst (ActiveJobs s)) = ActiveJobs s"
    unfolding map_map by (rule map_idI) (use assms in auto)
  finally show ?thesis .
qed

text \<open>In the global mode the shares come from \<open>GlobalFairTimeRalloc\<close>.\<close>

lemma allocate_total:
  assumes "f_equal F last_s (f_MaxFloat64 F)" and "ActiveJobs s \<noteq> []"
  shows "\<exists>resources. allocate F last_s clk s = Inr resources \<and> length resources = length (active_jobs s)
    \<and> (\<forall>n \<in> set resources. 0 \<le> n) \<and> sum_list resources = rm_Len s"
proof -
  let ?jobs = "map (\<lambda>(_, r). job_at s r) (active_jobs s)"
  let ?qps = "JobToQPS F clk ?jobs (rm_Len s)"
  have len: "length (active_jobs s) = length (ActiveJobs s)" by (simp add: active_jobs_def)
  have lq: "length ?qps = length (active_jobs s)" by (simp add: JobToQPS_def)
  have "?qps \<noteq> []" using lq len assms(2) by (metis length_0_conv)
  moreover have "length q = nat (rm_Len s) + 1" if "q \<in> set ?qps" for q
    using that by (auto simp: JobToQPS_def rm_Len_def nat_add_distrib)
  moreover have "int (length ?jobs) = int (length ?qps)" using lq by simp
  ultimately obtain res d where "GlobalFairTimeRalloc F (int (length ?jobs)) (rm_Len s) ?qps = Inr (res, d)"
    "length res = length ?qps" "\<forall>n \<in> set res. 0 \<le> n" "sum_list res = rm_Len s"
    using GlobalFairTimeRalloc_total [of ?qps "rm_Len s" "int (length ?jobs)" F] by (auto simp: rm_Len_def)
  then show ?thesis using assms(1) lq by (simp add: allocate_def Let_def)
qed

lemma alloc_of_zip:
  assumes "distinct ids" and "length res = length ids"
  shows "map (alloc_of (zip ids res)) ids = res"
  using assms by (intro nth_equalityI) (simp_all add: alloc_of_def map_of_zip_nth)

lemma sum_list_ge_member: "(\<And>n. n \<in> set xs \<Longrightarrow> 0 \<le> n) \<Longrightarrow> x \<in> set xs \<Longrightarrow> x \<le> sum_list (xs :: int list)"
  by (rule member_le_sum_list) auto

lemma active_jobs_ids:
  assumes "jobs_inv eval s"
  shows "map (\<lambda>jr. job_Id (job_at s jr)) (map snd (active_jobs s)) = map fst (active_jobs s)"
    and "distinct (map fst (active_jobs s))" and "set (active_jobs s) = set (ActiveJobs s)"
proof -
  have p: "mset (active_jobs s) = mset (ActiveJobs s)" using assms by (simp add: active_jobs_perm jobs_inv_def)
  then show set: "set (active_jobs s) = set (ActiveJobs s)" by (rule mset_eq_setD)
  then show "map (\<lambda>jr. job_Id (job_at s jr)) (map snd (active_jobs s)) = map fst (active_jobs s)"
    using assms by (auto simp: jobs_inv_def)
  have "mset (map fst (active_jobs s)) = mset (map fst (ActiveJobs s))" using p by simp
  then show "distinct (map fst (active_jobs s))" using assms mset_eq_imp_distinct_iff jobs_inv_def by blast
qed

lemma needs_all_idle:
  assumes "settled s'" and "wf_map (ActiveJobs s')" and "mset ids = mset (map fst (ActiveJobs s'))"
    and "\<And>j. j \<in> set ids \<Longrightarrow> int (count_of s' j) \<le> share j" and "(\<Sum>j\<leftarrow>ids. share j) = rm_Len s'"
  shows "(\<Sum>j\<leftarrow>ids. nat (share j - GetWorkerCountById j s')) = length (GetIdleWorkers s')"
proof -
  have c: "GetWorkerCountById j s' = int (count_of s' j)" for j by (simp add: GetWorkerCountById_def count_of_def)
  have nat: "nat (share j - GetWorkerCountById j s') = nat (share j) - count_of s' j" for j by (simp add: c nat_diff_distrib')
  have cs: "(\<Sum>j\<leftarrow>ids. count_of s' j) = (\<Sum>j\<leftarrow>map fst (ActiveJobs s'). count_of s' j)"
    using assms(3) by (metis mset_map sum_mset_sum_list)
  have "(\<Sum>j\<leftarrow>ids. int (nat (share j))) = (\<Sum>j\<leftarrow>ids. share j)"
    by (rule arg_cong [of _ _ sum_list], rule map_cong [OF refl]) (use assms(4) in force)
  then have ss: "int (\<Sum>j\<leftarrow>ids. nat (share j)) = int (length (ResourceManager s'))"
    using assms(5) sum_list_map_int [of "map (\<lambda>j. nat (share j)) ids"] by (simp add: rm_Len_def comp_def)
  have "(\<Sum>j\<leftarrow>ids. nat (share j) - count_of s' j) = (\<Sum>j\<leftarrow>ids. nat (share j)) - (\<Sum>j\<leftarrow>ids. count_of s' j)"
    by (rule sum_list_minus) (use assms(4) in force)
  then show ?thesis using ss cs workers_partition [OF assms(1,2)] unfolding nat by linarith
qed

lemma RefreshSchedule_total:
  assumes inv: "jobs_inv eval s" "rm_inv s" and st: "settled s" "held_ok s" and glob: "f_equal F last_s (f_MaxFloat64 F)"
    and ne: "ActiveJobs s \<noteq> []" "ResourceManager s \<noteq> []" and small: "rm_Len s < 2 ^ 63"
  shows "\<exists>sch s' resources. RefreshSchedule F last_s clk s = Inr (sch, s') \<and> allocate F last_s clk s = Inr resources
    \<and> sum_list resources = rm_Len s \<and> concat (map snd sch) = GetIdleWorkers s' \<and> frees s s'
    \<and> map (\<lambda>jid. GetWorkerCountById jid s' + int (length (scheduled sch jid))) (map fst (active_jobs s)) = resources"
proof -
  let ?ids = "map fst (active_jobs s)" and ?jobs = "map snd (active_jobs s)"
  note ids = active_jobs_ids [OF inv(1)]
  obtain res where res: "allocate F last_s clk s = Inr res" "length res = length ?ids" "\<And>n. n \<in> set res \<Longrightarrow> 0 \<le> n" "sum_list res = rm_Len s"
    using allocate_total [OF glob ne(1), of clk] by auto
  let ?m = "zip ?ids res"
  have shares: "map (alloc_of ?m) ?ids = res" by (rule alloc_of_zip [OF ids(2) res(2)])
  have share: "0 \<le> alloc_of ?m j \<and> alloc_of ?m j \<le> rm_Len s" if "j \<in> set ?ids" for j
    using res(3) sum_list_ge_member [of res "alloc_of ?m j"] res(4) imageI [OF that, of "alloc_of ?m"] shares by (metis list.set_map)
  have jid: "job_Id (job_at s jr) \<in> set ?ids \<and> (job_Id (job_at s jr), jr) \<in> set (ActiveJobs s)" if jr: "jr \<in> set ?jobs" for jr
  proof -
    obtain j where j: "(j, jr) \<in> set (active_jobs s)" using jr by auto
    then have "job_Id (job_at s jr) = j" using ids(3) inv(1) by (auto simp: jobs_inv_def)
    with j ids(3) show ?thesis by (auto intro: rev_image_eqI)
  qed
  have "\<exists>s'. release_jobs ?m ?jobs s = Inr s' \<and> frees s s'
    \<and> (\<forall>jr \<in> set ?jobs. count_of s' (job_Id (job_at s jr)) = min (count_of s (job_Id (job_at s jr))) (nat (alloc_of ?m (job_Id (job_at s jr)))))
    \<and> (\<forall>j. j \<noteq> EMPTY_STRING \<longrightarrow> j \<notin> (\<lambda>jr. job_Id (job_at s jr)) ` set ?jobs \<longrightarrow> count_of s' j = count_of s j)"
  proof (rule release_jobs_spec [OF inv(2) small])
    show "distinct (map (\<lambda>jr. job_Id (job_at s jr)) ?jobs)" using ids by metis
    fix jr assume jr: "jr \<in> set ?jobs"
    show "job_Id (job_at s jr) \<noteq> EMPTY_STRING
      \<and> 0 \<le> alloc_of ?m (job_Id (job_at s jr)) \<and> alloc_of ?m (job_Id (job_at s jr)) \<le> rm_Len s"
      using jid [OF jr] share st(1) by (metis fst_conv imageI settled_def)
    show "held_in s jr r" if "r \<in> set (GetWorkersById (job_Id (job_at s jr)) s)" for r
      using st(2) jid [OF jr] that by (fastforce simp: held_ok_def GetWorkersById_def)
  qed
  then obtain s' where s': "release_jobs ?m ?jobs s = Inr s'" "frees s s'"
    and cnt: "\<And>jr. jr \<in> set ?jobs \<Longrightarrow> count_of s' (job_Id (job_at s jr)) = min (count_of s (job_Id (job_at s jr))) (nat (alloc_of ?m (job_Id (job_at s jr))))"
    by blast
  have le: "int (count_of s' j) \<le> alloc_of ?m j" if j: "j \<in> set ?ids" for j
  proof -
    obtain jr where "jr \<in> set ?jobs" "j = job_Id (job_at s jr)" using j unfolding ids(1) [symmetric] by auto
    with cnt [of jr] share [OF j] show ?thesis by (simp add: of_nat_min)
  qed
  have same: "job_Id (job_at s' jr) = job_Id (job_at s jr)" for jr using frees_jobs [OF s'(2)] by (simp add: same_jobs_def)
  have act: "ActiveJobs s' = ActiveJobs s" "rm_Len s' = rm_Len s" using frees_maps [OF s'(2)] by (simp_all add: rm_Len_def)
  have wf: "wf_map (ActiveJobs s)" using inv(1) by (simp add: jobs_inv_def)
  have "(\<Sum>j\<leftarrow>?ids. nat (alloc_of ?m j - GetWorkerCountById j s')) = length (GetIdleWorkers s')"
  proof (rule needs_all_idle [OF frees_settled [OF s'(2) st(1)]])
    show "mset ?ids = mset (map fst (ActiveJobs s'))" using active_jobs_perm [OF wf] act by simp
  qed (use wf act le shares res(4) in auto)
  then have need: "(\<Sum>jr\<leftarrow>?jobs. nat (alloc_of ?m (job_Id (job_at s' jr)) - GetWorkerCountById (job_Id (job_at s' jr)) s')) = length (GetIdleWorkers s')"
    unfolding same ids(1) [symmetric] by (simp add: comp_def)
  have dist: "distinct (map (\<lambda>jr. job_Id (job_at s' jr)) ?jobs)" unfolding same using ids by metis
  let ?sch = "assign_jobs ?m s' ?jobs (GetIdleWorkers s')"
  note sch = assign_jobs_spec [OF dist need]
  have "GetWorkerCountById j s' + int (length (scheduled ?sch j)) = alloc_of ?m j" if j: "j \<in> set ?ids" for j
  proof -
    obtain jr where jr: "jr \<in> set ?jobs" "j = job_Id (job_at s' jr)" using j unfolding ids(1) [symmetric] same by auto
    then have "length (scheduled ?sch j) = nat (alloc_of ?m j - GetWorkerCountById j s')" using sch by blast
    with le [OF j] show ?thesis by (simp add: GetWorkerCountById_def count_of_def)
  qed
  then have "map (\<lambda>j. GetWorkerCountById j s' + int (length (scheduled ?sch j))) ?ids = map (alloc_of ?m) ?ids"
    by (intro map_cong) simp_all
  then have "map (\<lambda>j. GetWorkerCountById j s' + int (length (scheduled ?sch j))) ?ids = res" using shares by (rule trans)
  moreover have "RefreshSchedule F last_s clk s = Inr (?sch, s')"
    using ne res(1) s'(1) by (simp add: RefreshSchedule_def rm_Len_def Let_def)
  ultimately show ?thesis using sch s'(2) res(1,4) by blast
qed

text \<open>C15. Global fair-time scheduling uses every worker: in a well-formed state where each worker is idle or at an
  active job, \<open>RefreshSchedule\<close> returns, the shares it computes add up to the number of workers, the workers
  it schedules are exactly the ones idle after it, each once, and with them every job has precisely its
  share; a worker it does not release keeps its job and its batch.\<close>

theorem schedule_uses_every_worker:
  assumes "jobs_inv eval s" and rm: "rm_inv s" and "settled s" and "held_ok s" and "f_equal F last_s (f_MaxFloat64 F)"
    and "ActiveJobs s \<noteq> []" and "ResourceManager s \<noteq> []" and "rm_Len s < 2 ^ 63"
  shows "\<exists>sch s' resources. RefreshSchedule F last_s clk s = Inr (sch, s') \<and> allocate F last_s clk s = Inr resources
    \<and> sum_list resources = rm_Len s \<and> concat (map snd sch) = GetIdleWorkers s' \<and> distinct (concat (map snd sch))
    \<and> map (\<lambda>jid. GetWorkerCountById jid s' + int (length (scheduled sch jid))) (map fst (active_jobs s)) = resources
    \<and> (\<forall>r. worker_at s' r = worker_at s r \<or> worker_at s' r = released (worker_at s r))"
proof -
  obtain sch s' res where *: "RefreshSchedule F last_s clk s = Inr (sch, s')" "allocate F last_s clk s = Inr res"
    "sum_list res = rm_Len s" "concat (map snd sch) = GetIdleWorkers s'" "frees s s'"
    "map (\<lambda>jid. GetWorkerCountById jid s' + int (length (scheduled sch jid))) (map fst (active_jobs s)) = res"
    using RefreshSchedule_total [OF assms, of clk] by blast
  have "distinct (GetIdleWorkers s')"
    using rm frees_maps [OF *(5)] unfolding GetIdleWorkers_def by (intro distinct_filter) (simp add: rm_inv_def)
  with * frees_worker [OF *(5)] show ?thesis by (intro exI [of _ sch] exI [of _ s'] exI [of _ res]) simp
qed

text \<open>A job of two batches and two workers that have just joined.\<close>

definition example_batch :: "int \<Rightarrow> 'f batch_state" where
  "example_batch i = \<lparr>Status = Available, BatchInput = Some \<lparr>BatchId = i, Inputs = [''x;joy'']\<rparr>, BatchOutput = None, QueryTime = None, ReceiveTime = None\<rparr>"

definition example_job :: "'f job" where
  "example_job = \<lparr>job_Id = ''albert:1:7'', ModelType = Albert, Dataset = Emotion, BatchSize = 1, StartTime = Some 0, FinishTime = None,
     TotalQueries = 2, CompletedQueries = 0, BatchStates = [example_batch 0, example_batch 1], QueryRates = [], QueryProcessTimes = []\<rparr>"

definition example_worker :: "string \<Rightarrow> process" where
  "example_worker host = \<lparr>ip = host, port = 5000, joinTime = 0, lastUpdateTime = 0, status = Alive\<rparr>"

definition example_scheduler :: "'f scheduler" where
  "example_scheduler =
     (let s0 = NewIDunnoScheduler (\<lambda>_. example_job) (\<lambda>_. \<lparr>w_JobId = '''', CurrBatchInput = None, LastQueryTime = 0, w_Process = example_worker ''a''\<rparr>);
          s1 = OnWorkerJoined 1 (example_worker ''b'') (OnWorkerJoined 0 (example_worker ''a'') s0);
          (r, s2) = new_job example_job s1
      in AddJob r s2)"

definition example_eval :: evaluation where
  "example_eval = \<lparr>ev_Model = \<lambda>_. Albert, ev_Dataset = \<lambda>_. Emotion, ev_Batches = \<lambda>_. [[''x;joy''], [''x;joy'']],
     ev_Answer = \<lambda>_ _ rs. rs = [EvalResult ''x;joy'' ''joy'']\<rparr>"

lemma example_job_ok: "job_ok example_eval example_job"
  by (auto simp: job_ok_def example_job_def batch_ok_def example_batch_def example_eval_def valid_batch_def less_Suc_eq nth_Cons split: nat.splits)

lemma example_scheduler_maps:
  "ActiveJobs example_scheduler = [(''albert:1:7'', 0)]" "PendingJobs example_scheduler = []" "CompletedJobs example_scheduler = []"
  "ResourceManager example_scheduler = [(''a:5000'', 0), (''b:5000'', 1)]" "worker_free example_scheduler = 2" "job_free example_scheduler = 1"
  "job_at example_scheduler r = example_job" "CurrBatchInput (worker_at example_scheduler k) = None" "w_JobId (worker_at example_scheduler k) = ''''"
  by (simp_all add: example_scheduler_def Let_def new_job_def AddJob_def OnWorkerJoined_def AddWorker_def NewIDunnoScheduler_def
      put_job_def put_worker_def example_job_def NewQueue_def Address_def example_worker_def show_int_def show_nat.simps EMPTY_STRING_def)

lemma example_scheduler_ok:
  "jobs_inv example_eval example_scheduler" "rm_inv example_scheduler" "settled example_scheduler" "held_ok example_scheduler"
  using example_job_ok
  by (auto simp: jobs_inv_def rm_inv_def settled_def worker_settled_def held_ok_def held_in_def example_scheduler_maps Idle_def EMPTY_STRING_def)
    (simp_all add: example_job_def)

theorem schedule_uses_every_worker_witness:
  "\<exists>sch s'. RefreshSchedule exact_float (f_MaxFloat64 exact_float) (\<lambda>_ _ _. 5) example_scheduler = Inr (sch, s')
    \<and> concat (map snd sch) = GetIdleWorkers s'"
proof -
  have "f_equal exact_float (f_MaxFloat64 exact_float) (f_MaxFloat64 exact_float)" by (simp add: exact_float_def lift_test_def)
  from schedule_uses_every_worker [OF example_scheduler_ok this, of "\<lambda>_ _ _. 5"] show ?thesis
    by (auto simp: example_scheduler_maps rm_Len_def)
qed

theorem lost_batches_recovered_witness:
  "Status (BatchStates (job_at (RefreshBatchStatus (put_job 0 (snd (FetchBatchInput 3 example_job)) example_scheduler)) 0) ! 0) = Available"
proof -
  let ?s = "put_job 0 (snd (FetchBatchInput 3 example_job)) example_scheduler"
  have ev: "evolves example_eval (job_at example_scheduler 0) (snd (FetchBatchInput 3 example_job))"
    by (simp add: evolves_FetchBatchInput example_scheduler_maps)
  have "jobs_inv example_eval ?s" by (rule quiet_jobs_inv [OF quiet_put_job [OF ev] example_scheduler_ok(1)])
  moreover have "GetJob ''albert:1:7'' ?s = Some 0" by (simp add: GetJob_def put_job_def example_scheduler_maps)
  moreover have "0 < length (BatchStates (job_at ?s 0))"
    by (simp add: put_job_def del: length_greater_0_conv) (simp add: example_job_def)
  ultimately show ?thesis using lost_batches_recovered [of example_eval ?s "''albert:1:7''" 0 0]
    by (auto simp: put_job_def GetWorkersById_def example_scheduler_maps FetchBatchInput_def Let_def example_job_def example_batch_def
        find_index_def modify_batch_def)
qed

end
