(* ===== verification/Coordinator.thy ===== *)
theory Coordinator
  imports Scheduler Model_Store Ring
begin

text \<open>
  \<open>idunno/coordinator.go\<close> and \<open>idunno/coordinator_service.go\<close>: the coordinator queues inference tasks, splits
  data sets into batches, hands batches to workers, collects outputs, writes result files and backs its
  state up at its successor. Clock readings and the outcomes of remote calls are arguments; remote calls
  that the code makes in goroutines are separate steps, so that other steps may come between the call and
  its reply. A loop that does not end is \<open>None\<close>.
\<close>

section \<open>State\<close>

datatype inference_task = InferenceTask (it_Model: string) (it_BatchSize: int)

record 'f coordinator =
  TaskQueue :: "inference_task queue"
  ModelStore :: model_store
  ic_Ring :: ring_server
  Scheduler :: "'f scheduler"
  IsCoordinator :: bool
  IsScheduling :: bool

definition NewIDunnoCoordinator :: "ring_server \<Rightarrow> (nat \<Rightarrow> 'f job) \<Rightarrow> (nat \<Rightarrow> worker) \<Rightarrow> 'f coordinator" where
  "NewIDunnoCoordinator ring jobs workers =
     \<lparr>TaskQueue = NewQueue, ModelStore = NewModelStore, ic_Ring = ring, Scheduler = NewIDunnoScheduler jobs workers,
      IsCoordinator = False, IsScheduling = False\<rparr>"

definition map_sched :: "('f scheduler \<Rightarrow> 'f scheduler) \<Rightarrow> 'f coordinator \<Rightarrow> 'f coordinator" where
  "map_sched g c = c\<lparr>Scheduler := g (Scheduler c)\<rparr>"

section \<open>Periodic tasks\<close>

text \<open>The seven loops of \<open>Corn\<close> and what they sleep between two rounds, in nanoseconds.\<close>

datatype corn_task = BackupTask | ProcessQueueTask | RescheduleTask | FlushTask | RefreshBatchTask | RefreshWorkerTask | MeasureTask

fun corn_interval :: "corn_task \<Rightarrow> int" where
  "corn_interval BackupTask = 3000 * 1000000"
| "corn_interval ProcessQueueTask = 1000 * 1000000"
| "corn_interval RescheduleTask = 2000 * 1000000"
| "corn_interval FlushTask = 2000 * 1000000"
| "corn_interval RefreshBatchTask = 2000 * 1000000"
| "corn_interval RefreshWorkerTask = 2000 * 1000000"
| "corn_interval MeasureTask = 1000 * 1000000"

text \<open>One round of a loop of \<open>Corn\<close>: the task runs only at a machine that serves as coordinator.\<close>

definition Corn_round :: "('f coordinator \<Rightarrow> 'f coordinator run) \<Rightarrow> 'f coordinator \<Rightarrow> 'f coordinator run" where
  "Corn_round task c = (if \<not> IsCoordinator c then Inr c else task c)"

definition MesureStats :: "'f float64 \<Rightarrow> (nat \<Rightarrow> nat \<Rightarrow> time) \<Rightarrow> 'f coordinator \<Rightarrow> 'f coordinator" where
  "MesureStats F clk c =
     map_sched (\<lambda>s. foldl (\<lambda>s jr. put_job jr (MeasureQueryProcessTime F (MeasureQPS F (clk jr) (job_at s jr))) s)
       s (map snd (ActiveJobs s))) c"

definition ic_RefreshBatchStatus :: "'f coordinator \<Rightarrow> 'f coordinator" where
  "ic_RefreshBatchStatus c = map_sched RefreshBatchStatus c"

definition ic_RefreshWorkerStatus :: "(nat \<Rightarrow> time) \<Rightarrow> 'f coordinator \<Rightarrow> 'f coordinator" where
  "ic_RefreshWorkerStatus clk c = map_sched (RefreshWorkerStatus clk) c"

subsection \<open>Backup\<close>

record 'f coordinator_backup =
  bk_ModelStore :: model_store
  bk_ActiveJobs :: "'f job list"
  bk_CompletedJobs :: "'f job list"
  bk_PendingJobs :: "'f job list"

text \<open>\<open>dial\<close> says whether the connection to the successor is made.\<close>

definition CreateCoordinatorClient :: "bool \<Rightarrow> 'f coordinator \<Rightarrow> process option \<times> 'f coordinator" where
  "CreateCoordinatorClient dial c =
     (case Successors (ic_Ring c) of (successors, ring) \<Rightarrow>
        let c1 = c\<lparr>ic_Ring := ring\<rparr> in
        case successors of
          [] \<Rightarrow> (None, c1)
        | p # _ \<Rightarrow> (if dial then Some p else None, c1))"

definition backup_of :: "'f coordinator \<Rightarrow> 'f coordinator_backup" where
  "backup_of c =
     (let s = Scheduler c in
      \<lparr>bk_ModelStore = ModelStore c,
       bk_ActiveJobs = map (\<lambda>(_, r). job_at s r) (ActiveJobs s),
       bk_CompletedJobs = map (\<lambda>(_, r). job_at s r) (CompletedJobs s),
       bk_PendingJobs = map (job_at s) (Queue_ToSlice (PendingJobs s))\<rparr>)"

definition BackupCoordinatorData :: "bool \<Rightarrow> 'f coordinator \<Rightarrow> (process \<times> 'f coordinator_backup) option \<times> 'f coordinator" where
  "BackupCoordinatorData dial c =
     (case CreateCoordinatorClient dial c of
        (None, c1) \<Rightarrow> (None, c1)
      | (Some p, c1) \<Rightarrow> (Some (p, backup_of c1), c1))"

subsection \<open>FlushPendingJobs\<close>

text \<open>The result file; \<open>fmt\<close> is the \<open>%f\<close> verb.\<close>

definition result_file :: "('f \<Rightarrow> string) \<Rightarrow> eval_result list \<times> 'f \<Rightarrow> string" where
  "result_file fmt = (\<lambda>(results, metric).
     join ''\<newline>'' (map (\<lambda>r. er_Input r @ '' '' @ er_Output r) results @ [''\<newline>'' @ fmt metric]))"

text \<open>\<open>written\<close> and \<open>put\<close> say whether the local file was written and the file system took it; \<open>clk r\<close> is the
  time at which worker \<open>r\<close> is reset. The file put to the file system is returned.\<close>

definition FlushPendingJobs :: "'f float64 \<Rightarrow> ('f \<Rightarrow> string) \<Rightarrow> (nat \<Rightarrow> time) \<Rightarrow> time \<Rightarrow> bool \<Rightarrow> bool
    \<Rightarrow> 'f coordinator \<Rightarrow> ((string \<times> string) option \<times> 'f coordinator) run" where
  "FlushPendingJobs F fmt clk now written put c =
     (let s = Scheduler c in
      if Queue_Empty (PendingJobs s) then Inr (None, c)
      else case Queue_Top (PendingJobs s) of
        Inl e \<Rightarrow> Inl e
      | Inr jr \<Rightarrow>
          let jid = job_Id (job_at s jr);
              s1 = s\<lparr>ActiveJobs := AList.delete jid (ActiveJobs s)\<rparr>;
              s2 = foldl (\<lambda>s r. put_worker r (Reset (clk r) (worker_at s r)) s) s1 (GetWorkersById jid s1);
              (results, j) = GetResults F (job_at s2 jr);
              s3 = put_job jr j s2
          in if \<not> written \<or> \<not> put then Inr (None, c\<lparr>Scheduler := s3\<rparr>)
             else
               let s4 = s3\<lparr>PendingJobs := Queue_Pop (PendingJobs s3), CompletedJobs := AList.update jid jr (CompletedJobs s3)\<rparr>;
                   s5 = put_job jr ((job_at s4 jr)\<lparr>FinishTime := Some now\<rparr>) s4
               in Inr (Some (jid, result_file fmt results), c\<lparr>Scheduler := s5\<rparr>))"

subsection \<open>RescheduleJobs\<close>

definition SetSchedulingStatus :: "bool \<Rightarrow> 'f coordinator \<Rightarrow> 'f coordinator" where
  "SetSchedulingStatus b c = c\<lparr>IsScheduling := b\<rparr>"

text \<open>The round up to the start of the goroutines, one per scheduled worker; with an empty schedule the
  function returns here. \<open>Reschedule_end\<close> is the end of a round that had something to schedule.\<close>

definition Reschedule_start :: "'f float64 \<Rightarrow> 'f \<Rightarrow> (nat \<Rightarrow> nat \<Rightarrow> nat \<Rightarrow> time) \<Rightarrow> 'f coordinator
    \<Rightarrow> ((string \<times> nat) list \<times> 'f coordinator) run" where
  "Reschedule_start F LAST_SECONDS clk c =
     (let c1 = SetSchedulingStatus True c in
      case RefreshSchedule F LAST_SECONDS clk (Scheduler c1) of
        Inl e \<Rightarrow> Inl e
      | Inr (schedule, s) \<Rightarrow>
          Inr (concat (map (\<lambda>(jid, workers). map (\<lambda>r. (jid, r)) workers) schedule), c1\<lparr>Scheduler := s\<rparr>))"

definition Reschedule_end :: "'f coordinator \<Rightarrow> 'f coordinator" where
  "Reschedule_end c = SetSchedulingStatus False c"

text \<open>A goroutine: the request is built from the active job, whose pointer is nil when the job is gone;
  after a positive answer the worker is updated, whether or not it is still registered.\<close>

definition Reschedule_request :: "string \<Rightarrow> 'f coordinator \<Rightarrow> (inference_task \<times> string) run" where
  "Reschedule_request jid c =
     (case GetJob jid (Scheduler c) of
        None \<Rightarrow> Inl NilDereference
      | Some jr \<Rightarrow> Inr (InferenceTask (ModelType (job_at (Scheduler c) jr)) (BatchSize (job_at (Scheduler c) jr)), jid))"

definition Reschedule_reply :: "time \<Rightarrow> response_status option \<Rightarrow> string \<Rightarrow> nat \<Rightarrow> 'f coordinator \<Rightarrow> 'f coordinator" where
  "Reschedule_reply now reply jid r c =
     (if reply \<noteq> Some OK then c
      else map_sched (\<lambda>s. put_worker r ((worker_at s r)\<lparr>w_JobId := jid, LastQueryTime := now\<rparr>) s) c)"

subsection \<open>ProcessQueuedJob\<close>

text \<open>The loop that cuts the inputs into batches. It ends by a panic for a negative batch size and not at
  all for 0.\<close>

definition new_batch :: "nat \<Rightarrow> string list \<Rightarrow> 'f batch_state" where
  "new_batch n xs = \<lparr>Status = Available, BatchInput = Some \<lparr>BatchId = to_int32 (int n), Inputs = xs\<rparr>, BatchOutput = None, QueryTime = None, ReceiveTime = None\<rparr>"

partial_function (option) batch_loop :: "int \<Rightarrow> string list \<Rightarrow> int \<Rightarrow> 'f batch_state list \<Rightarrow> 'f batch_state list run option" where
  "batch_loop batchSize inputs i batchStates =
     (if i < int (length inputs) then
        let stop = min (i + batchSize) (int (length inputs)) in
        case go_slice inputs i stop of
          Inl e \<Rightarrow> Some (Inl e)
        | Inr xs \<Rightarrow> batch_loop batchSize inputs (i + batchSize) (batchStates @ [new_batch (length batchStates) xs])
      else Some (Inr batchStates))"

text \<open>\<open>math.Ceil(float64(a) / float64(b))\<close> is exact for lengths below \<open>2^53\<close>: the division of two such
  integers rounds to an integer only when it is one.\<close>

definition ceil_div :: "int \<Rightarrow> int \<Rightarrow> int" where
  "ceil_div a b = - ((- a) div b)"

datatype dataset_fetch = GetFailed | ReadFailed | Fetched string

definition ProcessQueuedJob :: "dataset_fetch \<Rightarrow> time \<Rightarrow> time \<Rightarrow> 'f coordinator \<Rightarrow> 'f coordinator run option" where
  "ProcessQueuedJob fetch t1 t2 c =
     (if Queue_Empty (TaskQueue c) then Some (Inr c)
      else case Queue_Top (TaskQueue c) of
        Inl e \<Rightarrow> Some (Inl e)
      | Inr task \<Rightarrow>
          let c1 = c\<lparr>TaskQueue := Queue_Pop (TaskQueue c)\<rparr>;
              model = it_Model task; batchSize = it_BatchSize task;
              dataset = GetDataset model (ModelStore c1)
          in case fetch of
               GetFailed \<Rightarrow> Some (Inr c1)
             | ReadFailed \<Rightarrow> Some (Inr c1)
             | Fetched data \<Rightarrow>
                 let inputs = split_on (CHR ''\<newline>'') data in
                 case batch_loop batchSize inputs 0 [] of
                   None \<Rightarrow> None
                 | Some (Inl e) \<Rightarrow> Some (Inl e)
                 | Some (Inr batchStates) \<Rightarrow>
                     let prefix = model @ '':'' @ show_int batchSize;
                         job = \<lparr>job_Id = CreateId prefix t1, ModelType = model, Dataset = dataset, BatchSize = to_int32 batchSize,
                           StartTime = Some t2, FinishTime = None,
                           TotalQueries = to_int32 (ceil_div (int (length inputs)) batchSize), CompletedQueries = 0,
                           BatchStates = batchStates, QueryRates = [], QueryProcessTimes = []\<rparr>
                     in Some (Inr (map_sched (\<lambda>s. case new_job job s of (r, s1) \<Rightarrow> AddJob r s1) c1)))"

section \<open>Callbacks\<close>

definition OnBecomeCoordinator :: "'f coordinator \<Rightarrow> 'f coordinator" where
  "OnBecomeCoordinator c = (if IsCoordinator c then c else c\<lparr>IsCoordinator := True\<rparr>)"

definition ic_OnMemberUpdate :: "time \<Rightarrow> mem_action \<Rightarrow> process \<Rightarrow> 'f coordinator \<Rightarrow> 'f coordinator run" where
  "ic_OnMemberUpdate now action p c =
     (case action of
        MEMBER_INSERT \<Rightarrow> Inr (map_sched (OnWorkerJoined now p) c)
      | MEMBER_DELETE \<Rightarrow> (case OnWorkerFailed p (Scheduler c) of Inl e \<Rightarrow> Inl e | Inr s \<Rightarrow> Inr (c\<lparr>Scheduler := s\<rparr>))
      | MEMBER_LEAVED \<Rightarrow> Inr (map_sched (OnWorkerLeaved p) c))"

definition IsServing :: "'f coordinator \<Rightarrow> bool" where
  "IsServing c \<longleftrightarrow> length (ActiveJobs (Scheduler c)) > 0"

section \<open>Requests\<close>

text \<open>\<open>replies\<close> lists, in the order of arrival, which worker calls succeeded; with too few replies the
  handler waits for ever.\<close>

fun train_wait :: "nat \<Rightarrow> bool list \<Rightarrow> bool option" where
  "train_wait 0 replies = Some True"
| "train_wait (Suc n) [] = None"
| "train_wait (Suc n) (ok # replies) = (if ok then train_wait n replies else Some False)"

definition Train :: "bool list \<Rightarrow> string \<Rightarrow> string \<Rightarrow> 'f coordinator \<Rightarrow> (bool \<times> 'f coordinator) option" where
  "Train replies model dataset c =
     (let c1 = OnBecomeCoordinator c in
      if IsServing c1 then Some (False, c1)
      else case train_wait (length (GetMembershipList (ic_Ring c1))) replies of
        None \<Rightarrow> None
      | Some False \<Rightarrow> Some (False, c1)
      | Some True \<Rightarrow> Some (True, c1\<lparr>ModelStore := AddModel model dataset (ModelStore c1)\<rparr>))"

definition Inference :: "inference_task \<Rightarrow> 'f coordinator \<Rightarrow> response_status option \<times> 'f coordinator" where
  "Inference task c =
     (let c1 = OnBecomeCoordinator c in
      if \<not> ms_Contains (it_Model task) (ModelStore c1) then (None, c1)
      else (Some OK, c1\<lparr>TaskQueue := Queue_Push task (TaskQueue c1)\<rparr>))"

datatype query_reply = QueryError | QueryReply (reply_batch: "batch_input option") (reply_IsFilename: bool)

text \<open>The part of \<open>QueryData\<close> after the output of the previous round was recorded: the input of the first
  available batch is validated in place and becomes the worker's current batch.\<close>

definition next_batch :: "time \<Rightarrow> nat \<Rightarrow> nat \<Rightarrow> 'f scheduler \<Rightarrow> query_reply \<times> 'f scheduler" where
  "next_batch now wr jr s =
     (case FetchBatchInput now (job_at s jr) of (bi, j) \<Rightarrow>
        let j1 = (case bi of
              None \<Rightarrow> j
            | Some i \<Rightarrow> modify_batch i (\<lambda>b. b\<lparr>BatchInput := map_option (\<lambda>inp. inp\<lparr>Inputs := ValidateDatasetInputs (Dataset j) (Inputs inp)\<rparr>) (BatchInput b)\<rparr>) j);
            batchInput = (case bi of None \<Rightarrow> None | Some i \<Rightarrow> BatchInput (BatchStates j1 ! i));
            s1 = put_worker wr ((worker_at s wr)\<lparr>CurrBatchInput := batchInput\<rparr>) (put_job jr j1 s)
        in (QueryReply batchInput (ContainFilenames (Dataset j1)), s1))"

definition QueryData :: "time \<Rightarrow> time \<Rightarrow> time \<Rightarrow> string \<Rightarrow> process \<Rightarrow> 'f batch_output option \<Rightarrow> 'f coordinator
    \<Rightarrow> (query_reply \<times> 'f coordinator) run" where
  "QueryData t1 t2 t3 jobId p out c =
     (let c1 = OnBecomeCoordinator c; s = Scheduler c1 in
      case GetWorker (Address p) s of
        None \<Rightarrow> Inr (QueryError, c1)
      | Some wr \<Rightarrow>
          (case GetJob jobId s of
             None \<Rightarrow> Inr (QueryError, c1)
           | Some jr \<Rightarrow>
               (case (case out of None \<Rightarrow> Inr s | Some batchOutput \<Rightarrow> OnReceiveBatchOutput t1 t2 jobId p batchOutput s) of
                  Inl e \<Rightarrow> Inl e
                | Inr s1 \<Rightarrow>
                    if w_JobId (worker_at s1 wr) \<noteq> jobId then Inr (QueryError, c1\<lparr>Scheduler := s1\<rparr>)
                    else if Idle (worker_at s1 wr) then Inr (QueryError, c1\<lparr>Scheduler := s1\<rparr>)
                    else case next_batch t3 wr jr s1 of (reply, s2) \<Rightarrow> Inr (reply, c1\<lparr>Scheduler := s2\<rparr>))))"

text \<open>A backup message replaces models and jobs; each job arrives as a fresh object. Assigning to a field of
  a missing message is a nil dereference.\<close>

fun load_jobs :: "'f job list \<Rightarrow> 'f scheduler \<Rightarrow> nat list \<times> 'f scheduler" where
  "load_jobs [] s = ([], s)"
| "load_jobs (j # js) s =
     (case new_job j s of (r, s1) \<Rightarrow> (case load_jobs js s1 of (rs, s2) \<Rightarrow> (r # rs, s2)))"

definition jobs_map :: "'f scheduler \<Rightarrow> nat list \<Rightarrow> (string \<times> nat) list" where
  "jobs_map s rs = foldl (\<lambda>m r. AList.update (job_Id (job_at s r)) r m) [] rs"

definition Backup :: "'f coordinator_backup option \<Rightarrow> 'f coordinator \<Rightarrow> 'f coordinator run" where
  "Backup req c =
     (case req of
        None \<Rightarrow> Inl NilDereference
      | Some b \<Rightarrow>
          let (active, s1) = load_jobs (bk_ActiveJobs b) (Scheduler c);
              (completed, s2) = load_jobs (bk_CompletedJobs b) s1;
              (pending, s3) = load_jobs (bk_PendingJobs b) s2;
              ms = foldl (\<lambda>ms (k, v). AddModel k v ms) NewModelStore (bk_ModelStore b)
          in Inr (c\<lparr>ModelStore := ms,
                    Scheduler := s3\<lparr>ActiveJobs := jobs_map s3 active, CompletedJobs := jobs_map s3 completed,
                      PendingJobs := foldl (\<lambda>q r. Queue_Push r q) NewQueue pending\<rparr>\<rparr>))"

section \<open>Batches of a job\<close>

lemma batch_loop_end: "\<not> i < int (length inputs) \<Longrightarrow> batch_loop bs inputs i acc = Some (Inr acc)"
  by (subst batch_loop.simps) simp

lemma batch_loop_step:
  assumes "0 < bs" and "0 \<le> i" and "i < int (length inputs)"
  shows "batch_loop bs inputs i acc
    = batch_loop bs inputs (i + bs) (acc @ [new_batch (length acc) (take (nat bs) (drop (nat i) inputs))])"
proof -
  let ?stop = "min (i + bs) (int (length inputs))"
  have eq: "take (nat (?stop - i)) (drop (nat i) inputs) = take (nat bs) (drop (nat i) inputs)"
  proof (cases "i + bs \<le> int (length inputs)")
    case True
    then show ?thesis by (simp add: min_def)
  next
    case False
    then have "length (drop (nat i) inputs) \<le> nat (?stop - i)" "length (drop (nat i) inputs) \<le> nat bs" using assms by auto
    then show ?thesis by (simp only: take_all)
  qed
  show ?thesis using assms by (subst batch_loop.simps) (simp add: go_slice_def Let_def eq)
qed

text \<open>The reference: cutting a list into pieces of \<open>n\<close> elements.\<close>

function chunks :: "nat \<Rightarrow> 'a list \<Rightarrow> 'a list list" where
  "chunks n xs = (if n = 0 \<or> xs = [] then [] else take n xs # chunks n (drop n xs))"
  by auto
termination by (relation "measure (\<lambda>(n, xs). length xs)") auto

declare chunks.simps [simp del]

lemma concat_chunks: "0 < n \<Longrightarrow> concat (chunks n xs) = xs"
proof (induction n xs rule: chunks.induct)
  case (1 n xs)
  then show ?case by (subst chunks.simps) auto
qed

lemma chunks_sizes: "p \<in> set (chunks n xs) \<Longrightarrow> p \<noteq> [] \<and> length p \<le> n"
proof (induction n xs rule: chunks.induct)
  case (1 n xs)
  then show ?case by (subst (asm) (2) chunks.simps) (auto split: if_splits)
qed

lemma length_chunks: "0 < n \<Longrightarrow> int (length (chunks n xs)) = ceil_div (int (length xs)) (int n)"
proof (induction n xs rule: chunks.induct)
  case (1 n xs)
  show ?case
  proof (cases "xs = []")
    case True
    then show ?thesis by (simp add: chunks.simps ceil_div_def)
  next
    case False
    with 1 have IH: "int (length (chunks n (drop n xs))) = ceil_div (int (length (drop n xs))) (int n)" by simp
    have "ceil_div (int (length xs)) (int n) = 1 + ceil_div (int (length (drop n xs))) (int n)"
    proof (cases "n \<le> length xs")
      case True
      then have "- int (length (drop n xs)) = - int (length xs) + 1 * int n" by simp
      then show ?thesis unfolding ceil_div_def using 1(2) by (simp only: div_mult_self1)
    next
      case less: False
      then have "(- int (length xs)) div int n = -1"
        using False by (intro int_div_pos_eq [where r = "int n - int (length xs)"]) auto
      with less show ?thesis by (simp add: ceil_div_def)
    qed
    with IH False 1(2) show ?thesis by (subst chunks.simps) simp
  qed
qed

lemma chunks_nonempty: "0 < n \<Longrightarrow> chunks n xs = [] \<longleftrightarrow> xs = []"
  by (subst chunks.simps) simp

lemma batch_loop_chunks:
  assumes "0 < bs" and "0 \<le> i"
  shows "batch_loop bs inputs i acc = Some (Inr (acc @ map (\<lambda>(k, p). new_batch k p) (enumerate (length acc) (chunks (nat bs) (drop (nat i) inputs)))))"
  using assms
proof (induction "nat (int (length inputs) - i)" arbitrary: i acc rule: less_induct)
  case less
  show ?case
  proof (cases "i < int (length inputs)")
    case False
    then show ?thesis using less.prems by (simp add: batch_loop_end chunks.simps)
  next
    case True
    let ?p = "take (nat bs) (drop (nat i) inputs)"
    have "batch_loop bs inputs (i + bs) (acc @ [new_batch (length acc) ?p])
      = Some (Inr ((acc @ [new_batch (length acc) ?p])
          @ map (\<lambda>(k, p). new_batch k p) (enumerate (length (acc @ [new_batch (length acc) ?p])) (chunks (nat bs) (drop (nat (i + bs)) inputs)))))"
      using less True by (intro less.hyps) auto
    moreover have "drop (nat (i + bs)) inputs = drop (nat bs) (drop (nat i) inputs)"
      using less.prems by (simp add: nat_add_distrib add.commute)
    moreover have "chunks (nat bs) (drop (nat i) inputs) = ?p # chunks (nat bs) (drop (nat bs) (drop (nat i) inputs))"
      using True less.prems by (subst chunks.simps) auto
    ultimately show ?thesis using batch_loop_step [OF less.prems True, of acc] by simp
  qed
qed

lemma batch_loop_zero: "batch_loop bs inputs i acc = Some r \<Longrightarrow> bs = 0 \<Longrightarrow> 0 \<le> i \<Longrightarrow> \<not> i < int (length inputs)"
proof -
  assume "batch_loop bs inputs i acc = Some r"
  then have "bs = 0 \<and> 0 \<le> i \<longrightarrow> \<not> i < int (length inputs)"
    by (rule batch_loop.raw_induct [rotated]) (auto simp: Let_def go_slice_def split: if_splits)
  then show "bs = 0 \<Longrightarrow> 0 \<le> i \<Longrightarrow> ?thesis" by blast
qed

lemma batch_loop_diverges: "inputs \<noteq> [] \<Longrightarrow> batch_loop 0 inputs 0 acc = None"
  using batch_loop_zero [of 0 inputs 0 acc] by (cases "batch_loop 0 inputs 0 acc") auto

lemma batch_loop_negative:
  assumes "bs < 0" and "inputs \<noteq> []"
  shows "batch_loop bs inputs 0 acc = Some (Inl SliceBounds)"
  using assms by (subst batch_loop.simps) (simp add: go_slice_def Let_def)

lemma length_split_on: "length (split_on c s) \<le> length s + 1"
  by (induction s) (auto split: list.splits)

lemma length_chunks_le: "length (chunks n xs) \<le> length xs"
proof (induction n xs rule: chunks.induct)
  case (1 n xs)
  show ?case
  proof (cases "n = 0 \<or> xs = []")
    case True
    then show ?thesis by (subst chunks.simps) auto
  next
    case False
    then have "length (drop n xs) < length xs" by simp
    with 1 [OF False] have "Suc (length (chunks n (drop n xs))) \<le> length xs" by (metis Suc_leI le_less_trans)
    with False show ?thesis by (subst chunks.simps) simp
  qed
qed

definition cut_batches :: "int \<Rightarrow> string list \<Rightarrow> 'f batch_state list" where
  "cut_batches bs inputs = map (\<lambda>(k, p). new_batch k p) (enumerate 0 (chunks (nat bs) inputs))"

lemma cut_batches_nth:
  "i < length (cut_batches bs inputs) \<Longrightarrow> cut_batches bs inputs ! i = new_batch i (chunks (nat bs) inputs ! i)"
  by (simp add: cut_batches_def nth_enumerate_eq)

lemma length_cut_batches [simp]: "length (cut_batches bs inputs) = length (chunks (nat bs) inputs)"
  by (simp add: cut_batches_def)

lemma cut_batches_inputs: "map (\<lambda>b. Inputs (the (BatchInput b))) (cut_batches bs inputs) = chunks (nat bs) inputs"
  by (rule nth_equalityI) (simp_all add: cut_batches_nth new_batch_def)

lemma concat_cut_batches:
  "0 < bs \<Longrightarrow> concat (map (\<lambda>b. Inputs (the (BatchInput b))) (cut_batches bs inputs)) = inputs"
  using concat_chunks [of "nat bs" inputs] by (simp add: cut_batches_inputs)

definition queued_job :: "string \<Rightarrow> int \<Rightarrow> string \<Rightarrow> string list \<Rightarrow> time \<Rightarrow> time \<Rightarrow> 'f job" where
  "queued_job model bs dataset inputs t1 t2 =
     \<lparr>job_Id = CreateId (model @ '':'' @ show_int bs) t1, ModelType = model, Dataset = dataset, BatchSize = bs,
      StartTime = Some t2, FinishTime = None, TotalQueries = int (length (chunks (nat bs) inputs)), CompletedQueries = 0,
      BatchStates = cut_batches bs inputs, QueryRates = [], QueryProcessTimes = []\<rparr>"

lemma queued_job_simps [simp]:
  "job_Id (queued_job model bs dataset inputs t1 t2) = CreateId (model @ '':'' @ show_int bs) t1"
  "BatchStates (queued_job model bs dataset inputs t1 t2) = cut_batches bs inputs"
  by (simp_all add: queued_job_def)

lemma ProcessQueuedJob_eq:
  assumes "TaskQueue c = InferenceTask model bs # q" and bs: "0 < bs" "bs < 2 ^ 31" and small: "length data < 2 ^ 31 - 1"
  shows "ProcessQueuedJob (Fetched data) t1 t2 c = Some (Inr (map_sched
     (\<lambda>s. case new_job (queued_job model bs (GetDataset model (ModelStore c)) (split_on (CHR ''\<newline>'') data) t1 t2) s of (r, s1) \<Rightarrow> AddJob r s1)
     (c\<lparr>TaskQueue := q\<rparr>)))"
proof -
  let ?inputs = "split_on (CHR ''\<newline>'') data"
  have "length (chunks (nat bs) ?inputs) < 2 ^ 31"
    using length_chunks_le [of "nat bs" ?inputs] length_split_on [of "CHR ''\<newline>''" data] small by linarith
  then have "to_int32 (int (length (chunks (nat bs) ?inputs))) = int (length (chunks (nat bs) ?inputs))"
    by (intro to_int32_id) auto
  then have total: "to_int32 (ceil_div (int (length ?inputs)) bs) = int (length (chunks (nat bs) ?inputs))"
    using length_chunks [of "nat bs" ?inputs] bs by simp
  have "to_int32 bs = bs" using bs by (intro to_int32_id) auto
  then show ?thesis using assms(1) total
    by (simp add: ProcessQueuedJob_def Let_def batch_loop_chunks [OF bs(1)] queued_job_def cut_batches_def)
qed

text \<open>The job that a task becomes is the one meant by its id.\<close>

definition planned :: "evaluation \<Rightarrow> string \<Rightarrow> int \<Rightarrow> string \<Rightarrow> string list \<Rightarrow> time \<Rightarrow> bool" where
  "planned eval model bs dataset inputs t1 \<longleftrightarrow>
     (let jid = CreateId (model @ '':'' @ show_int bs) t1 in
      ev_Model eval jid = model \<and> ev_Dataset eval jid = dataset \<and> ev_Batches eval jid = chunks (nat bs) inputs)"

lemma queued_job_ok:
  assumes "length data < 2 ^ 31 - 1" and plan: "planned eval model bs dataset (split_on (CHR ''\<newline>'') data) t1"
  shows "job_ok eval (queued_job model bs dataset (split_on (CHR ''\<newline>'') data) t1 t2)"
proof -
  let ?inputs = "split_on (CHR ''\<newline>'') data"
  have len: "length (chunks (nat bs) ?inputs) < 2 ^ 31"
    using length_chunks_le [of "nat bs" ?inputs] length_split_on [of "CHR ''\<newline>''" data] assms by linarith
  have "to_int32 (int i) = int i" if "i < length (chunks (nat bs) ?inputs)" for i
    using that len by (intro to_int32_id) auto
  with len plan show ?thesis
    by (simp add: job_ok_def queued_job_def batch_ok_def cut_batches_nth planned_def valid_batch_def Let_def) (simp add: new_batch_def)
qed

text \<open>C16. The job that a queued task becomes: with a positive batch size the loop ends; the inputs of the batches,
  put together, are the lines of the data set in order; every batch has at least one and at most \<open>batchSize\<close>
  inputs and carries its position as id; the number of batches is the number of queries the job waits for;
  and the job is active under its id.\<close>

theorem dataset_split_into_batches:
  assumes "TaskQueue c = InferenceTask model bs # q" and "0 < bs" "bs < 2 ^ 31" and "length data < 2 ^ 31 - 1"
  shows "\<exists>c' jr. ProcessQueuedJob (Fetched data) t1 t2 c = Some (Inr c') \<and> TaskQueue c' = q
    \<and> GetJob (CreateId (model @ '':'' @ show_int bs) t1) (Scheduler c') = Some jr
    \<and> TotalQueries (job_at (Scheduler c') jr) = int (length (BatchStates (job_at (Scheduler c') jr)))
    \<and> map (\<lambda>b. BatchId (the (BatchInput b))) (BatchStates (job_at (Scheduler c') jr)) = map int [0..<length (BatchStates (job_at (Scheduler c') jr))]
    \<and> concat (map (\<lambda>b. Inputs (the (BatchInput b))) (BatchStates (job_at (Scheduler c') jr))) = split_on (CHR ''\<newline>'') data
    \<and> (\<forall>b \<in> set (BatchStates (job_at (Scheduler c') jr)). Status b = Available
         \<and> Inputs (the (BatchInput b)) \<noteq> [] \<and> int (length (Inputs (the (BatchInput b)))) \<le> bs)"
proof -
  let ?j = "queued_job model bs (GetDataset model (ModelStore c)) (split_on (CHR ''\<newline>'') data) t1 t2 :: 'a job"
  let ?jr = "job_free (Scheduler c)"
  let ?c = "map_sched (\<lambda>s. case new_job ?j s of (r, s1) \<Rightarrow> AddJob r s1) (c\<lparr>TaskQueue := q\<rparr>)"
  have len: "length (chunks (nat bs) (split_on (CHR ''\<newline>'') data)) < 2 ^ 31"
    using length_chunks_le [of "nat bs" "split_on (CHR ''\<newline>'') data"] length_split_on [of "CHR ''\<newline>''" data] assms(4) by linarith
  have "to_int32 (int i) = int i" if "i < length (chunks (nat bs) (split_on (CHR ''\<newline>'') data))" for i
    using that len by (intro to_int32_id) auto
  then have ids: "map (\<lambda>b. BatchId (the (BatchInput b))) (BatchStates ?j) = map int [0..<length (BatchStates ?j)]"
    by (intro nth_equalityI) (simp_all add: cut_batches_nth, simp add: new_batch_def)
  have at: "job_at (Scheduler ?c) ?jr = ?j" and get: "GetJob (job_Id ?j) (Scheduler ?c) = Some ?jr" and "TaskQueue ?c = q"
    by (simp_all add: map_sched_def new_job_def AddJob_def put_job_def GetJob_def)
  moreover have "Status b = Available \<and> Inputs (the (BatchInput b)) \<noteq> [] \<and> int (length (Inputs (the (BatchInput b)))) \<le> bs"
    if b: "b \<in> set (BatchStates ?j)" for b
  proof -
    let ?ps = "chunks (nat bs) (split_on (CHR ''\<newline>'') data)"
    obtain k where "k < length ?ps" "b = new_batch k (?ps ! k)" using b by (auto simp: queued_job_def in_set_conv_nth cut_batches_nth)
    with chunks_sizes [OF nth_mem [OF this(1)]] assms(2) show ?thesis by (simp add: new_batch_def le_nat_iff)
  qed
  ultimately show ?thesis
    using ProcessQueuedJob_eq [OF assms]
    using ids by (intro exI [of _ ?c] exI [of _ ?jr]) (simp add: concat_cut_batches [OF assms(2)], simp add: queued_job_def)
qed

text \<open>The batch size of a task is not checked.\<close>

lemma bad_batch_size:
  assumes "TaskQueue c = InferenceTask model bs # q" and "bs \<le> 0"
  shows "ProcessQueuedJob (Fetched data) t1 t2 c = (if bs = 0 then None else Some (Inl SliceBounds))"
  using assms by (cases "bs = 0") (simp_all add: ProcessQueuedJob_def Let_def batch_loop_diverges batch_loop_negative)

text \<open>An inference request with batch size 2 on a data set of three lines.\<close>

definition example_coordinator :: "int \<Rightarrow> 'f coordinator" where
  "example_coordinator bs =
     (NewIDunnoCoordinator (NewRingServer ''a'' 5000) (\<lambda>_. example_job)
        (\<lambda>_. \<lparr>w_JobId = '''', CurrBatchInput = None, LastQueryTime = 0, w_Process = example_worker ''a''\<rparr>))
     \<lparr>TaskQueue := [InferenceTask Albert bs], ModelStore := [(Albert, Emotion)]\<rparr>"

theorem dataset_split_into_batches_witness:
  "\<exists>c' :: rat option coordinator. ProcessQueuedJob (Fetched ''u;v\<newline>w;x\<newline>y;z'') 0 0 (example_coordinator 2) = Some (Inr c') \<and> TaskQueue c' = []"
proof -
  have "TaskQueue (example_coordinator 2) = InferenceTask Albert 2 # []" by (simp add: example_coordinator_def)
  from dataset_split_into_batches [OF this, of "''u;v\<newline>w;x\<newline>y;z''" 0 0] show ?thesis by auto
qed

end
