(* ===== verification/Coordinator_Status.thy ===== *)
theory Coordinator_Status
  imports Coordinator
begin

text \<open>
  The status reports of \<open>idunno/coordinator.go\<close> (\<open>Print...\<close>) and their dispatch in
  \<open>idunno/coordinator_service.go\<close>. A table is what the code hands to the table library (header, rows,
  footers, sort column); rendering it is the library's. A JSON report is the value handed to
  \<open>json.Marshal\<close>, which fails on a number that is not finite; the report is then the empty string.
  \<open>fmt2\<close> is the \<open>%.2f\<close> verb; the statistics library is a parameter.
\<close>

section \<open>Tables and JSON values\<close>

record pretty_table =
  Header :: "string list"
  Rows :: "string list list"
  Footers :: "string list list"
  SortBy :: "string option"

datatype 'f json =
    JString string
  | JInt int
  | JNumber 'f
  | JArray "'f json list"
  | JObject "(string \<times> 'f json) list"

primrec json_ok :: "'f float64 \<Rightarrow> 'f json \<Rightarrow> bool" where
  "json_ok F (JString s) \<longleftrightarrow> True"
| "json_ok F (JInt i) \<longleftrightarrow> True"
| "json_ok F (JNumber x) \<longleftrightarrow> f_finite F x"
| "json_ok F (JArray xs) \<longleftrightarrow> list_all (json_ok F) xs"
| "json_ok F (JObject kvs) \<longleftrightarrow> list_all (\<lambda>kv. pred_prod (\<lambda>_. True) (json_ok F) kv) kvs"

datatype 'f report = ReportTable pretty_table | ReportJSON "'f json" | ReportText string

definition json_Marshal :: "'f float64 \<Rightarrow> 'f json \<Rightarrow> 'f report" where
  "json_Marshal F v = (if json_ok F v then ReportJSON v else ReportText EMPTY_STRING)"

definition show_bool :: "bool \<Rightarrow> string" where
  "show_bool b = (if b then ''true'' else ''false'')"

section \<open>Workers\<close>

definition PrintWorkers :: "'f coordinator \<Rightarrow> 'f report" where
  "PrintWorkers c =
     (let s = Scheduler c in
      ReportTable \<lparr>Header = [''Worker Address'', ''Join Time'', ''Running Job'', ''Idle'', ''Last Query Time''],
        Rows = map (\<lambda>(_, r). let w = worker_at s r in
          [Address (w_Process w), format_time (joinTime (w_Process w)), w_JobId w, show_bool (Idle w), format_time (LastQueryTime w)]) (ResourceManager s),
        Footers = [[''Total Workers'', show_int (rm_Len s)]], SortBy = Some ''Join Time''\<rparr>)"

definition PrintWorkersJSON :: "'f float64 \<Rightarrow> 'f coordinator \<Rightarrow> 'f report" where
  "PrintWorkersJSON F c =
     (let s = Scheduler c in
      json_Marshal F (JArray (map (\<lambda>(_, r). let w = worker_at s r in
        JObject [(''address'', JString (Address (w_Process w))), (''joinTime'', JString (format_time (joinTime (w_Process w)))),
          (''runningJob'', JString (w_JobId w)), (''lastQueryTime'', JString (format_time (LastQueryTime w)))]) (ResourceManager s))))"

section \<open>Active jobs\<close>

text \<open>The expected time left, replaced by 99999 for a job without workers, and the query rate of the
  scheduling mode. \<open>clk k\<close> are the clock readings of the \<open>k\<close>-th call.\<close>

definition time_left :: "'f float64 \<Rightarrow> (nat \<Rightarrow> nat \<Rightarrow> time) \<Rightarrow> int \<Rightarrow> 'f job \<Rightarrow> 'f" where
  "time_left F clk workerCount j =
     (let timeLeft = GetExpectedTimeLeft F (clk 0) workerCount j in
      if f_equal F timeLeft (f_MaxFloat64 F) then f_of_int F 99999 else timeLeft)"

definition query_rate :: "'f float64 \<Rightarrow> 'f \<Rightarrow> (nat \<Rightarrow> nat \<Rightarrow> time) \<Rightarrow> int \<Rightarrow> 'f job \<Rightarrow> 'f" where
  "query_rate F LAST_SECONDS clk workerCount j =
     (if f_equal F LAST_SECONDS (f_MaxFloat64 F) then GetExpectedQPS F (clk 1) workerCount j
      else GetQPS F (clk 1) LAST_SECONDS j)"

definition job_progress :: "'f float64 \<Rightarrow> 'f job \<Rightarrow> 'f" where
  "job_progress F j = f_mul F (f_div F (f_of_int F (CompletedQueries j)) (f_of_int F (TotalQueries j))) (f_of_int F 100)"

definition PrintJobs :: "'f float64 \<Rightarrow> ('f \<Rightarrow> string) \<Rightarrow> 'f \<Rightarrow> (nat \<Rightarrow> nat \<Rightarrow> nat \<Rightarrow> time) \<Rightarrow> 'f coordinator \<Rightarrow> 'f report" where
  "PrintJobs F fmt2 LAST_SECONDS clk c =
     (let s = Scheduler c;
          info = map (\<lambda>(_, r). let j = job_at s r; n = GetWorkerCountById (job_Id j) s in
            (j, n, time_left F (clk r) n j, query_rate F LAST_SECONDS (clk r) n j, Seconds F (TotalQueryTime (clk r 2 0) j))) (ActiveJobs s);
          qps = map (\<lambda>(j, n, left, queries, secs). queries) info
      in ReportTable \<lparr>Header = [''Job ID'', ''Model Type'', ''Batch Size'', ''Total Queries'', ''Completed Queries'', ''Total Query Time'',
             ''Running VMs'', ''Progress'', ''Query/Sec'', ''Time Left''],
           Rows = map (\<lambda>(j, n, left, queries, secs).
             [job_Id j, ModelType j, show_int (BatchSize j), show_int (TotalQueries j), show_int (CompletedQueries j), fmt2 secs @ '' sec'',
              show_int n, fmt2 (job_progress F j) @ ''%'', fmt2 queries, fmt2 left @ '' sec'']) info,
           Footers = [[''Total Running Jobs'', show_int (int (length (ActiveJobs s)))],
             [''Relative QPS Difference'', fmt2 (f_mul F (GetRelQPSDiff F qps) (f_of_int F 100)) @ ''%'']],
           SortBy = Some ''Job ID''\<rparr>)"

definition job_json :: "'f float64 \<Rightarrow> 'f job \<Rightarrow> int \<Rightarrow> 'f \<Rightarrow> 'f \<Rightarrow> 'f \<Rightarrow> 'f json" where
  "job_json F j n left queries secs =
     JObject [(''id'', JString (job_Id j)), (''modelType'', JString (ModelType j)), (''batchSize'', JInt (BatchSize j)),
       (''totalQueries'', JInt (TotalQueries j)), (''completedQueries'', JInt (CompletedQueries j)), (''totalQueryTime'', JNumber secs),
       (''runningVMs'', JInt n), (''progress'', JNumber (job_progress F j)), (''qps'', JNumber queries), (''timeLeft'', JNumber left)]"

definition PrintJobsJSON :: "'f float64 \<Rightarrow> 'f \<Rightarrow> (nat \<Rightarrow> nat \<Rightarrow> nat \<Rightarrow> time) \<Rightarrow> 'f coordinator \<Rightarrow> 'f report" where
  "PrintJobsJSON F LAST_SECONDS clk c =
     (let s = Scheduler c;
          info = map (\<lambda>(_, r). let j = job_at s r; n = GetWorkerCountById (job_Id j) s in
            (j, n, time_left F (clk r) n j, query_rate F LAST_SECONDS (clk r) n j, Seconds F (TotalQueryTime (clk r 2 0) j))) (ActiveJobs s);
          qps = map (\<lambda>(j, n, left, queries, secs). queries) info
      in json_Marshal F (JObject [(''jobs'', JArray (map (\<lambda>(j, n, left, queries, secs). job_json F j n left queries secs) info)),
           (''relativeQPSDifference'', JNumber (f_mul F (GetRelQPSDiff F qps) (f_of_int F 100)))]))"

section \<open>Completed jobs\<close>

definition completed_rate :: "'f float64 \<Rightarrow> time \<Rightarrow> 'f job \<Rightarrow> 'f" where
  "completed_rate F now j = f_div F (f_of_int F (TotalQueries j)) (Seconds F (TotalQueryTime now j))"

definition PrintCompletedJobs :: "'f float64 \<Rightarrow> ('f \<Rightarrow> string) \<Rightarrow> (nat \<Rightarrow> nat \<Rightarrow> time) \<Rightarrow> 'f coordinator \<Rightarrow> 'f report" where
  "PrintCompletedJobs F fmt2 clk c =
     (let s = Scheduler c in
      ReportTable \<lparr>Header = [''Job ID'', ''Model Type'', ''Batch Size'', ''Total Queries'', ''Total Query Time'', ''Query/Sec''],
        Rows = map (\<lambda>(_, r). let j = job_at s r in
          [job_Id j, ModelType j, show_int (BatchSize j), show_int (TotalQueries j), fmt2 (Seconds F (TotalQueryTime (clk r 0) j)) @ '' sec'',
           fmt2 (completed_rate F (clk r 1) j)]) (CompletedJobs s),
        Footers = [], SortBy = Some ''Job ID''\<rparr>)"

definition PrintCompletedJobsJSON :: "'f float64 \<Rightarrow> (nat \<Rightarrow> nat \<Rightarrow> time) \<Rightarrow> 'f coordinator \<Rightarrow> 'f report" where
  "PrintCompletedJobsJSON F clk c =
     (let s = Scheduler c in
      json_Marshal F (JArray (map (\<lambda>(_, r). let j = job_at s r in
        JObject [(''id'', JString (job_Id j)), (''modelType'', JString (ModelType j)), (''batchSize'', JInt (BatchSize j)),
          (''totalQueries'', JInt (TotalQueries j)), (''totalQueryTime'', JNumber (Seconds F (TotalQueryTime (clk r 0) j))),
          (''qps'', JNumber (completed_rate F (clk r 1) j))]) (CompletedJobs s))))"

section \<open>One job\<close>

definition find_job :: "string \<Rightarrow> 'f scheduler \<Rightarrow> nat option" where
  "find_job jobId s = (case GetJob jobId s of Some r \<Rightarrow> Some r | None \<Rightarrow> map_of (CompletedJobs s) jobId)"

definition not_found :: "string \<Rightarrow> string" where
  "not_found jobId = ''Job '' @ jobId @ '' not found\<newline>''"

text \<open>\<open>GetResults\<close> shortens the inputs in the job, so the reports on one job change the state.\<close>

definition PrintJob :: "'f float64 \<Rightarrow> ('f \<Rightarrow> string) \<Rightarrow> string \<Rightarrow> 'f coordinator \<Rightarrow> 'f report \<times> 'f coordinator" where
  "PrintJob F fmt2 jobId c =
     (case find_job jobId (Scheduler c) of
        None \<Rightarrow> (ReportText (not_found jobId), c)
      | Some r \<Rightarrow>
          (case GetResults F (job_at (Scheduler c) r) of ((results, metric), j) \<Rightarrow>
             (ReportTable \<lparr>Header = [''Input'', ''Output''],
                Rows = map (\<lambda>res. [take 100 (er_Input res) @ ''...'', take 100 (er_Output res)]) results,
                Footers = [[''Metric'', fmt2 (f_float32 F (f_mul F metric (f_of_int F 100))) @ ''%'']], SortBy = None\<rparr>,
              map_sched (put_job r j) c)))"

definition PrintJobJSON :: "'f float64 \<Rightarrow> string \<Rightarrow> 'f coordinator \<Rightarrow> 'f report \<times> 'f coordinator" where
  "PrintJobJSON F jobId c =
     (case find_job jobId (Scheduler c) of
        None \<Rightarrow> (ReportText EMPTY_STRING, c)
      | Some r \<Rightarrow>
          (case GetResults F (job_at (Scheduler c) r) of ((results, metric), j) \<Rightarrow>
             (json_Marshal F (JObject [(''metric'', JNumber metric),
                (''batches'', JArray (map (\<lambda>res. JObject [(''batchInput'', JString (er_Input res)), (''batchOutput'', JString (er_Output res))]) results)),
                (''id'', JString (job_Id j)), (''queryRates'', JArray (map JNumber (QueryRates j))),
                (''queryProcessTimes'', JArray (map JNumber (QueryProcessTimes j)))]),
              map_sched (put_job r j) c)))"

text \<open>The statistics library.\<close>

record 'f stats_lib =
  Mean :: "'f list \<Rightarrow> 'f"
  Median :: "'f list \<Rightarrow> 'f"
  StandardDeviation :: "'f list \<Rightarrow> 'f"
  Percentile :: "'f list \<Rightarrow> int \<Rightarrow> 'f"

definition PrintJobStatistics :: "'f float64 \<Rightarrow> 'f stats_lib \<Rightarrow> ('f \<Rightarrow> string) \<Rightarrow> string \<Rightarrow> 'f coordinator \<Rightarrow> 'f report" where
  "PrintJobStatistics F st fmt2 jobId c =
     (case find_job jobId (Scheduler c) of
        None \<Rightarrow> ReportText (not_found jobId)
      | Some r \<Rightarrow>
          let to64 = ConvertTo64 (\<lambda>x. x) (f_of_int F 0);
              qps = to64 (QueryRates (job_at (Scheduler c) r)); time = to64 (QueryProcessTimes (job_at (Scheduler c) r));
              row = (\<lambda>name g. [name, fmt2 (g qps), fmt2 (g time)])
          in ReportTable \<lparr>Header = [''Stat'', ''Query Rate'', ''Query Processing Time''],
               Rows = [row ''Mean'' (Mean st), row ''Median'' (Median st), row ''Standard Deviation'' (StandardDeviation st),
                 row ''90-percentile'' (\<lambda>xs. Percentile st xs 90), row ''95-percentile'' (\<lambda>xs. Percentile st xs 95),
                 row ''99-percentile'' (\<lambda>xs. Percentile st xs 99)],
               Footers = [], SortBy = None\<rparr>)"

section \<open>Dispatch\<close>

definition IDunnoStatus :: "'f float64 \<Rightarrow> 'f stats_lib \<Rightarrow> ('f \<Rightarrow> string) \<Rightarrow> 'f \<Rightarrow> (nat \<Rightarrow> nat \<Rightarrow> nat \<Rightarrow> time) \<Rightarrow> string \<Rightarrow> string
    \<Rightarrow> 'f coordinator \<Rightarrow> 'f report option \<times> 'f coordinator" where
  "IDunnoStatus F st fmt2 LAST_SECONDS clk which payload c =
     (if which = ''w'' then (Some (PrintWorkers c), c)
      else if which = ''jw'' then (Some (PrintWorkersJSON F c), c)
      else if which = ''j'' then (Some (PrintJobs F fmt2 LAST_SECONDS clk c), c)
      else if which = ''jj'' then (Some (PrintJobsJSON F LAST_SECONDS clk c), c)
      else if which = ''ij'' then map_prod Some id (PrintJob F fmt2 payload c)
      else if which = ''ijs'' then (Some (PrintJobStatistics F st fmt2 payload c), c)
      else if which = ''jij'' then map_prod Some id (PrintJobJSON F payload c)
      else if which = ''cj'' then (Some (PrintCompletedJobs F fmt2 (\<lambda>r. clk r 0) c), c)
      else if which = ''jcj'' then (Some (PrintCompletedJobsJSON F (\<lambda>r. clk r 0) c), c)
      else (None, c))"

section \<open>Reports and the state\<close>

lemma IDunnoStatus_state:
  assumes "IDunnoStatus F st fmt2 last_s clk which payload c = (rep, c')"
  shows "quiet eval (Scheduler c) (Scheduler c') \<and> ModelStore c' = ModelStore c \<and> TaskQueue c' = TaskQueue c"
proof -
  have "quiet eval s (put_job r (snd (GetResults F (job_at s r))) s)" for r and s :: "'a scheduler"
    by (rule quiet_put_job [OF evolves_GetResults])
  then have "quiet eval (Scheduler c) (Scheduler (snd (PrintJob F fmt2 payload c))) \<and> quiet eval (Scheduler c) (Scheduler (snd (PrintJobJSON F payload c)))"
    by (simp add: PrintJob_def PrintJobJSON_def map_sched_def split_def split: option.splits)
  moreover have "ModelStore (snd (PrintJob F fmt2 payload c)) = ModelStore c \<and> TaskQueue (snd (PrintJob F fmt2 payload c)) = TaskQueue c
      \<and> ModelStore (snd (PrintJobJSON F payload c)) = ModelStore c \<and> TaskQueue (snd (PrintJobJSON F payload c)) = TaskQueue c"
    by (simp add: PrintJob_def PrintJobJSON_def map_sched_def split_def split: option.splits)
  moreover have "c' = c \<or> c' = snd (PrintJob F fmt2 payload c) \<or> c' = snd (PrintJobJSON F payload c)"
    using assms by (auto simp: IDunnoStatus_def map_prod_def split_def split: if_splits)
  ultimately show ?thesis by auto
qed

text \<open>One stalled job blanks the JSON report on all jobs: when an active job has a worker but queried no batch
  during the last ten seconds, its expected time left is a division by zero, which is not the value that the
  report replaces; \<open>json.Marshal\<close> rejects it and the report on every job is the empty string. (As IEEE-754
  has it, dividing by zero does not give a finite number, and only a finite one equals the largest.)\<close>

theorem stalled_job_blanks_report:
  assumes div0: "\<And>x. \<not> f_finite F (f_div F x (f_of_int F 0))" and largest: "\<And>x. f_equal F x (f_MaxFloat64 F) \<Longrightarrow> f_finite F x"
    and job: "(jid, r) \<in> set (ActiveJobs (Scheduler c))" and worker: "GetWorkerCountById (job_Id (job_at (Scheduler c) r)) (Scheduler c) \<noteq> 0"
    and stalled: "GetQPS F (clk r 0) (f_of_int F 10) (job_at (Scheduler c) r) = f_of_int F 0"
  shows "fst (IDunnoStatus F st fmt2 last_s clk ''jj'' payload c) = Some (ReportText EMPTY_STRING)"
proof -
  let ?s = "Scheduler c" let ?j = "job_at ?s r" let ?n = "GetWorkerCountById (job_Id ?j) ?s"
  have "\<not> f_finite F (time_left F (clk r) ?n ?j)"
    using div0 largest worker stalled by (auto simp: time_left_def GetExpectedTimeLeft_def Let_def)
  then have bad: "\<not> json_ok F (job_json F ?j ?n (time_left F (clk r) ?n ?j) queries secs)" for queries secs
    by (simp add: job_json_def)
  have "PrintJobsJSON F last_s clk c = ReportText EMPTY_STRING"
    unfolding PrintJobsJSON_def Let_def json_Marshal_def
    by (simp add: list_all_iff) (use bad job in \<open>force simp: split_def\<close>)
  then show ?thesis by (simp add: IDunnoStatus_def)
qed

end
