(* ===== verification/Job_Lifecycle.thy ===== *)
theory Job_Lifecycle
  imports Coordinator_Status
begin

text \<open>
  What the coordinator promises about jobs, over every interleaving of its handlers, periodic tasks and
  membership callbacks: \<open>coord_reachable\<close> is the set of states they lead to, given what the model runner
  answers on each batch. In every such state a pending or completed job has an output for each of its
  batches, so the result file of a job is complete; and a backup restores models and jobs at the successor.
\<close>

section \<open>The handlers keep the job invariant\<close>

definition coord_inv :: "evaluation \<Rightarrow> 'f coordinator \<Rightarrow> bool" where
  "coord_inv eval c \<longleftrightarrow> jobs_inv eval (Scheduler c) \<and> rm_inv (Scheduler c)
     \<and> wf_map (ModelStore c) \<and> (\<forall>t \<in> set (TaskQueue c). it_BatchSize t < 2 ^ 31)"

lemma coord_inv_sched:
  "coord_inv eval c \<Longrightarrow> jobs_inv eval (Scheduler c') \<Longrightarrow> rm_inv (Scheduler c')
     \<Longrightarrow> ModelStore c' = ModelStore c \<Longrightarrow> set (TaskQueue c') \<subseteq> set (TaskQueue c) \<Longrightarrow> coord_inv eval c'"
  by (auto simp: coord_inv_def)

lemma coord_inv_quiet:
  "coord_inv eval c \<Longrightarrow> quiet eval (Scheduler c) (Scheduler c') \<Longrightarrow> ModelStore c' = ModelStore c
     \<Longrightarrow> TaskQueue c' = TaskQueue c \<Longrightarrow> coord_inv eval c'"
  unfolding coord_inv_def using quiet_jobs_inv quiet_rm_inv by auto

lemma MesureStats_quiet: "quiet eval (Scheduler c) (Scheduler (MesureStats F clk c))"
  unfolding MesureStats_def map_sched_def
  by (simp, intro quiet_foldl quiet_put_job) (rule evolves_trans [OF evolves_stats])

lemma next_batch_quiet: "next_batch now wr jr s = (reply, s') \<Longrightarrow> quiet eval s s'"
proof -
  assume run: "next_batch now wr jr s = (reply, s')"
  obtain bi j where f: "FetchBatchInput now (job_at s jr) = (bi, j)" by force
  have j: "evolves eval (job_at s jr) j" using evolves_FetchBatchInput [of eval "job_at s jr" now] f by simp
  have v: "evolves eval j (modify_batch i (\<lambda>b. b\<lparr>BatchInput := map_option (\<lambda>inp. inp\<lparr>Inputs := ValidateDatasetInputs (Dataset j) (Inputs inp)\<rparr>) (BatchInput b)\<rparr>) j)" for i
    by (rule evolves_modify_batch) (auto simp: batch_ok_def)
  obtain j1 w where "s' = put_worker wr w (put_job jr j1 s)" "evolves eval j j1"
    using run f v by (cases bi) (auto simp: next_batch_def Let_def)
  then show ?thesis using quiet_trans [OF quiet_put_job [OF evolves_trans [OF j]] quiet_put_worker] by blast
qed

lemma next_batch_jobs:
  assumes "next_batch now wr jr s = (reply, s')"
  shows "PendingJobs s' = PendingJobs s" and "job_Id (job_at s' r) = job_Id (job_at s r)"
proof -
  obtain bi j where f: "FetchBatchInput now (job_at s jr) = (bi, j)" by force
  have id: "job_Id j = job_Id (job_at s jr)" using evolves_Id [OF evolves_FetchBatchInput [of undefined "job_at s jr" now]] by (simp add: f)
  show "PendingJobs s' = PendingJobs s" "job_Id (job_at s' r) = job_Id (job_at s r)"
    using assms f id by (cases bi; auto simp: next_batch_def Let_def put_worker_def put_job_def)+
qed

lemma QueryData_inv:
  assumes inv: "coord_inv eval c" and out: "\<And>o'. out = Some o' \<Longrightarrow> computed eval jobId o'"
    and run: "QueryData t1 t2 t3 jobId p out c = Inr (reply, c')"
  shows "coord_inv eval c'"
proof -
  let ?s = "Scheduler (OnBecomeCoordinator c)"
  have s: "?s = Scheduler c" by (simp add: OnBecomeCoordinator_def)
  have rest: "ModelStore c' = ModelStore c \<and> TaskQueue c' = TaskQueue c"
    using run by (auto simp: QueryData_def Let_def OnBecomeCoordinator_def split: option.splits sum.splits if_splits prod.splits)
  consider "Scheduler c' = Scheduler c"
    | wr jr s1 where "(case out of None \<Rightarrow> Inr (Scheduler c) | Some o' \<Rightarrow> OnReceiveBatchOutput t1 t2 jobId p o' (Scheduler c)) = Inr s1"
        "Scheduler c' = s1 \<or> (\<exists>reply'. next_batch t3 wr jr s1 = (reply', Scheduler c'))"
    using run s by (auto simp: QueryData_def Let_def split: option.splits sum.splits if_splits prod.splits) metis+
  then have "jobs_inv eval (Scheduler c') \<and> rm_inv (Scheduler c')"
  proof cases
    case 1
    with inv show ?thesis by (simp add: coord_inv_def)
  next
    case 2
    have "jobs_inv eval s1 \<and> rm_inv s1"
      using 2(1) inv OnReceiveBatchOutput_inv [of eval "Scheduler c" jobId _ t1 t2 p s1] out
      by (cases out) (auto simp: coord_inv_def rm_inv_def)
    with 2(2) show ?thesis using next_batch_quiet quiet_jobs_inv quiet_rm_inv by metis
  qed
  with rest show ?thesis by (intro coord_inv_sched [OF inv]) simp_all
qed

subsection \<open>FlushPendingJobs\<close>

text \<open>The state after the workers of the pending job are reset and its results collected, and the state
  after the file was stored.\<close>

definition collect_results :: "'f float64 \<Rightarrow> (nat \<Rightarrow> time) \<Rightarrow> nat \<Rightarrow> 'f scheduler \<Rightarrow> 'f scheduler" where
  "collect_results F clk jr s =
     (let jid = job_Id (job_at s jr); s1 = s\<lparr>ActiveJobs := AList.delete jid (ActiveJobs s)\<rparr>;
          s2 = foldl (\<lambda>s r. put_worker r (Reset (clk r) (worker_at s r)) s) s1 (GetWorkersById jid s1)
      in put_job jr (snd (GetResults F (job_at s2 jr))) s2)"

definition finish_job :: "time \<Rightarrow> nat \<Rightarrow> 'f scheduler \<Rightarrow> 'f scheduler" where
  "finish_job now jr s =
     put_job jr ((job_at s jr)\<lparr>FinishTime := Some now\<rparr>)
       (s\<lparr>PendingJobs := tl (PendingJobs s), CompletedJobs := AList.update (job_Id (job_at s jr)) jr (CompletedJobs s)\<rparr>)"

lemma reset_quiet: "quiet eval s (foldl (\<lambda>s r. put_worker r (Reset (clk r) (worker_at s r)) s) s rs)"
  by (rule quiet_foldl) simp

lemma reset_jobs: "job_at (foldl (\<lambda>s r. put_worker r (Reset (clk r) (worker_at s r)) s) s rs) = job_at s
    \<and> job_free (foldl (\<lambda>s r. put_worker r (Reset (clk r) (worker_at s r)) s) s rs) = job_free s"
  by (induction rs arbitrary: s) (simp_all add: put_worker_def)

lemma collect_results_maps:
  "ActiveJobs (collect_results F clk jr s) = AList.delete (job_Id (job_at s jr)) (ActiveJobs s)"
  "PendingJobs (collect_results F clk jr s) = PendingJobs s" "CompletedJobs (collect_results F clk jr s) = CompletedJobs s"
  "ResourceManager (collect_results F clk jr s) = ResourceManager s" "worker_free (collect_results F clk jr s) = worker_free s"
  "job_at (collect_results F clk jr s) = (job_at s)(jr := snd (GetResults F (job_at s jr)))" "job_free (collect_results F clk jr s) = job_free s"
proof -
  let ?s1 = "s\<lparr>ActiveJobs := AList.delete (job_Id (job_at s jr)) (ActiveJobs s)\<rparr>"
  let ?s2 = "foldl (\<lambda>s r. put_worker r (Reset (clk r) (worker_at s r)) s) ?s1 (GetWorkersById (job_Id (job_at s jr)) ?s1)"
  have m: "same_maps ?s1 ?s2" using reset_quiet [of undefined ?s1 clk] by (simp add: quiet_def)
  note j = reset_jobs [of clk ?s1]
  have c: "collect_results F clk jr s = put_job jr (snd (GetResults F (job_at s jr))) ?s2"
    by (simp add: collect_results_def Let_def j)
  show "ActiveJobs (collect_results F clk jr s) = AList.delete (job_Id (job_at s jr)) (ActiveJobs s)"
    "PendingJobs (collect_results F clk jr s) = PendingJobs s" "CompletedJobs (collect_results F clk jr s) = CompletedJobs s"
    "ResourceManager (collect_results F clk jr s) = ResourceManager s" "worker_free (collect_results F clk jr s) = worker_free s"
    "job_at (collect_results F clk jr s) = (job_at s)(jr := snd (GetResults F (job_at s jr)))" "job_free (collect_results F clk jr s) = job_free s"
    using m by (simp_all add: c put_job_def same_maps_def j)
qed

lemma FlushPendingJobs_eq:
  "FlushPendingJobs F fmt clk now written put c =
     (case PendingJobs (Scheduler c) of
        [] \<Rightarrow> Inr (None, c)
      | jr # _ \<Rightarrow>
          let s = Scheduler c; s3 = collect_results F clk jr s in
          if \<not> written \<or> \<not> put then Inr (None, c\<lparr>Scheduler := s3\<rparr>)
          else Inr (Some (job_Id (job_at s jr), result_file fmt (fst (GetResults F (job_at s jr)))), c\<lparr>Scheduler := finish_job now jr s3\<rparr>))"
proof (cases "PendingJobs (Scheduler c)")
  case Nil
  then show ?thesis by (simp add: FlushPendingJobs_def)
next
  case (Cons jr q)
  have id: "job_Id (snd (GetResults F j)) = job_Id j" for j :: "'a job" by (simp add: GetResults_def Let_def)
  let ?s1 = "(Scheduler c)\<lparr>ActiveJobs := AList.delete (job_Id (job_at (Scheduler c) jr)) (ActiveJobs (Scheduler c))\<rparr>"
  note j = reset_jobs [of clk ?s1]
  show ?thesis using Cons
    by (simp add: FlushPendingJobs_def Let_def split_def finish_job_def collect_results_def j id put_job_def)
qed

lemma pending_head:
  assumes "jobs_inv eval s" and "PendingJobs s = jr # q"
  shows "jr < job_free s" and "job_ok eval (job_at s jr)" and "all_outputs (job_at s jr)"
  using assms by (simp_all add: jobs_inv_def)

lemma collect_results_inv:
  assumes "jobs_inv eval s"
  shows "jobs_inv eval (collect_results F clk jr s)"
proof (rule jobs_inv_mono [OF assms])
  show "heap_le eval s (collect_results F clk jr s)"
    by (simp add: heap_le_def collect_results_maps evolves_GetResults)
  show "wf_map (ActiveJobs (collect_results F clk jr s))"
    using assms by (simp add: collect_results_maps jobs_inv_def)
  show "set (ActiveJobs (collect_results F clk jr s)) \<subseteq> set (ActiveJobs s)"
    by (auto simp: collect_results_maps AList.delete_eq)
qed (simp_all add: collect_results_maps)

lemma set_update_subset: "set (AList.update k v m) \<subseteq> insert (k, v) (set m)"
  by (induction m) auto

lemma finish_job_inv:
  assumes inv: "jobs_inv eval s" and jr: "PendingJobs s = jr # q"
  shows "jobs_inv eval (finish_job now jr s)"
proof -
  let ?j = "(job_at s jr)\<lparr>FinishTime := Some now\<rparr>"
  let ?s0 = "s\<lparr>PendingJobs := tl (PendingJobs s), CompletedJobs := AList.update (job_Id (job_at s jr)) jr (CompletedJobs s)\<rparr>"
  note p = pending_head [OF assms]
  have "jobs_inv eval ?s0"
    using inv p jr set_update_subset [of "job_Id (job_at s jr)" jr "CompletedJobs s"] by (auto simp: jobs_inv_def)
  moreover have "quiet eval ?s0 (put_job jr ?j ?s0)" by (rule quiet_put_job) (simp add: evolves_same_batches)
  ultimately show ?thesis unfolding finish_job_def by (rule quiet_jobs_inv [rotated])
qed

lemma FlushPendingJobs_inv:
  assumes inv: "coord_inv eval c" and run: "FlushPendingJobs F fmt clk now written put c = Inr (file, c')"
  shows "coord_inv eval c'"
proof (cases "PendingJobs (Scheduler c)")
  case Nil
  with run inv show ?thesis by (simp add: FlushPendingJobs_eq)
next
  case (Cons jr q)
  let ?s3 = "collect_results F clk jr (Scheduler c)"
  have inv3: "jobs_inv eval ?s3" using inv by (simp add: collect_results_inv coord_inv_def)
  have rm: "rm_inv ?s3" using inv by (simp add: coord_inv_def rm_inv_def collect_results_maps)
  have "jobs_inv eval (finish_job now jr ?s3)"
    by (rule finish_job_inv [OF inv3]) (simp add: collect_results_maps Cons)
  moreover have "rm_inv (finish_job now jr ?s3)" using rm by (simp add: finish_job_def rm_inv_def put_job_def)
  moreover have "(Scheduler c' = ?s3 \<or> Scheduler c' = finish_job now jr ?s3) \<and> ModelStore c' = ModelStore c \<and> TaskQueue c' = TaskQueue c"
    using run Cons by (auto simp: FlushPendingJobs_eq Let_def split: if_splits)
  ultimately show ?thesis using inv3 rm by (intro coord_inv_sched [OF inv]) auto
qed

subsection \<open>New jobs\<close>

lemma add_new_job_inv:
  assumes inv: "jobs_inv eval s" and j: "job_ok eval j"
  shows "jobs_inv eval (case new_job j s of (r, s1) \<Rightarrow> AddJob r s1)"
proof -
  let ?r = "job_free s"
  have upd: "(jid, r) \<in> set (AList.update (job_Id j) ?r (ActiveJobs s)) \<Longrightarrow> (jid, r) = (job_Id j, ?r) \<or> (jid, r) \<in> set (ActiveJobs s)" for jid r
    using set_update_subset [of "job_Id j" ?r "ActiveJobs s"] by blast
  have old: "job_at (put_job ?r j s) r = job_at s r" if "r < ?r" for r using that by (simp add: put_job_def)
  show ?thesis using inv j old
    by (auto simp: jobs_inv_def new_job_def AddJob_def put_job_def less_Suc_eq dest!: upd split: prod.splits)
qed

text \<open>What is fetched for the first task in the queue has a size that a 32-bit count allows, and is the data
  set meant for the job.\<close>

definition expected :: "evaluation \<Rightarrow> dataset_fetch \<Rightarrow> time \<Rightarrow> 'f coordinator \<Rightarrow> bool" where
  "expected eval fetch t1 c \<longleftrightarrow>
     (case (fetch, TaskQueue c) of
        (Fetched data, InferenceTask model bs # _) \<Rightarrow>
          length data < 2 ^ 31 - 1 \<and> planned eval model bs (GetDataset model (ModelStore c)) (split_on (CHR ''\<newline>'') data) t1
      | _ \<Rightarrow> True)"

lemma ProcessQueuedJob_inv:
  assumes inv: "coord_inv eval c" and plan: "expected eval fetch t1 c" and run: "ProcessQueuedJob fetch t1 t2 c = Some (Inr c')"
  shows "coord_inv eval c'"
proof (cases "TaskQueue c = [] \<or> (\<forall>data. fetch \<noteq> Fetched data)")
  case True
  then have "Scheduler c' = Scheduler c \<and> ModelStore c' = ModelStore c \<and> set (TaskQueue c') \<subseteq> set (TaskQueue c)"
    using run by (cases "TaskQueue c"; cases fetch) (auto simp: ProcessQueuedJob_def Let_def)
  with inv show ?thesis by (intro coord_inv_sched [OF inv]) (auto simp: coord_inv_def)
next
  case False
  then obtain model bs q data where q: "TaskQueue c = InferenceTask model bs # q" and f: "fetch = Fetched data"
    by (metis inference_task.exhaust neq_Nil_conv)
  have "\<not> bs \<le> 0" using run q f batch_loop_diverges batch_loop_negative [of bs]
    by (cases "bs = 0") (auto simp: ProcessQueuedJob_def Let_def batch_loop_diverges batch_loop_negative)
  moreover have "bs < 2 ^ 31" using inv q by (simp add: coord_inv_def)
  moreover have small: "length data < 2 ^ 31 - 1" and p: "planned eval model bs (GetDataset model (ModelStore c)) (split_on (CHR ''\<newline>'') data) t1"
    using plan q f by (simp_all add: expected_def)
  ultimately have "c' = map_sched
     (\<lambda>s. case new_job (queued_job model bs (GetDataset model (ModelStore c)) (split_on (CHR ''\<newline>'') data) t1 t2) s of (r, s1) \<Rightarrow> AddJob r s1)
     (c\<lparr>TaskQueue := q\<rparr>)"
    using ProcessQueuedJob_eq [OF q _ _ small, of t1 t2] run f by simp
  moreover have "rm_inv (case new_job j s of (r, s1) \<Rightarrow> AddJob r s1)" if "rm_inv s" for j and s :: "'a scheduler"
    using that by (simp add: rm_inv_def new_job_def AddJob_def put_job_def)
  ultimately show ?thesis using inv q
    by (simp add: coord_inv_def map_sched_def add_new_job_inv queued_job_ok [OF small p])
qed

section \<open>Backups\<close>

lemma load_jobs_spec:
  assumes "load_jobs js s = (rs, s')"
  shows "map (job_at s') rs = js" and "distinct rs" and "\<And>r. r \<in> set rs \<Longrightarrow> job_free s \<le> r \<and> r < job_free s'"
    and "job_free s \<le> job_free s'" and "\<And>r. r < job_free s \<Longrightarrow> job_at s' r = job_at s r"
    and "ResourceManager s' = ResourceManager s" and "worker_free s' = worker_free s"
proof -
  have "map (job_at s') rs = js \<and> distinct rs \<and> (\<forall>r \<in> set rs. job_free s \<le> r \<and> r < job_free s') \<and> job_free s \<le> job_free s'
    \<and> (\<forall>r < job_free s. job_at s' r = job_at s r) \<and> ResourceManager s' = ResourceManager s \<and> worker_free s' = worker_free s"
    using assms
  proof (induction js s arbitrary: rs s' rule: load_jobs.induct)
    case (1 s)
    then show ?case by simp
  next
    case (2 j js s)
    let ?s1 = "snd (new_job j s)"
    obtain rs2 where l: "load_jobs js ?s1 = (rs2, s')" "rs = job_free s # rs2"
      using 2(2) by (auto simp: new_job_def split: prod.splits)
    have s1: "job_free ?s1 = job_free s + 1" "job_at ?s1 = (job_at s)(job_free s := j)"
      "ResourceManager ?s1 = ResourceManager s" "worker_free ?s1 = worker_free s" by (simp_all add: new_job_def put_job_def)
    from "2.IH" [OF _ l(1), of "job_free s"]
    have "map (job_at s') rs2 = js \<and> distinct rs2 \<and> (\<forall>r \<in> set rs2. job_free ?s1 \<le> r \<and> r < job_free s') \<and> job_free ?s1 \<le> job_free s'
      \<and> (\<forall>r < job_free ?s1. job_at s' r = job_at ?s1 r) \<and> ResourceManager s' = ResourceManager ?s1 \<and> worker_free s' = worker_free ?s1"
      by (simp add: new_job_def)
    then show ?case unfolding l(2) s1 by force
  qed
  then show "map (job_at s') rs = js" "distinct rs" "\<And>r. r \<in> set rs \<Longrightarrow> job_free s \<le> r \<and> r < job_free s'"
    "job_free s \<le> job_free s'" "\<And>r. r < job_free s \<Longrightarrow> job_at s' r = job_at s r"
    "ResourceManager s' = ResourceManager s" "worker_free s' = worker_free s" by blast+
qed

lemma jobs_map_fresh:
  assumes "distinct (map (\<lambda>r. job_Id (job_at s r)) rs)"
  shows "jobs_map s rs = map (\<lambda>r. (job_Id (job_at s r), r)) rs"
proof -
  have upd: "k \<notin> fst ` set m \<Longrightarrow> AList.update k v m = m @ [(k, v)]" for k v and m :: "(string \<times> nat) list"
    by (induction m) auto
  have "foldl (\<lambda>m r. AList.update (job_Id (job_at s r)) r m) m rs = m @ map (\<lambda>r. (job_Id (job_at s r), r)) rs"
    if "distinct (map fst m @ map (\<lambda>r. job_Id (job_at s r)) rs)" for m
    using that by (induction rs arbitrary: m) (auto simp: upd)
  from this [of "[]"] assms show ?thesis by (simp add: jobs_map_def)
qed

lemma models_restored: "wf_map ms \<Longrightarrow> foldl (\<lambda>m (k, v). AddModel k v m) NewModelStore ms = ms"
proof -
  have upd: "k \<notin> fst ` set m \<Longrightarrow> AddModel k v m = m @ [(k, v)]" for k v m
    unfolding AddModel_def by (induction m) auto
  have "foldl (\<lambda>m (k, v). AddModel k v m) m ms = m @ ms" if "distinct (map fst m @ map fst ms)" for m
    using that by (induction ms arbitrary: m) (auto simp: upd)
  then show "wf_map ms \<Longrightarrow> ?thesis" by (simp add: NewModelStore_def)
qed

lemma foldl_Queue_Push: "foldl (\<lambda>q r. Queue_Push r q) q rs = q @ rs"
  by (induction rs arbitrary: q) (simp_all add: Queue_Push_def)

text \<open>The jobs of a map by value.\<close>

definition job_table :: "'f scheduler \<Rightarrow> (string \<times> nat) list \<Rightarrow> (string \<times> 'f job) list" where
  "job_table s m = map (\<lambda>(jid, r). (jid, job_at s r)) m"

lemma job_table_restored:
  assumes keys: "wf_map m" "\<forall>x \<in> set m. job_Id (job_at s (snd x)) = fst x"
    and rs: "map (job_at s') rs = map (\<lambda>(_, r). job_at s r) m"
  shows "job_table s' (jobs_map s' rs) = job_table s m" and "map snd (jobs_map s' rs) = rs" and "wf_map (jobs_map s' rs)"
    and "(jid, r) \<in> set (jobs_map s' rs) \<Longrightarrow> job_Id (job_at s' r) = jid \<and> job_at s' r \<in> (\<lambda>(_, r). job_at s r) ` set m"
proof -
  have "map (\<lambda>r. job_Id (job_at s' r)) rs = map job_Id (map (job_at s') rs)" by simp
  also have "\<dots> = map fst m" unfolding rs using keys(2) by auto
  finally have ids: "map (\<lambda>r. job_Id (job_at s' r)) rs = map fst m" .
  then have d: "distinct (map (\<lambda>r. job_Id (job_at s' r)) rs)" using keys(1) by simp
  note eq = jobs_map_fresh [OF d]
  show "map snd (jobs_map s' rs) = rs" by (simp add: eq comp_def)
  show "wf_map (jobs_map s' rs)" using d by (simp add: eq comp_def)
  have "job_table s' (jobs_map s' rs) = map (\<lambda>j. (job_Id j, j)) (map (job_at s') rs)" by (simp add: job_table_def eq)
  also have "\<dots> = job_table s m" unfolding rs using keys(2) by (auto simp: job_table_def)
  finally show "job_table s' (jobs_map s' rs) = job_table s m" .
  assume "(jid, r) \<in> set (jobs_map s' rs)"
  then have "job_Id (job_at s' r) = jid" "job_at s' r \<in> set (map (job_at s') rs)" by (auto simp: eq)
  then show "job_Id (job_at s' r) = jid \<and> job_at s' r \<in> (\<lambda>(_, r). job_at s r) ` set m" unfolding rs by simp
qed

lemma Backup_spec:
  assumes inv: "coord_inv eval c'"
  obtains s3 active completed pending c2 where "Backup (Some (backup_of c')) c = Inr c2"
    and "Scheduler c2 = s3\<lparr>ActiveJobs := jobs_map s3 active, CompletedJobs := jobs_map s3 completed, PendingJobs := pending\<rparr>"
    and "map (job_at s3) active = map (\<lambda>(_, r). job_at (Scheduler c') r) (ActiveJobs (Scheduler c'))"
    and "map (job_at s3) completed = map (\<lambda>(_, r). job_at (Scheduler c') r) (CompletedJobs (Scheduler c'))"
    and "map (job_at s3) pending = map (job_at (Scheduler c')) (PendingJobs (Scheduler c'))"
    and "\<And>r. r \<in> set active \<union> set completed \<union> set pending \<Longrightarrow> r < job_free s3"
    and "ModelStore c2 = ModelStore c'" "TaskQueue c2 = TaskQueue c" "ResourceManager s3 = ResourceManager (Scheduler c)"
      "worker_free s3 = worker_free (Scheduler c)"
proof -
  let ?b = "backup_of c'"
  obtain active s1 where 1: "load_jobs (bk_ActiveJobs ?b) (Scheduler c) = (active, s1)" by force
  obtain completed s2 where 2: "load_jobs (bk_CompletedJobs ?b) s1 = (completed, s2)" by force
  obtain pending s3 where 3: "load_jobs (bk_PendingJobs ?b) s2 = (pending, s3)" by force
  note l1 = load_jobs_spec [OF 1] and l2 = load_jobs_spec [OF 2] and l3 = load_jobs_spec [OF 3]
  have a: "map (job_at s3) active = map (job_at s1) active" using l1(3) l2(4,5) l3(5) by fastforce
  have co: "map (job_at s3) completed = map (job_at s2) completed" using l2(3) l3(5) by auto
  have free: "r < job_free s3" if "r \<in> set active \<union> set completed \<union> set pending" for r
    using that l1(3) [of r] l2(3) [of r] l3(3) [of r] l2(4) l3(4) by auto
  let ?c2 = "c\<lparr>ModelStore := ModelStore c', Scheduler := s3\<lparr>ActiveJobs := jobs_map s3 active, CompletedJobs := jobs_map s3 completed, PendingJobs := pending\<rparr>\<rparr>"
  have "wf_map (ModelStore c')" using inv by (simp add: coord_inv_def)
  then have "Backup (Some ?b) c = Inr ?c2"
    using models_restored [of "ModelStore c'"] by (simp add: Backup_def 1 2 3 foldl_Queue_Push NewQueue_def) (simp add: backup_of_def Let_def)
  then show ?thesis
    by (rule that [where ?s3.0 = s3 and active = active and completed = completed and pending = pending])
      (use a co free l1 l2 l3 in \<open>simp_all add: backup_of_def Let_def Queue_ToSlice_def\<close>)
qed

text \<open>C17. A backup is restored in full: when a coordinator sends its state to a successor, the successor ends up
  with the same models, the same active and completed jobs under the same ids and the same pending jobs in the
  same order. The queue of accepted inference tasks is not part of it: the successor keeps its own, and the
  tasks of the coordinator are lost if it fails.\<close>

theorem backup_restores_jobs:
  assumes "coord_inv eval c'"
  shows "\<exists>c2. Backup (Some (backup_of c')) c = Inr c2 \<and> ModelStore c2 = ModelStore c'
    \<and> job_table (Scheduler c2) (ActiveJobs (Scheduler c2)) = job_table (Scheduler c') (ActiveJobs (Scheduler c'))
    \<and> job_table (Scheduler c2) (CompletedJobs (Scheduler c2)) = job_table (Scheduler c') (CompletedJobs (Scheduler c'))
    \<and> map (job_at (Scheduler c2)) (PendingJobs (Scheduler c2)) = map (job_at (Scheduler c')) (PendingJobs (Scheduler c'))
    \<and> TaskQueue c2 = TaskQueue c"
proof -
  let ?s' = "Scheduler c'"
  obtain s3 active completed pending c2 where b: "Backup (Some (backup_of c')) c = Inr c2"
    "Scheduler c2 = s3\<lparr>ActiveJobs := jobs_map s3 active, CompletedJobs := jobs_map s3 completed, PendingJobs := pending\<rparr>"
    "map (job_at s3) active = map (\<lambda>(_, r). job_at ?s' r) (ActiveJobs ?s')"
    "map (job_at s3) completed = map (\<lambda>(_, r). job_at ?s' r) (CompletedJobs ?s')"
    "map (job_at s3) pending = map (job_at ?s') (PendingJobs ?s')" "ModelStore c2 = ModelStore c'" "TaskQueue c2 = TaskQueue c"
    by (rule Backup_spec [OF assms, of c]) blast
  have k: "wf_map (ActiveJobs ?s')" "wf_map (CompletedJobs ?s')"
    "\<forall>x \<in> set (ActiveJobs ?s'). job_Id (job_at ?s' (snd x)) = fst x" "\<forall>x \<in> set (CompletedJobs ?s'). job_Id (job_at ?s' (snd x)) = fst x"
    using assms by (auto simp: coord_inv_def jobs_inv_def)
  have t: "job_table (s3\<lparr>ActiveJobs := x, CompletedJobs := y, PendingJobs := z\<rparr>) = job_table s3" for x y z
    by (simp add: job_table_def fun_eq_iff)
  show ?thesis
    using b job_table_restored(1) [OF k(1,3) b(3)] job_table_restored(1) [OF k(2,4) b(4)] by (simp add: t)
qed

lemma Backup_inv:
  assumes inv: "coord_inv eval c" and inv': "coord_inv eval c'" and run: "Backup (Some (backup_of c')) c = Inr c2"
  shows "coord_inv eval c2"
proof -
  let ?s' = "Scheduler c'"
  obtain s3 active completed pending c3 where c3: "Backup (Some (backup_of c')) c = Inr c3" and b3:
    "Scheduler c3 = s3\<lparr>ActiveJobs := jobs_map s3 active, CompletedJobs := jobs_map s3 completed, PendingJobs := pending\<rparr>"
    "map (job_at s3) active = map (\<lambda>(_, r). job_at ?s' r) (ActiveJobs ?s')"
    "map (job_at s3) completed = map (\<lambda>(_, r). job_at ?s' r) (CompletedJobs ?s')"
    "map (job_at s3) pending = map (job_at ?s') (PendingJobs ?s')"
    and free: "\<And>r. r \<in> set active \<union> set completed \<union> set pending \<Longrightarrow> r < job_free s3"
    and rest3: "ModelStore c3 = ModelStore c'" "TaskQueue c3 = TaskQueue c" "ResourceManager s3 = ResourceManager (Scheduler c)"
      "worker_free s3 = worker_free (Scheduler c)"
    by (rule Backup_spec [OF inv', of c]) blast
  have "c3 = c2" using c3 run by simp
  note b = b3 [unfolded this] and rest = rest3 [unfolded this]
  have k: "wf_map (ActiveJobs ?s')" "wf_map (CompletedJobs ?s')"
    "\<forall>x \<in> set (ActiveJobs ?s'). job_Id (job_at ?s' (snd x)) = fst x" "\<forall>x \<in> set (CompletedJobs ?s'). job_Id (job_at ?s' (snd x)) = fst x"
    using inv' by (auto simp: coord_inv_def jobs_inv_def)
  note a = job_table_restored [OF k(1,3) b(2)] and co = job_table_restored [OF k(2,4) b(3)]
  have act: "r < job_free s3 \<and> job_Id (job_at s3 r) = jid \<and> job_ok eval (job_at s3 r)" if x: "(jid, r) \<in> set (jobs_map s3 active)" for jid r
  proof -
    have "r \<in> set active" using imageI [OF x, of snd] a(2) by (metis list.set_map snd_conv)
    moreover obtain y where "y \<in> set (ActiveJobs ?s')" "job_at s3 r = job_at ?s' (snd y)" using a(4) [OF x] by (auto simp: split_def)
    ultimately show ?thesis using a(4) [OF x] free inv' by (auto simp: coord_inv_def jobs_inv_def)
  qed
  have com: "r < job_free s3 \<and> job_Id (job_at s3 r) = jid \<and> job_ok eval (job_at s3 r) \<and> all_outputs (job_at s3 r)" if x: "(jid, r) \<in> set (jobs_map s3 completed)" for jid r
  proof -
    have "r \<in> set completed" using imageI [OF x, of snd] co(2) by (metis list.set_map snd_conv)
    moreover obtain y where "y \<in> set (CompletedJobs ?s')" "job_at s3 r = job_at ?s' (snd y)" using co(4) [OF x] by (auto simp: split_def)
    ultimately show ?thesis using co(4) [OF x] free inv' by (auto simp: coord_inv_def jobs_inv_def)
  qed
  have pen: "r < job_free s3 \<and> job_ok eval (job_at s3 r) \<and> all_outputs (job_at s3 r)" if "r \<in> set pending" for r
  proof -
    have "job_at s3 r \<in> job_at ?s' ` set (PendingJobs ?s')" using imageI [OF that, of "job_at s3"] b(4) by (metis set_map)
    with that free inv' show ?thesis by (auto simp: coord_inv_def jobs_inv_def)
  qed
  have "jobs_inv eval (Scheduler c2)" unfolding b(1) jobs_inv_def using a(3) co(3) act com pen by auto
  moreover have "rm_inv (Scheduler c2)" using inv rest unfolding b(1) by (simp add: coord_inv_def rm_inv_def)
  ultimately show ?thesis using inv inv' rest by (simp add: coord_inv_def)
qed

section \<open>Reachable coordinators\<close>

text \<open>What a coordinator does by itself, on a request of a client or as told by the ring, whose list of members
  changes at any time. A data set file and a batch size have the sizes a 32-bit count allows. Beside these
  steps it serves the queries of workers, which submit answers to their batches, and takes over the backup of
  another coordinator.\<close>

inductive coord_step :: "evaluation \<Rightarrow> 'f coordinator \<Rightarrow> 'f coordinator \<Rightarrow> bool" for eval where
  ring: "coord_step eval c (c\<lparr>ic_Ring := r\<rparr>)"
| stats: "coord_step eval c (MesureStats F sclk c)"
| refresh_batches: "coord_step eval c (ic_RefreshBatchStatus c)"
| refresh_workers: "coord_step eval c (ic_RefreshWorkerStatus wclk c)"
| backup_sent: "BackupCoordinatorData dial c = (msg, c') \<Longrightarrow> coord_step eval c c'"
| flush: "FlushPendingJobs F fmt wclk now written put c = Inr (result, c') \<Longrightarrow> coord_step eval c c'"
| reschedule: "Reschedule_start F last_s qclk c = Inr (sends, c') \<Longrightarrow> coord_step eval c c'"
| reschedule_done: "coord_step eval c (Reschedule_end c)"
| reply: "coord_step eval c (Reschedule_reply now answer jid wr c)"
| process: "expected eval fetch t1 c \<Longrightarrow> ProcessQueuedJob fetch t1 t2 c = Some (Inr c') \<Longrightarrow> coord_step eval c c'"
| member: "ic_OnMemberUpdate now action p c = Inr c' \<Longrightarrow> coord_step eval c c'"
| train: "Train replies model dataset c = Some (ok, c') \<Longrightarrow> coord_step eval c c'"
| inference: "it_BatchSize task < 2 ^ 31 \<Longrightarrow> Inference task c = (answer, c') \<Longrightarrow> coord_step eval c c'"
| report: "IDunnoStatus F lib fmt2 last_s rclk which payload c = (rep, c') \<Longrightarrow> coord_step eval c c'"

inductive coord_reachable :: "evaluation \<Rightarrow> 'f coordinator \<Rightarrow> bool" for eval where
  start: "coord_reachable eval (NewIDunnoCoordinator ring jobs workers)"
| step: "coord_reachable eval c \<Longrightarrow> coord_step eval c c' \<Longrightarrow> coord_reachable eval c'"
| query: "coord_reachable eval c \<Longrightarrow> (\<And>o'. out = Some o' \<Longrightarrow> computed eval jobId o') \<Longrightarrow>
    QueryData t1 t2 t3 jobId p out c = Inr (qreply, c') \<Longrightarrow> coord_reachable eval c'"
| backup: "coord_reachable eval c \<Longrightarrow> coord_reachable eval c' \<Longrightarrow> Backup (Some (backup_of c')) c = Inr c2 \<Longrightarrow> coord_reachable eval c2"

lemma OnWorkerFailed_inv:
  assumes "jobs_inv eval s" and "rm_inv s" and run: "OnWorkerFailed p s = Inr s'"
  shows "jobs_inv eval s'" and "rm_inv s'"
proof -
  note f = OnWorkerFailed_heap [OF run, of eval]
  show "jobs_inv eval s'" by (rule jobs_inv_mono [OF assms(1)]) (use f assms(1) in \<open>simp_all add: jobs_inv_def\<close>)
  show "rm_inv s'" using f assms(2) unfolding rm_inv_def
    by (auto simp: AList.delete_eq distinct_map_filter intro!: distinct_map_filter)
qed

lemma AddWorker_inv: "jobs_inv eval s \<Longrightarrow> jobs_inv eval (AddWorker now p s)"
  by (rule jobs_inv_mono [where s = s]) (simp_all add: AddWorker_def Let_def put_worker_def heap_le_def jobs_inv_def)

lemma OnWorkerLeaved_inv: "jobs_inv eval s \<Longrightarrow> jobs_inv eval (OnWorkerLeaved p s) \<and> rm_inv (OnWorkerLeaved p s)"
  by (auto simp: OnWorkerLeaved_def jobs_inv_def rm_inv_def)

lemma OnMemberUpdate_inv:
  assumes inv: "coord_inv eval c" and run: "ic_OnMemberUpdate now action p c = Inr c'"
  shows "coord_inv eval c'"
proof -
  have s: "jobs_inv eval (Scheduler c)" "rm_inv (Scheduler c)" using inv by (simp_all add: coord_inv_def)
  have "jobs_inv eval (Scheduler c') \<and> rm_inv (Scheduler c')"
  proof (cases action)
    case MEMBER_DELETE
    with run obtain s' where "OnWorkerFailed p (Scheduler c) = Inr s'" "Scheduler c' = s'"
      by (auto simp: ic_OnMemberUpdate_def split: sum.splits)
    with OnWorkerFailed_inv [OF s] show ?thesis by simp
  qed (use run s in \<open>auto simp: ic_OnMemberUpdate_def map_sched_def OnWorkerJoined_def AddWorker_inv rm_inv_AddWorker OnWorkerLeaved_inv\<close>)
  moreover have "ModelStore c' = ModelStore c \<and> TaskQueue c' = TaskQueue c"
    using run by (auto simp: ic_OnMemberUpdate_def map_sched_def split: mem_action.splits sum.splits)
  ultimately show ?thesis by (intro coord_inv_sched [OF inv]) simp_all
qed

lemma coord_step_inv:
  assumes "coord_step eval c c'" and inv: "coord_inv eval c"
  shows "coord_inv eval c'"
  using assms(1)
proof cases
  case ring
  with inv show ?thesis by (simp add: coord_inv_def)
next
  case stats
  then show ?thesis by (intro coord_inv_quiet [OF inv]) (simp_all add: MesureStats_quiet, simp_all add: MesureStats_def map_sched_def)
next
  case refresh_batches
  then show ?thesis by (intro coord_inv_quiet [OF inv]) (simp_all add: ic_RefreshBatchStatus_def map_sched_def RefreshBatchStatus_quiet)
next
  case refresh_workers
  then show ?thesis by (intro coord_inv_quiet [OF inv]) (simp_all add: ic_RefreshWorkerStatus_def map_sched_def RefreshWorkerStatus_quiet)
next
  case backup_sent
  then have "Scheduler c' = Scheduler c \<and> ModelStore c' = ModelStore c \<and> TaskQueue c' = TaskQueue c"
    by (auto simp: BackupCoordinatorData_def CreateCoordinatorClient_def Let_def split: prod.splits list.splits option.splits if_splits)
  with inv show ?thesis by (simp add: coord_inv_def)
next
  case flush
  with FlushPendingJobs_inv [OF inv] show ?thesis by blast
next
  case reschedule
  then show ?thesis
    by (intro coord_inv_quiet [OF inv])
      (auto simp: Reschedule_start_def Let_def SetSchedulingStatus_def split: sum.splits intro: RefreshSchedule_quiet)
next
  case reschedule_done
  with inv show ?thesis by (simp add: coord_inv_def Reschedule_end_def SetSchedulingStatus_def)
next
  case reply
  then show ?thesis by (intro coord_inv_quiet [OF inv]) (simp_all add: Reschedule_reply_def map_sched_def)
next
  case process
  with ProcessQueuedJob_inv [OF inv] show ?thesis by blast
next
  case member
  with OnMemberUpdate_inv [OF inv] show ?thesis by blast
next
  case train
  with inv show ?thesis
    by (auto simp: Train_def Let_def OnBecomeCoordinator_def coord_inv_def AddModel_def split: option.splits if_splits bool.splits)
next
  case inference
  with inv show ?thesis by (auto simp: Inference_def Let_def OnBecomeCoordinator_def coord_inv_def Queue_Push_def split: if_splits)
next
  case report
  with IDunnoStatus_state [OF report, of eval] coord_inv_quiet [OF inv] show ?thesis by blast
qed

lemma coord_reachable_inv: "coord_reachable eval c \<Longrightarrow> coord_inv eval c"
proof (induction rule: coord_reachable.induct)
  case start
  then show ?case
    by (simp add: coord_inv_def NewIDunnoCoordinator_def NewIDunnoScheduler_def jobs_inv_def rm_inv_def NewQueue_def NewModelStore_def)
next
  case (step c c')
  from step(2,3) show ?case by (rule coord_step_inv)
next
  case (query c out jobId t1 t2 t3 p qreply c')
  then show ?case using QueryData_inv by blast
next
  case (backup c c' c2)
  then show ?case using Backup_inv by blast
qed

lemma FlushPendingJobs_stored:
  assumes "FlushPendingJobs F fmt clk now written put c = Inr (Some (jid, content), c')"
  obtains jr q where "PendingJobs (Scheduler c) = jr # q" and "jid = job_Id (job_at (Scheduler c) jr)"
    and "content = result_file fmt (fst (GetResults F (job_at (Scheduler c) jr)))"
    and "Scheduler c' = finish_job now jr (collect_results F clk jr (Scheduler c))"
  using assms by (cases "PendingJobs (Scheduler c)") (auto simp: FlushPendingJobs_eq Let_def split: if_splits)

lemma stored_file_complete:
  assumes reach: "coord_reachable eval c" and run: "FlushPendingJobs F fmt clk now written put c = Inr (Some (jid, content), c')"
  obtains jr rss metric where "content = result_file fmt (map short_input (concat rss), metric)" and "length rss = length (ev_Batches eval jid)"
    and "\<And>i. i < length rss \<Longrightarrow> ev_Answer eval jid (int i) (rss ! i)"
    and "map_of (CompletedJobs (Scheduler c')) jid = Some jr" and "TotalQueries (job_at (Scheduler c') jr) = int (length rss)"
    and "GetJob jid (Scheduler c') = None"
proof -
  let ?s = "Scheduler c"
  have inv: "jobs_inv eval ?s" using coord_reachable_inv [OF reach] by (simp add: coord_inv_def)
  obtain jr q where p: "PendingJobs ?s = jr # q" and jid: "jid = job_Id (job_at ?s jr)"
    and content: "content = result_file fmt (fst (GetResults F (job_at ?s jr)))"
    and c': "Scheduler c' = finish_job now jr (collect_results F clk jr ?s)"
    using FlushPendingJobs_stored [OF run] by metis
  note h = pending_head [OF inv p]
  have keep: "job_Id (snd (GetResults F j)) = job_Id j" "TotalQueries (snd (GetResults F j)) = TotalQueries j" for j :: "'a job"
    by (simp_all add: GetResults_def Let_def)
  have at: "job_Id (job_at (collect_results F clk jr ?s) jr) = jid" by (simp add: collect_results_maps keep jid)
  obtain rss where rss: "fst (fst (GetResults F (job_at ?s jr))) = map short_input (concat rss)" "length rss = length (BatchStates (job_at ?s jr))"
      "\<And>i. i < length rss \<Longrightarrow> ev_Answer eval (job_Id (job_at ?s jr)) (int i) (rss ! i)"
    using GetResults_all [OF h(2,3), of F] by blast
  show ?thesis
  proof (rule that)
    show "content = result_file fmt (map short_input (concat rss), snd (fst (GetResults F (job_at ?s jr))))"
      using rss(1) unfolding content by (metis prod.collapse)
    show "length rss = length (ev_Batches eval jid)" using h(2) jid rss(2) by (simp add: job_ok_def)
    show "ev_Answer eval jid (int i) (rss ! i)" if "i < length rss" for i using rss(3) [OF that] jid by simp
    show "map_of (CompletedJobs (Scheduler c')) jid = Some jr" by (simp add: c' finish_job_def put_job_def at)
    show "TotalQueries (job_at (Scheduler c') jr) = int (length rss)"
      using h(2) by (simp add: c' finish_job_def put_job_def collect_results_maps keep job_ok_def rss(2))
    show "GetJob jid (Scheduler c') = None" by (simp add: c' finish_job_def put_job_def GetJob_def collect_results_maps jid)
  qed
qed

text \<open>C13. A result file is complete: in every state a coordinator can reach (through any interleaving of requests,
  periodic tasks, worker failures and takeovers from a backup, when the outputs that workers submit are
  answers to the batches they carry the id of), the file that \<open>FlushPendingJobs\<close> stores for a job lists, batch
  by batch and in order, an answer to every batch of the job's data set and nothing else; the job is then
  completed and no longer active.\<close>

theorem result_file_is_complete:
  assumes reach: "coord_reachable eval c" and run: "FlushPendingJobs F fmt clk now written put c = Inr (Some (jid, content), c')"
  shows "\<exists>jr rss metric. map_of (CompletedJobs (Scheduler c')) jid = Some jr
    \<and> content = result_file fmt (map short_input (concat rss), metric) \<and> length rss = length (ev_Batches eval jid)
    \<and> list_all (\<lambda>i. ev_Answer eval jid (int i) (rss ! i)) [0..<length rss]
    \<and> TotalQueries (job_at (Scheduler c') jr) = int (length rss) \<and> GetJob jid (Scheduler c') = None"
  by (rule stored_file_complete [OF assms]) (auto simp: list_all_iff)

text \<open>A run with one batch: train, request, split, a worker joins and submits the output of the batch.\<close>

abbreviation lone_line :: string where "lone_line \<equiv> ''u;v.JPEG''"

definition lone_batch :: "string \<Rightarrow> rat option batch_output" where
  "lone_batch x = \<lparr>bo_BatchId = 0, Results = [EvalResult x ''joy''], Metric = Some 1\<rparr>"

definition lone_job :: "string \<Rightarrow> rat option job" where
  "lone_job ds = queued_job Albert 1 ds [lone_line] 0 0"

lemma lone_job_id: "job_Id (lone_job ds) = ''albert:1:0''"
  by (simp add: lone_job_def CreateId_def Albert_def show_int_def show_nat.simps NANOS_def)

lemma lone_job_batches: "BatchStates (lone_job ds) = [new_batch 0 [lone_line]]"
  by (simp add: lone_job_def cut_batches_def chunks.simps)

definition lone_eval :: "string \<Rightarrow> evaluation" where
  "lone_eval ds = \<lparr>ev_Model = \<lambda>_. Albert, ev_Dataset = \<lambda>_. ds, ev_Batches = \<lambda>_. [[lone_line]],
     ev_Answer = \<lambda>_ _ rs. rs = [EvalResult lone_line ''joy'']\<rparr>"

definition lone_start :: "'f coordinator" where
  "lone_start = NewIDunnoCoordinator (NewRingServer ''a'' 5000) (\<lambda>_. example_job)
     (\<lambda>_. \<lparr>w_JobId = '''', CurrBatchInput = None, LastQueryTime = 0, w_Process = example_worker ''a''\<rparr>)"

definition lone_coordinator :: "string \<Rightarrow> rat option coordinator" where
  "lone_coordinator ds = map_sched (OnWorkerJoined 0 (example_worker ''a''))
     (map_sched (\<lambda>s. case new_job (lone_job ds) s of (r, s1) \<Rightarrow> AddJob r s1) (lone_start\<lparr>IsCoordinator := True, ModelStore := [(Albert, ds)]\<rparr>))"

lemma lone_steps:
  assumes plan: "planned eval Albert 1 ds [lone_line] 0"
  obtains c1 c2 c3 :: "rat option coordinator" where "coord_step eval lone_start c1" and "coord_step eval c1 c2"
    and "coord_step eval c2 c3" and "coord_step eval c3 (lone_coordinator ds)"
proof -
  let ?c1 = "lone_start\<lparr>IsCoordinator := True, ModelStore := [(Albert, ds)]\<rparr> :: rat option coordinator"
  let ?c2 = "?c1\<lparr>TaskQueue := [InferenceTask Albert 1]\<rparr>"
  let ?c3 = "map_sched (\<lambda>s. case new_job (lone_job ds) s of (r, s1) \<Rightarrow> AddJob r s1) ?c1"
  have train: "Train [] Albert ds lone_start = Some (True, ?c1)"
    by (simp add: lone_start_def Train_def OnBecomeCoordinator_def NewIDunnoCoordinator_def NewIDunnoScheduler_def IsServing_def GetMembershipList_def
        NewRingServer_def members_def AddModel_def NewModelStore_def Let_def del: map_deref)
  have request: "Inference (InferenceTask Albert 1) ?c1 = (Some OK, ?c2)"
    by (simp add: lone_start_def Inference_def OnBecomeCoordinator_def ms_Contains_def NewIDunnoCoordinator_def Queue_Push_def NewQueue_def Let_def)
  have split: "ProcessQueuedJob (Fetched lone_line) 0 0 ?c2 = Some (Inr ?c3)"
    using ProcessQueuedJob_eq [of ?c2 Albert 1 "[]" "lone_line" 0 0]
    by (simp add: lone_start_def NewIDunnoCoordinator_def lone_job_def GetDataset_def NewQueue_def map_sched_def)
  have ex: "expected eval (Fetched lone_line) 0 ?c2" using plan by (simp add: expected_def GetDataset_def)
  have join: "ic_OnMemberUpdate 0 MEMBER_INSERT (example_worker ''a'') ?c3 = Inr (lone_coordinator ds)"
    by (simp add: ic_OnMemberUpdate_def lone_coordinator_def)
  show ?thesis
    by (rule that [OF coord_step.train [OF train] coord_step.inference [OF _ request] coord_step.process [OF ex split] coord_step.member [OF join]]) simp
qed

lemma lone_planned: "planned (lone_eval ds) Albert 1 ds [lone_line] 0"
  by (simp add: planned_def lone_eval_def chunks.simps Let_def)

lemma lone_reachable: "coord_reachable (lone_eval ds) (lone_coordinator ds)"
proof -
  obtain c1 c2 c3 :: "rat option coordinator" where s: "coord_step (lone_eval ds) lone_start c1" "coord_step (lone_eval ds) c1 c2" "coord_step (lone_eval ds) c2 c3"
      "coord_step (lone_eval ds) c3 (lone_coordinator ds)" by (rule lone_steps [OF lone_planned])
  have "coord_reachable (lone_eval ds) (lone_start :: rat option coordinator)" unfolding lone_start_def by (rule coord_reachable.start)
  note coord_reachable.step [OF coord_reachable.step [OF coord_reachable.step [OF coord_reachable.step [OF this s(1)] s(2)] s(3)] s(4)]
  then show ?thesis .
qed

lemma lone_coordinator_maps:
  "ActiveJobs (Scheduler (lone_coordinator ds)) = [(''albert:1:0'', 0)]"
  "ResourceManager (Scheduler (lone_coordinator ds)) = [(Address (example_worker ''a''), 0)]" "PendingJobs (Scheduler (lone_coordinator ds)) = []"
  "job_at (Scheduler (lone_coordinator ds)) 0 = lone_job ds" "w_JobId (worker_at (Scheduler (lone_coordinator ds)) 0) = ''''" "IsCoordinator (lone_coordinator ds)"
  "CurrBatchInput (worker_at (Scheduler (lone_coordinator ds)) 0) = None"
  by (simp_all add: lone_coordinator_def lone_start_def map_sched_def new_job_def AddJob_def put_job_def put_worker_def OnWorkerJoined_def AddWorker_def Let_def
      NewIDunnoCoordinator_def NewIDunnoScheduler_def NewQueue_def lone_job_id EMPTY_STRING_def)

lemma lone_job_done:
  "\<not> CompletedQueries (record_output t (lone_batch x) (lone_job ds)) < TotalQueries (record_output t (lone_batch x) (lone_job ds))"
  by (simp add: record_output_def Let_def modify_batch_def GetCompletedBatchCount_def lone_job_batches lone_batch_def to_int32_id)
    (simp add: lone_job_def queued_job_def chunks.simps)

lemma pending_run:
  "\<exists>c :: rat option coordinator. coord_reachable (lone_eval ds) c
    \<and> (\<exists>jr. PendingJobs (Scheduler c) = [jr] \<and> job_Id (job_at (Scheduler c) jr) = ''albert:1:0'')"
proof -
  let ?j = "record_output 1 (lone_batch lone_line) (lone_job ds)"
  note r = lone_reachable [of ds]
  obtain c5 where "QueryData 1 1 1 ''albert:1:0'' (example_worker ''a'') (Some (lone_batch lone_line)) (lone_coordinator ds) = Inr (QueryError, c5)"
      "PendingJobs (Scheduler c5) = [0]" "job_at (Scheduler c5) 0 = ?j"
    using lone_job_done [where t = 1]
    by (simp add: QueryData_def Let_def OnBecomeCoordinator_def lone_coordinator_maps GetWorker_def GetJob_def OnReceiveBatchOutput_eq lone_batch_def lone_job_batches
        put_worker_def put_job_def)
  moreover have "computed (lone_eval ds) ''albert:1:0'' (lone_batch lone_line)" by (simp add: computed_def lone_batch_def lone_eval_def)
  moreover have "job_Id ?j = ''albert:1:0''" by (simp add: record_output_def Let_def lone_job_id)
  ultimately show ?thesis using coord_reachable.query [OF r, of "Some (lone_batch lone_line)" "''albert:1:0''" 1 1 1 "example_worker ''a''"] by auto
qed

theorem result_file_is_complete_witness:
  "\<exists>c c' :: rat option coordinator. \<exists>content jr. FlushPendingJobs exact_float (\<lambda>_. ''1.000000'') (\<lambda>_. 9) 9 True True c = Inr (Some (''albert:1:0'', content), c')
    \<and> map_of (CompletedJobs (Scheduler c')) ''albert:1:0'' = Some jr"
proof -
  obtain c :: "rat option coordinator" and jr where c: "coord_reachable (lone_eval Emotion) c"
    "PendingJobs (Scheduler c) = [jr]" "job_Id (job_at (Scheduler c) jr) = ''albert:1:0''" using pending_run by blast
  obtain content c' where f: "FlushPendingJobs exact_float (\<lambda>_. ''1.000000'') (\<lambda>_. 9) 9 True True c = Inr (Some (''albert:1:0'', content), c')"
    using c(2,3) by (simp add: FlushPendingJobs_eq Let_def)
  from result_file_is_complete [OF c(1) f] f show ?thesis by blast
qed

theorem backup_restores_jobs_witness:
  "\<exists>c2 :: rat option coordinator. Backup (Some (backup_of (example_coordinator 1))) (example_coordinator 2) = Inr c2
    \<and> ModelStore c2 = [(Albert, Emotion)] \<and> TaskQueue c2 = [InferenceTask Albert 2]"
proof -
  have "coord_inv example_eval (example_coordinator 1 :: rat option coordinator)"
    by (simp add: coord_inv_def example_coordinator_def NewIDunnoCoordinator_def NewIDunnoScheduler_def jobs_inv_def rm_inv_def NewQueue_def)
  from backup_restores_jobs [OF this, of "example_coordinator 2"] show ?thesis by (auto simp: example_coordinator_def)
qed

end
