(* ===== verification/Client_Fs.thy ===== *)
theory Client_Fs
  imports Sdfs_Client
begin

text \<open>
  \<open>sdfs/client_fs.go\<close> and the directory commands of \<open>sdfs/client_cli.go\<close>: the client's own files, kept as a map
  from paths to contents, and the commands that read or write them. Outcomes of operating system calls and
  of the tasks are arguments; a command whose tasks never come to an end is \<open>None\<close>.
\<close>

section \<open>Local files\<close>

type_synonym local_files = "string \<rightharpoonup> bytes"

definition GetLocalFilePath :: "string \<Rightarrow> ring_server \<Rightarrow> string" where
  "GetLocalFilePath localFile ring = ''../data/'' @ Address (rs_Process ring) @ ''/'' @ localFile"

definition GetFileSize :: "string \<Rightarrow> ring_server \<Rightarrow> local_files \<Rightarrow> nat option" where
  "GetFileSize localFile ring fs = map_option length (fs (GetLocalFilePath localFile ring))"

text \<open>One \<open>Read\<close> of as many bytes as \<open>Stat\<close> reported; \<open>io\<close> says whether opening and reading succeed.\<close>

definition ReadLocalFile :: "bool \<Rightarrow> string \<Rightarrow> ring_server \<Rightarrow> local_files \<Rightarrow> bytes option" where
  "ReadLocalFile io localFile ring fs =
     (case GetFileSize localFile ring fs of
        None \<Rightarrow> None
      | Some n \<Rightarrow> if \<not> io then None else map_option (take n) (fs (GetLocalFilePath localFile ring)))"

text \<open>The result says whether the write succeeded; the file is truncated before it is written.\<close>

definition WriteLocalFile :: "write_io \<Rightarrow> string \<Rightarrow> bytes \<Rightarrow> ring_server \<Rightarrow> local_files \<Rightarrow> bool \<times> local_files" where
  "WriteLocalFile io localFile data ring fs =
     (case io of
        CreateFails \<Rightarrow> (False, fs)
      | WriteFails p \<Rightarrow> (False, fs(GetLocalFilePath localFile ring \<mapsto> p))
      | WriteDone \<Rightarrow> (True, fs(GetLocalFilePath localFile ring \<mapsto> data)))"

definition DeleteLocalFile :: "bool \<Rightarrow> string \<Rightarrow> ring_server \<Rightarrow> local_files \<Rightarrow> bool \<times> local_files" where
  "DeleteLocalFile io localFile ring fs =
     (if io \<and> fs (GetLocalFilePath localFile ring) \<noteq> None then (True, fs(GetLocalFilePath localFile ring := None)) else (False, fs))"

text \<open>The files directly in the client's directory are removed, those in its subdirectories stay.\<close>

definition ClearFiles :: "bool \<Rightarrow> ring_server \<Rightarrow> local_files \<Rightarrow> local_files" where
  "ClearFiles io ring fs =
     (if \<not> io then fs
      else (\<lambda>p. let dir = GetLocalFilePath '''' ring in
        if take (length dir) p = dir \<and> CHR ''/'' \<notin> set (drop (length dir) p) then None else fs p))"

lemma GetLocalFilePath_inj [simp]: "GetLocalFilePath f ring = GetLocalFilePath g ring \<longleftrightarrow> f = g"
  by (simp add: GetLocalFilePath_def)

lemma read_after_write:
  "WriteLocalFile WriteDone f data ring fs = (ok, fs') \<Longrightarrow> ok \<and> ReadLocalFile True g ring fs' = (if g = f then Some data else ReadLocalFile True g ring fs)"
  by (auto simp: WriteLocalFile_def ReadLocalFile_def GetFileSize_def split: option.splits if_splits)

lemma read_after_delete:
  "DeleteLocalFile io f ring fs = (True, fs') \<Longrightarrow> ReadLocalFile io' f ring fs' = None"
  by (auto simp: DeleteLocalFile_def ReadLocalFile_def GetFileSize_def split: if_splits)

lemma read_after_clear: "CHR ''/'' \<notin> set f \<Longrightarrow> ReadLocalFile io f ring (ClearFiles True ring fs) = None"
  by (simp add: ClearFiles_def ReadLocalFile_def GetFileSize_def GetLocalFilePath_def Let_def)

section \<open>Commands\<close>

text \<open>\<open>GetVersions\<close>: the local file is created first.\<close>

definition GetVersions_cmd :: "bool \<Rightarrow> string \<Rightarrow> string \<Rightarrow> int \<Rightarrow> exec_outcome list \<Rightarrow> ring_server \<Rightarrow> local_files
    \<Rightarrow> (cli_result \<times> local_files) option" where
  "GetVersions_cmd created localFile sdfsFile versions outcomes ring fs =
     (if \<not> created then Some (CliError ''error creating file'', fs)
      else case GetVersions_loop (GetVersions_tasks localFile sdfsFile versions) outcomes [] of
        None \<Rightarrow> None
      | Some (r, content) \<Rightarrow> Some (r, fs(GetLocalFilePath localFile ring \<mapsto> content)))"

text \<open>\<open>names\<close> is what the directory holds, if it can be read; the listing is put after the files.\<close>

definition PutDir :: "string list option \<Rightarrow> string \<Rightarrow> (bool \<times> exec_outcome) list \<Rightarrow> exec_outcome list \<Rightarrow> cli_result option" where
  "PutDir names sdfsDir outcomes listing_outcomes =
     (case names of
        None \<Rightarrow> Some (CliError ''error reading directory'')
      | Some ns \<Rightarrow>
          (case PutDir_loop (PutDir_files sdfsDir ns) outcomes of
             None \<Rightarrow> None
           | Some (CliError e) \<Rightarrow> Some (CliError e)
           | Some CliOK \<Rightarrow> Delete_cmd listing_outcomes))"

text \<open>\<open>ValidateDir\<close> and \<open>DeleteDir\<close> fetch the listing into a temporary file, read it and delete it at the end.\<close>

definition with_listing :: "(cli_result \<times> bytes option) option \<Rightarrow> string \<Rightarrow> ring_server \<Rightarrow> (bytes \<Rightarrow> cli_result option) \<Rightarrow> local_files
    \<Rightarrow> (cli_result \<times> local_files) option" where
  "with_listing fetched localFile ring body fs =
     (case fetched of
        None \<Rightarrow> None
      | Some (CliError e, _) \<Rightarrow> Some (CliError e, fs)
      | Some (CliOK, data) \<Rightarrow>
          let fs1 = (case data of None \<Rightarrow> fs | Some d \<Rightarrow> fs(GetLocalFilePath localFile ring \<mapsto> d)); cleaned = fs1(GetLocalFilePath localFile ring := None) in
          case fs1 (GetLocalFilePath localFile ring) of
            None \<Rightarrow> Some (CliError ''error reading directory file'', cleaned)
          | Some dirFile \<Rightarrow> map_option (\<lambda>r. (r, cleaned)) (body dirFile))"

definition ValidateDir :: "(cli_result \<times> bytes option) option \<Rightarrow> string \<Rightarrow> exec_outcome list \<Rightarrow> ring_server \<Rightarrow> local_files
    \<Rightarrow> (cli_result \<times> local_files) option" where
  "ValidateDir fetched localFile outcomes ring fs =
     with_listing fetched localFile ring (\<lambda>dirFile. ValidateDir_loop (ValidateDir_tasks dirFile) outcomes) fs"

definition DeleteDir :: "(cli_result \<times> bytes option) option \<Rightarrow> string \<Rightarrow> string \<Rightarrow> exec_outcome list \<Rightarrow> ring_server \<Rightarrow> local_files
    \<Rightarrow> (cli_result \<times> local_files) option" where
  "DeleteDir fetched localFile sdfsDir outcomes ring fs =
     with_listing fetched localFile ring (\<lambda>dirFile. DeleteDir_loop (DeleteDir_tasks dirFile sdfsDir) outcomes) fs"

text \<open>The temporary file is gone when such a command returns, and no other file has changed.\<close>

lemma with_listing_cleans:
  assumes "with_listing fetched localFile ring body fs = Some (r, fs')" and "fs (GetLocalFilePath localFile ring) = None"
  shows "fs' = fs"
  using assms
  by (auto simp: with_listing_def Let_def fun_upd_idem split: option.splits prod.splits cli_result.splits)

end
