(* ===== verification/Worker.thy ===== *)
theory Worker
  imports Coordinator Client_Fs
begin

text \<open>
  \<open>idunno/worker.go\<close> and \<open>idunno/worker_service.go\<close>: the worker process asks the coordinator for batches of
  its job and has the model runner (a Python service, reached by gRPC) evaluate them. \<open>QueryData\<close> holds the
  worker's lock from the request to the end, and so does \<open>Inference\<close>; \<open>FinishInference\<close> takes no lock. It is
  modelled as two steps, the request and what follows the reply, because \<open>FinishInference\<close> may run between
  them. Outcomes of network calls are arguments. The ring is held by value; a lookup of the leader sorts it.
\<close>

section \<open>State\<close>

definition RUNNER_PORT_OFFSET :: int where "RUNNER_PORT_OFFSET = 1000"
definition RESTART_QUERY_INTERVAL :: time where "RESTART_QUERY_INTERVAL = 1000 * 1000000"
definition QUERY_INTERVAL :: time where "QUERY_INTERVAL = 800 * 1000000"

record 'f idunno_worker =
  ModelRunner :: process
  iw_JobId :: string
  iw_BatchOutput :: "'f batch_output option"
  iw_Ring :: ring_server

text \<open>\<open>started\<close> says whether the runner process could be started; otherwise the constructor panics. The
  protocol fields that the Go literal leaves out have their zero values.\<close>

definition NewIDunnoWorker :: "bool \<Rightarrow> string \<Rightarrow> int \<Rightarrow> ring_server \<Rightarrow> 'f idunno_worker run" where
  "NewIDunnoWorker started hostname port0 ring =
     (if \<not> started then Inl (ExplicitPanic ''Failed to start inference service'')
      else Inr \<lparr>ModelRunner = \<lparr>ip = hostname, port = to_int32 (port0 + RUNNER_PORT_OFFSET), joinTime = 0, lastUpdateTime = 0, status = Alive\<rparr>,
        iw_JobId = EMPTY_STRING, iw_BatchOutput = None, iw_Ring = ring\<rparr>)"

text \<open>The address a client is connected to, or none.\<close>

definition CreateInferenceClient :: "bool \<Rightarrow> 'f idunno_worker \<Rightarrow> string option" where
  "CreateInferenceClient dial w = (if dial then Some (Address (ModelRunner w)) else None)"

definition iw_CreateCoordinatorClient :: "string option \<Rightarrow> bool \<Rightarrow> 'f idunno_worker \<Rightarrow> string option \<times> 'f idunno_worker" where
  "iw_CreateCoordinatorClient dns dial w =
     (case LookupLeader dns (iw_Ring w) of
        (leaderAddr, ring) \<Rightarrow> (if dial then leaderAddr else None, w\<lparr>iw_Ring := ring\<rparr>))"

section \<open>QueryData\<close>

datatype 'f worker_call = CallFailed | CallNothing | CallQueryData string string process "'f batch_output option"

text \<open>Up to the request: the coordinator's address, the job id, the worker itself and its last output.\<close>

definition QueryData_ask :: "string option \<Rightarrow> bool \<Rightarrow> bool \<Rightarrow> 'f idunno_worker \<Rightarrow> 'f worker_call \<times> 'f idunno_worker" where
  "QueryData_ask dns dialCoord dialRunner w =
     (case iw_CreateCoordinatorClient dns dialCoord w of (coord, w1) \<Rightarrow>
        case coord of
          None \<Rightarrow> (CallFailed, w1)
        | Some addr \<Rightarrow>
            if CreateInferenceClient dialRunner w1 = None then (CallFailed, w1)
            else if iw_JobId w1 = EMPTY_STRING then (CallNothing, w1)
            else (CallQueryData addr (iw_JobId w1) (rs_Process (iw_Ring w1)) (iw_BatchOutput w1), w1))"

text \<open>The inputs handed to the runner. For file names these are the local paths of the files in \<open>fetched\<close>: the
  fetches run concurrently and append to one slice without a lock, so they come in any order and an append can
  be lost; a failed fetch leaves its file out.\<close>

definition model_inputs :: "bool \<Rightarrow> string list \<Rightarrow> string list \<Rightarrow> 'f idunno_worker \<Rightarrow> string list" where
  "model_inputs isFilename inputs fetched w =
     (if isFilename then map (\<lambda>f. GetLocalFilePath f (iw_Ring w)) fetched else inputs)"

datatype 'f evaluate_reply = EvaluateError | EvaluateReply response_status "eval_result list" 'f

text \<open>From the reply to the end; the result says whether an error is returned. \<open>QueryError\<close> also stands for a
  missed deadline. An empty list of inputs is nil on the wire: the output is then empty, without an
  evaluation.\<close>

definition QueryData_answer :: "'f float64 \<Rightarrow> query_reply \<Rightarrow> string list \<Rightarrow> (string list \<Rightarrow> 'f evaluate_reply)
    \<Rightarrow> 'f idunno_worker \<Rightarrow> bool \<times> 'f idunno_worker" where
  "QueryData_answer F reply fetched evaluate w =
     (case reply of
        QueryError \<Rightarrow> (True, w)
      | QueryReply None _ \<Rightarrow> (False, w)
      | QueryReply (Some batchInput) isFilename \<Rightarrow>
          if Inputs batchInput = [] then
            (False, w\<lparr>iw_BatchOutput := Some \<lparr>bo_BatchId = BatchId batchInput, Results = [], Metric = f_of_int F 0\<rparr>\<rparr>)
          else
            (case evaluate (model_inputs isFilename (Inputs batchInput) fetched w) of
               EvaluateError \<Rightarrow> (True, w)
             | EvaluateReply st results metric \<Rightarrow>
                 if st \<noteq> OK then (True, w)
                 else (False, w\<lparr>iw_BatchOutput := Some \<lparr>bo_BatchId = BatchId batchInput, Results = results, Metric = metric\<rparr>\<rparr>)))"

text \<open>How long \<open>QueryDataCycle\<close> sleeps after a round.\<close>

definition QueryDataCycle_sleep :: "bool \<Rightarrow> time" where
  "QueryDataCycle_sleep err = QUERY_INTERVAL + (if err then RESTART_QUERY_INTERVAL else 0)"

section \<open>Handlers\<close>

text \<open>\<open>None\<close> is an error; the reply of the runner is passed on.\<close>

definition iw_Train :: "bool \<Rightarrow> response_status option \<Rightarrow> 'f idunno_worker \<Rightarrow> response_status option" where
  "iw_Train dial reply w =
     (if CreateInferenceClient dial w = None then None
      else case reply of
        None \<Rightarrow> None
      | Some st \<Rightarrow> if st = ERROR then None else Some st)"

definition iw_Inference :: "bool \<Rightarrow> response_status option \<Rightarrow> inference_task \<Rightarrow> string \<Rightarrow> 'f idunno_worker
    \<Rightarrow> response_status option \<times> 'f idunno_worker" where
  "iw_Inference dial serve task jobId w =
     (if CreateInferenceClient dial w = None then (None, w)
      else case serve of
        None \<Rightarrow> (None, w)
      | Some st \<Rightarrow>
          if st \<noteq> OK then (None, w)
          else (Some OK, w\<lparr>iw_JobId := jobId, iw_BatchOutput := None\<rparr>))"

definition FinishInference :: "'f idunno_worker \<Rightarrow> 'f idunno_worker" where
  "FinishInference w = w\<lparr>iw_BatchOutput := None, iw_JobId := EMPTY_STRING\<rparr>"

section \<open>What a round does\<close>

lemma LookupLeader_Process: "rs_Process (snd (LookupLeader dns s)) = rs_Process s"
  by (simp add: LookupLeader_def Let_def sort_members_def)

lemma QueryData_ask_call:
  assumes "QueryData_ask dns d1 d2 w = (CallQueryData addr jid p out, w')"
  shows "jid = iw_JobId w" and "out = iw_BatchOutput w" and "jid \<noteq> EMPTY_STRING" and "p = rs_Process (iw_Ring w)"
  using assms LookupLeader_Process [of dns "iw_Ring w"]
  by (auto simp: QueryData_ask_def iw_CreateCoordinatorClient_def split: prod.splits option.splits if_splits)

lemma QueryData_ask_keeps:
  assumes "QueryData_ask dns d1 d2 w = (call, w')"
  shows "iw_JobId w' = iw_JobId w" and "iw_BatchOutput w' = iw_BatchOutput w"
  using assms by (auto simp: QueryData_ask_def iw_CreateCoordinatorClient_def split: prod.splits option.splits if_splits)

lemma QueryData_answer_cases:
  assumes "QueryData_answer F reply fetched evaluate w = (err, w')"
  obtains "w' = w"
  | bi isF where "reply = QueryReply (Some bi) isF" "Inputs bi = []"
      "w' = w\<lparr>iw_BatchOutput := Some \<lparr>bo_BatchId = BatchId bi, Results = [], Metric = f_of_int F 0\<rparr>\<rparr>"
  | bi isF rs m where "reply = QueryReply (Some bi) isF" "Inputs bi \<noteq> []"
      "evaluate (model_inputs isF (Inputs bi) fetched w) = EvaluateReply OK rs m"
      "w' = w\<lparr>iw_BatchOutput := Some \<lparr>bo_BatchId = BatchId bi, Results = rs, Metric = m\<rparr>\<rparr>"
proof (cases reply)
  case QueryError
  then show ?thesis using assms that(1) by (simp add: QueryData_answer_def)
next
  case reply: (QueryReply b isF)
  show ?thesis
  proof (cases b)
    case None
    then show ?thesis using assms reply that(1) by (simp add: QueryData_answer_def)
  next
    case (Some bi)
    show ?thesis
    proof (cases "Inputs bi = []")
      case True
      then show ?thesis using assms reply Some that(2) [of bi isF] by (simp add: QueryData_answer_def)
    next
      case False
      note r = assms reply Some False
      show ?thesis
      proof (cases "evaluate (model_inputs isF (Inputs bi) fetched w)")
        case EvaluateError
        then show ?thesis using r that(1) by (simp add: QueryData_answer_def)
      next
        case (EvaluateReply st rs m)
        show ?thesis
        proof (cases "st = OK")
          case True
          have "reply = QueryReply (Some bi) isF" and e: "evaluate (model_inputs isF (Inputs bi) fetched w) = EvaluateReply OK rs m"
            using reply Some EvaluateReply True by simp_all
          moreover have "w' = w\<lparr>iw_BatchOutput := Some \<lparr>bo_BatchId = BatchId bi, Results = rs, Metric = m\<rparr>\<rparr>"
            using r(1) False unfolding QueryData_answer_def reply Some by (simp add: e)
          ultimately show ?thesis using False by (intro that(3))
        next
          case False
          then have "w' = w" using r(1,4) EvaluateReply unfolding QueryData_answer_def reply Some by simp
          then show ?thesis by (rule that(1))
        qed
      qed
    qed
  qed
qed

section \<open>Local copies\<close>

text \<open>What a round does to the client's directory: the files of the batch that arrived, in \<open>contents\<close>, are written
  (a get without a file writes nothing), and after the evaluation every file of the batch is removed, whether
  it was fetched or not; \<open>io\<close> says which removals the system carries out.\<close>

definition fetch_files :: "(string \<times> bytes) list \<Rightarrow> ring_server \<Rightarrow> local_files \<Rightarrow> local_files" where
  "fetch_files contents ring fs = fold (\<lambda>(f, data) fs. snd (WriteLocalFile WriteDone f data ring fs)) contents fs"

definition cleanup_files :: "(string \<Rightarrow> bool) \<Rightarrow> string list \<Rightarrow> ring_server \<Rightarrow> local_files \<Rightarrow> local_files" where
  "cleanup_files io inputs ring fs = fold (\<lambda>f fs. snd (DeleteLocalFile (io f) f ring fs)) inputs fs"

definition QueryData_files :: "query_reply \<Rightarrow> (string \<times> bytes) list \<Rightarrow> (string \<Rightarrow> bool) \<Rightarrow> ring_server \<Rightarrow> local_files \<Rightarrow> local_files" where
  "QueryData_files reply contents io ring fs =
     (case reply of
        QueryReply (Some batchInput) isFilename \<Rightarrow>
          if Inputs batchInput \<noteq> [] \<and> isFilename then cleanup_files io (Inputs batchInput) ring (fetch_files contents ring fs) else fs
      | _ \<Rightarrow> fs)"

lemma fetch_files_other: "p \<notin> (\<lambda>f. GetLocalFilePath f ring) ` fst ` set contents \<Longrightarrow> fetch_files contents ring fs p = fs p"
  unfolding fetch_files_def by (induction contents arbitrary: fs) (auto simp: WriteLocalFile_def)

lemma cleanup_files_other: "p \<notin> (\<lambda>f. GetLocalFilePath f ring) ` set inputs \<Longrightarrow> cleanup_files io inputs ring fs p = fs p"
  unfolding cleanup_files_def by (induction inputs arbitrary: fs) (auto simp: DeleteLocalFile_def)

lemma cleanup_files_stays: "fs p = None \<Longrightarrow> cleanup_files io inputs ring fs p = None"
  unfolding cleanup_files_def by (induction inputs arbitrary: fs) (simp_all add: DeleteLocalFile_def)

lemma cleanup_files_gone: "f \<in> set inputs \<Longrightarrow> cleanup_files (\<lambda>_. True) inputs ring fs (GetLocalFilePath f ring) = None"
proof (induction inputs arbitrary: fs)
  case (Cons g inputs)
  let ?fs = "snd (DeleteLocalFile True g ring fs)"
  have step: "cleanup_files (\<lambda>_. True) (g # inputs) ring fs = cleanup_files (\<lambda>_. True) inputs ring ?fs" by (simp add: cleanup_files_def)
  show ?case
  proof (cases "f = g")
    case True
    then have "?fs (GetLocalFilePath f ring) = None" by (simp add: DeleteLocalFile_def)
    then show ?thesis unfolding step by (rule cleanup_files_stays)
  qed (use Cons step in simp)
qed simp

text \<open>A round on file names removes the files of its batch from the client's directory, those that the user kept
  under the same names included, and touches no other file.\<close>

lemma QueryData_files_batch:
  assumes "Inputs bi \<noteq> []" and "fst ` set contents \<subseteq> set (Inputs bi)"
  shows "QueryData_files (QueryReply (Some bi) True) contents (\<lambda>_. True) ring fs p
    = (if p \<in> (\<lambda>f. GetLocalFilePath f ring) ` set (Inputs bi) then None else fs p)"
proof -
  have "p \<notin> (\<lambda>f. GetLocalFilePath f ring) ` fst ` set contents" if "p \<notin> (\<lambda>f. GetLocalFilePath f ring) ` set (Inputs bi)"
    using that assms(2) by blast
  then show ?thesis using assms(1) by (auto simp: QueryData_files_def cleanup_files_gone cleanup_files_other fetch_files_other)
qed

end
