(* ===== verification/Idunno_Client.thy ===== *)
theory Idunno_Client
  imports Coordinator Client_Fs
begin

text \<open>
  The inference commands (\<open>idunno/client.go\<close>, \<open>idunno/client_cli.go\<close>). What a command prints is not modelled.
  A request to the coordinator is an argument, a function on the coordinator's state, so that the handlers of
  \<open>Coordinator\<close> can be put in; \<open>leader\<close> and \<open>dial\<close> are the outcomes of the lookup and of the connection.
\<close>

datatype idunno_call =
    CallTrain string string
  | CallServe string int
  | CallStatus string string
  | CallSetLastSeconds bool
  | BadArguments
  | BadCommand

text \<open>\<open>CallSetLastSeconds True\<close> is the global setting (the largest float), \<open>False\<close> the local one (10 seconds).\<close>

definition ic_ExecuteCommand :: "string \<Rightarrow> idunno_call" where
  "ic_ExecuteCommand command =
     (let args = split_on (CHR '' '') command; n = length args; a = args ! 0 in
      if a = ''train'' then (if n \<noteq> 3 then BadArguments else CallTrain (args ! 1) (args ! 2))
      else if a = ''serve'' then
        (if n \<noteq> 3 then BadArguments
         else case Atoi (args ! 2) of None \<Rightarrow> BadArguments | Some size0 \<Rightarrow> CallServe (args ! 1) size0)
      else if a = ''idunno-worker'' \<or> a = ''iw'' \<or> a = ''w'' then (if n \<noteq> 1 then BadArguments else CallStatus ''w'' '''')
      else if a = ''idunno-jobs'' \<or> a = ''j'' then (if n \<noteq> 1 then BadArguments else CallStatus ''j'' '''')
      else if a = ''idunno-job'' \<or> a = ''ij'' then (if n \<noteq> 2 then BadArguments else CallStatus ''ij'' (args ! 1))
      else if a = ''idunno-completed-jobs'' \<or> a = ''cj'' then (if n \<noteq> 1 then BadArguments else CallStatus ''cj'' '''')
      else if a = ''idunno-job-stats'' \<or> a = ''ijs'' then (if n \<noteq> 2 then BadArguments else CallStatus ''ijs'' (args ! 1))
      else if a = ''qps'' then
        (if n \<noteq> 2 \<or> \<not> (args ! 1 = ''local'' \<or> args ! 1 = ''global'') then BadArguments else CallSetLastSeconds (args ! 1 \<noteq> ''local''))
      else BadCommand)"

text \<open>The call sets the variable of its own process over which query rates are measured; a coordinator on another
  machine reads its own.\<close>

definition SetLastSeconds :: "'f float64 \<Rightarrow> idunno_call \<Rightarrow> 'f \<Rightarrow> 'f" where
  "SetLastSeconds F call LAST_SECONDS =
     (case call of
        CallSetLastSeconds global \<Rightarrow> if global then f_MaxFloat64 F else f_of_int F 10
      | _ \<Rightarrow> LAST_SECONDS)"

lemma qps_local: "SetLastSeconds F (ic_ExecuteCommand ''qps local'') x = f_of_int F 10"
  "SetLastSeconds F (ic_ExecuteCommand ''qps global'') x = f_MaxFloat64 F" "SetLastSeconds F (ic_ExecuteCommand ''qps'') x = x"
  by (simp_all add: SetLastSeconds_def ic_ExecuteCommand_def Let_def)

text \<open>\<open>listed\<close> is the outcome of \<open>List\<close> on the data set. A request that is never answered is \<open>None\<close>.\<close>

definition TrainModel :: "cli_result \<Rightarrow> string option \<Rightarrow> bool \<Rightarrow> (string \<Rightarrow> string \<Rightarrow> 'c \<Rightarrow> (bool \<times> 'c) option) \<Rightarrow> string \<Rightarrow> string \<Rightarrow> 'c \<Rightarrow> (cli_result \<times> 'c) option" where
  "TrainModel listed leader dial train modelType dataset c =
     (if \<not> IsValidModelType modelType then Some (CliError ''invalid model type'', c)
      else if \<not> IsValidDatasetType dataset then Some (CliError ''invalid dataset type'', c)
      else case listed of
        CliError e \<Rightarrow> Some (CliError e, c)
      | CliOK \<Rightarrow>
          if leader = None then Some (CliError ''no coordinator'', c)
          else if \<not> dial then Some (CliError ''Failed to dial coordinator'', c)
          else map_option (\<lambda>(ok, c1). (if ok then CliOK else CliError ''Error sending train request'', c1)) (train modelType dataset c))"

definition ServeModel :: "string option \<Rightarrow> bool \<Rightarrow> (inference_task \<Rightarrow> 'c \<Rightarrow> response_status option \<times> 'c) \<Rightarrow> string \<Rightarrow> int \<Rightarrow> 'c \<Rightarrow> cli_result \<times> 'c" where
  "ServeModel leader dial infer modelType batchSize c =
     (if \<not> IsValidModelType modelType then (CliError ''invalid model type'', c)
      else if leader = None then (CliError ''no coordinator'', c)
      else if \<not> dial then (CliError ''Failed to dial coordinator'', c)
      else case infer (InferenceTask modelType (to_int32 batchSize)) c of
        (None, c1) \<Rightarrow> (CliError ''Error sending request'', c1)
      | (Some _, c1) \<Rightarrow> (CliOK, c1))"

text \<open>The message that is printed.\<close>

definition GetRealTimeStatus :: "string option \<Rightarrow> bool \<Rightarrow> (string \<Rightarrow> string \<Rightarrow> 'c \<Rightarrow> 'm option \<times> 'c) \<Rightarrow> string \<Rightarrow> string \<Rightarrow> 'c
    \<Rightarrow> (cli_result \<times> 'm option) \<times> 'c" where
  "GetRealTimeStatus leader dial ask which what c =
     (if leader = None then ((CliError ''no coordinator'', None), c)
      else if \<not> dial then ((CliError ''Failed to dial coordinator'', None), c)
      else case ask which what c of
        (None, c1) \<Rightarrow> ((CliError ''Unable to receive real-time update'', None), c1)
      | (Some m, c1) \<Rightarrow> ((CliOK, Some m), c1))"

lemma ServeModel_queued:
  assumes "IsValidModelType model" and "ms_Contains model (ModelStore c)"
  shows "ServeModel (Some addr) True Inference model n c
    = (CliOK, (OnBecomeCoordinator c)\<lparr>TaskQueue := Queue_Push (InferenceTask model (to_int32 n)) (TaskQueue c)\<rparr>)"
  using assms by (simp add: ServeModel_def Inference_def Let_def OnBecomeCoordinator_def)

text \<open>C35. A batch size is not checked between the command line and the loop that cuts the data set: the client converts
  it to 32 bits and reports success, the coordinator accepts the task, and when it comes to splitting the data
  set, a size of 0 (or a multiple of \<open>2^32\<close>) makes the loop run for ever, and a negative one panics; the
  coordinator is lost in both cases.\<close>

theorem bad_batch_size_kills_coordinator:
  assumes "IsValidModelType model" and "ms_Contains model (ModelStore c)" and "TaskQueue c = []" and "to_int32 n \<le> 0"
  shows "\<exists>c'. ServeModel (Some addr) True Inference model n c = (CliOK, c')
    \<and> ProcessQueuedJob (Fetched data) t1 t2 c' = (if to_int32 n = 0 then None else Some (Inl SliceBounds))"
proof -
  let ?c = "(OnBecomeCoordinator c)\<lparr>TaskQueue := Queue_Push (InferenceTask model (to_int32 n)) (TaskQueue c)\<rparr>"
  have "TaskQueue ?c = [InferenceTask model (to_int32 n)]" using assms(3) by (simp add: Queue_Push_def)
  with bad_batch_size [OF this assms(4), of data t1 t2] show ?thesis using ServeModel_queued [OF assms(1,2)] by blast
qed

theorem bad_batch_size_kills_coordinator_witness:
  "ic_ExecuteCommand ''serve albert 4294967296'' = CallServe Albert 4294967296
    \<and> (\<exists>c' :: rat option coordinator. ServeModel (Some ''x'') True Inference Albert 4294967296 (example_coordinator 2\<lparr>TaskQueue := []\<rparr>) = (CliOK, c')
         \<and> ProcessQueuedJob (Fetched ''u;v'') 0 0 c' = None)"
proof
  have zero: "to_int32 4294967296 = 0" by (simp add: to_int32_def)
  have "IsValidModelType Albert" by (simp add: IsValidModelType_def)
  moreover have "ms_Contains Albert (ModelStore (example_coordinator 2\<lparr>TaskQueue := []\<rparr>))" by (simp add: example_coordinator_def ms_Contains_def)
  ultimately show "\<exists>c' :: rat option coordinator. ServeModel (Some ''x'') True Inference Albert 4294967296 (example_coordinator 2\<lparr>TaskQueue := []\<rparr>) = (CliOK, c')
      \<and> ProcessQueuedJob (Fetched ''u;v'') 0 0 c' = None"
    using bad_batch_size_kills_coordinator [of Albert "example_coordinator 2\<lparr>TaskQueue := []\<rparr> :: rat option coordinator" 4294967296 "''x''" "''u;v''" 0 0]
    by (simp add: zero)
  show "ic_ExecuteCommand ''serve albert 4294967296'' = CallServe Albert 4294967296"
    by (simp add: ic_ExecuteCommand_def Atoi_def Albert_def is_digit_def digits_value_def Let_def)
qed

end
