(* ===== verification/Dns.thy ===== *)
theory Dns
  imports Ring
begin

text \<open>
  The DNS service (\<open>dns/server.go\<close>, \<open>dns/service.go\<close>, the terminal of \<open>dns/main.go\<close>): the address of the
  leader that the ring last reported, or the empty string. The log is not modelled here.
\<close>

record dns_server =
  DNSFile :: string

text \<open>The file name is not used.\<close>

definition NewDNSServer :: "string \<Rightarrow> dns_server" where
  "NewDNSServer filename = \<lparr>DNSFile = ''''\<rparr>"

definition dns_Clear :: "dns_server \<Rightarrow> dns_server" where
  "dns_Clear d = d\<lparr>DNSFile := ''''\<rparr>"

definition dns_Lookup :: "dns_server \<Rightarrow> string" where
  "dns_Lookup d = (if DNSFile d \<noteq> '''' then DNSFile d else '''')"

text \<open>The address of a missing process is a nil dereference.\<close>

definition dns_Update :: "process option \<Rightarrow> dns_server \<Rightarrow> (response_status \<times> dns_server) run" where
  "dns_Update leader d =
     (case leader of None \<Rightarrow> Inl NilDereference | Some p \<Rightarrow> Inr (OK, d\<lparr>DNSFile := Address p\<rparr>))"

text \<open>A line of the terminal, as \<open>ReadString\<close> returns it; the last character is cut off unseen, and at the end
  of the input there is none. What is printed, and the new state.\<close>

definition dns_terminal :: "string \<Rightarrow> dns_server \<Rightarrow> (string \<times> dns_server) run" where
  "dns_terminal line d =
     (case go_slice line 0 (int (length line) - 1) of
        Inl e \<Rightarrow> Inl e
      | Inr t \<Rightarrow>
          (case Fields t of
             [] \<Rightarrow> Inr (''Invalid command'', d)
           | arg # _ \<Rightarrow>
               if arg = ''clear'' then Inr ('''', dns_Clear d)
               else if arg = ''hostname'' then Inr (DNSFile d, d)
               else Inr (''Invalid command'', d)))"

lemma dns_terminal_eof: "dns_terminal '''' d = Inl SliceBounds"
  by (simp add: dns_terminal_def go_slice_def)

text \<open>Members of a ring and processes outside agree on the leader: after the leader has reported itself, a
  process with an empty list, which asks the service, finds the address that every process with the leader's
  list finds in its own.\<close>

lemma dns_agrees_with_ring:
  assumes "UpdateLeader s = (Some p, s')" and "dns_Update (Some p) d = Inr (st, d')" and "MembershipList t = []"
    and "members t' = members s" and "\<And>q. q \<in> set (members s) \<Longrightarrow> Address q = Address p \<longrightarrow> q = p"
  shows "LookupLeader (Some (dns_Lookup d')) t = (Some (Address p), t)"
  using assms by (auto simp: LookupLeader_def dns_Update_def dns_Lookup_def)

end
