(* ===== verification/Backend.thy ===== *)
theory Backend
  imports Dns
begin

text \<open>
  The HTTP server of the status pages (\<open>backend/server.go\<close>). A handler is the headers it sets, what it writes,
  and the panic it ends with, if any. The answers of the DNS service and of the coordinator are arguments:
  \<open>leader\<close> and \<open>ask which payload\<close> are \<open>None\<close> for an error.
\<close>

datatype http_event = SetHeader string string | WriteHeader int | Body string

definition StatusInternalServerError :: int where "StatusInternalServerError = 500"

text \<open>The address that \<open>LookupLeader\<close> returns: what the service answers, the empty string included.\<close>

definition backend_LookupLeader :: "bool \<Rightarrow> string option \<Rightarrow> string option" where
  "backend_LookupLeader dial answer = (if \<not> dial then None else answer)"

text \<open>After a failed connection or request the handler reports it and goes on: with a nil connection, or with
  the nil response of the generated stub.\<close>

definition RequestsHandler :: "string option \<Rightarrow> bool \<Rightarrow> (string \<Rightarrow> string \<Rightarrow> string option) \<Rightarrow> string \<Rightarrow> string \<Rightarrow> http_event list \<times> go_panic option" where
  "RequestsHandler leader dial ask which payload =
     (case leader of
        None \<Rightarrow> ([WriteHeader StatusInternalServerError, Body ''Failed to lookup leader''], None)
      | Some coordinatorAddr \<Rightarrow>
          if \<not> dial then ([WriteHeader StatusInternalServerError, Body ''Failed to connect to coordinator''], Some NilDereference)
          else
            (case ask which payload of
               None \<Rightarrow> ([WriteHeader StatusInternalServerError, Body ''Failed to get status from coordinator''], Some NilDereference)
             | Some msg \<Rightarrow>
                 ((if msg = '''' then [WriteHeader StatusInternalServerError, Body ''Failed to get status from coordinator''] else []) @ [Body msg], None)))"

definition cors_headers :: "http_event list" where
  "cors_headers =
     [SetHeader ''Access-Control-Allow-Headers'' ''Access-Control-Allow-Headers, Origin,Accept, X-Requested-With, Content-Type, Access-Control-Request-Method, Access-Control-Request-Headers'',
      SetHeader ''Access-Control-Allow-Origin'' ''*'', SetHeader ''Content-Type'' ''application/json'']"

definition with_headers :: "http_event list \<times> go_panic option \<Rightarrow> http_event list \<times> go_panic option" where
  "with_headers r = (cors_headers @ fst r, snd r)"

definition WorkerHandler :: "string option \<Rightarrow> bool \<Rightarrow> (string \<Rightarrow> string \<Rightarrow> string option) \<Rightarrow> http_event list \<times> go_panic option" where
  "WorkerHandler leader dial ask = with_headers (RequestsHandler leader dial ask ''jw'' '''')"

text \<open>A missing query parameter reads as the empty string.\<close>

definition JobsHandler :: "string option \<Rightarrow> bool \<Rightarrow> (string \<Rightarrow> string \<Rightarrow> string option) \<Rightarrow> (string \<times> string) list \<Rightarrow> http_event list \<times> go_panic option" where
  "JobsHandler leader dial ask query =
     (let jid = (case map_of query ''id'' of None \<Rightarrow> '''' | Some v \<Rightarrow> v) in
      with_headers (if jid = '''' then RequestsHandler leader dial ask ''jj'' jid else RequestsHandler leader dial ask ''jij'' jid))"

definition CompletedJobsHandler :: "string option \<Rightarrow> bool \<Rightarrow> (string \<Rightarrow> string \<Rightarrow> string option) \<Rightarrow> http_event list \<times> go_panic option" where
  "CompletedJobsHandler leader dial ask = with_headers (RequestsHandler leader dial ask ''jcj'' '''')"

text \<open>The routes of \<open>Serve\<close>; the library answers other paths.\<close>

definition Serve :: "string option \<Rightarrow> bool \<Rightarrow> (string \<Rightarrow> string \<Rightarrow> string option) \<Rightarrow> string \<Rightarrow> (string \<times> string) list
    \<Rightarrow> (http_event list \<times> go_panic option) option" where
  "Serve leader dial ask path query =
     (if path = ''/worker'' then Some (WorkerHandler leader dial ask)
      else if path = ''/jobs'' then Some (JobsHandler leader dial ask query)
      else if path = ''/completed-jobs'' then Some (CompletedJobsHandler leader dial ask)
      else None)"

text \<open>A handler panics exactly when the leader is known and cannot be asked.\<close>

lemma RequestsHandler_panics:
  "snd (RequestsHandler leader dial ask which payload) \<noteq> None \<longleftrightarrow> leader \<noteq> None \<and> (\<not> dial \<or> ask which payload = None)"
  by (auto simp: RequestsHandler_def split: option.splits)

end
