(* ===== verification/Logger.thy ===== *)
theory Logger
  imports Go_Float Utils
begin

text \<open>
  \<open>logger/logger.go\<close>: counters, the name of the log file, the ignored types, and the log file itself. The
  exported functions are one datatype of calls. \<open>now\<close> is the clock a call reads, in the local time zone, and
  \<open>io\<close> says whether the log file could be opened and written. A call that updates a counter before \<open>Init\<close>
  dereferences nil. The other components do not depend on the log, and their models leave it out.
\<close>

section \<open>State\<close>

record log_stats =
  ls_StartTime :: time
  BytesWritten :: int
  BytesRead :: int
  NumFailures :: int
  NumPings :: int

record logger =
  STAT :: "log_stats option"
  LOG_FILE :: string
  IGNORED_TYPES :: "string list"
  log_files :: "string \<rightharpoonup> string"

definition NewLogStats :: "time \<Rightarrow> log_stats" where
  "NewLogStats now = \<lparr>ls_StartTime = now, BytesWritten = 0, BytesRead = 0, NumFailures = 0, NumPings = 0\<rparr>"

definition initial_logger :: "(string \<rightharpoonup> string) \<Rightarrow> logger" where
  "initial_logger files = \<lparr>STAT = None, LOG_FILE = '''', IGNORED_TYPES = [], log_files = files\<rparr>"

text \<open>\<open>exDir\<close> is the directory of the executable, if the system tells it; \<open>created\<close> says whether the file could
  be created.\<close>

definition Init :: "string option \<Rightarrow> bool \<Rightarrow> time \<Rightarrow> string \<Rightarrow> string list \<Rightarrow> logger \<Rightarrow> logger run" where
  "Init exDir created now name ignoredTypes l =
     (case exDir of
        None \<Rightarrow> Inl (ExplicitPanic ''no executable'')
      | Some dir \<Rightarrow>
          let path = dir @ ''/'' @ name @ ''.log'' in
          if \<not> created then Inl (ExplicitPanic ''cannot create the log file'')
          else Inr (l\<lparr>LOG_FILE := path, log_files := (log_files l)(path \<mapsto> ''''), STAT := Some (NewLogStats now), IGNORED_TYPES := ignoredTypes\<rparr>))"

section \<open>Calls\<close>

datatype log_call =
    Log_Error string | Log_Info string | Log_StatServerError string | Log_StatServerInfo string
  | Log_Read int | Log_Write int
  | Log_Join process | Log_Ping process | Log_Leave process | Log_Update process | Log_Failure process | Log_Delete process
  | Log_Get string int | Log_Put string | Log_Remove string | Log_Lookup string | Log_Transfer int | Log_BulkRead string int
  | Log_Schedule string string | Log_NewJob string int int | Log_Query string

fun log_type :: "log_call \<Rightarrow> string" where
  "log_type (Log_Error m) = ''ERROR''"
| "log_type (Log_Info m) = ''INFO''"
| "log_type (Log_StatServerError m) = ''ERROR''"
| "log_type (Log_StatServerInfo m) = ''INFO''"
| "log_type (Log_Read n) = ''READ''"
| "log_type (Log_Write n) = ''WRITE''"
| "log_type (Log_Join p) = ''JOIN''"
| "log_type (Log_Ping p) = ''PING''"
| "log_type (Log_Leave p) = ''LEAVE''"
| "log_type (Log_Update p) = ''UPDATE''"
| "log_type (Log_Failure p) = ''FAILURE''"
| "log_type (Log_Delete p) = ''DELETE''"
| "log_type (Log_Get f v) = ''GET''"
| "log_type (Log_Put f) = ''PUT''"
| "log_type (Log_Remove f) = ''REMOVE''"
| "log_type (Log_Lookup f) = ''LOOKUP''"
| "log_type (Log_Transfer n) = ''TRANSFER''"
| "log_type (Log_BulkRead f n) = ''LOOKUP''"
| "log_type (Log_Schedule j w) = ''SCHEDULE''"
| "log_type (Log_NewJob j q b) = ''NEW_JOB''"
| "log_type (Log_Query m) = ''QUERY''"

fun status_String :: "status \<Rightarrow> string" where
  "status_String Alive = ''Alive''"
| "status_String Timeout = ''Timeout''"
| "status_String Leaved = ''Leaved''"

definition formatServiceMessage :: "process \<Rightarrow> string \<Rightarrow> string" where
  "formatServiceMessage p action =
     ''Process '' @ Address p @ '' '' @ action @ ''. Status: '' @ status_String (process.status p) @ '', LastUpdateTime: ''
     @ format_time (lastUpdateTime p) @ '', JoinTime: '' @ format_time (joinTime p)"

fun log_message :: "log_call \<Rightarrow> string" where
  "log_message (Log_Error m) = m"
| "log_message (Log_Info m) = m"
| "log_message (Log_StatServerError m) = ''IDunnoStatServer - '' @ m"
| "log_message (Log_StatServerInfo m) = ''IDunnoStatServer - '' @ m"
| "log_message (Log_Read n) = ''Read '' @ show_int n @ '' bytes from UDP''"
| "log_message (Log_Write n) = ''Write '' @ show_int n @ '' bytes to UDP''"
| "log_message (Log_Join p) = formatServiceMessage p ''joined''"
| "log_message (Log_Ping p) = formatServiceMessage p ''pinged''"
| "log_message (Log_Leave p) = formatServiceMessage p ''leaved''"
| "log_message (Log_Update p) = formatServiceMessage p ''updated''"
| "log_message (Log_Failure p) = formatServiceMessage p ''failed''"
| "log_message (Log_Delete p) = formatServiceMessage p ''deleted''"
| "log_message (Log_Get f v) = ''Reading file '' @ f @ '' with version '' @ show_int v @ ''...''"
| "log_message (Log_Put f) = ''Writing file '' @ f @ ''...''"
| "log_message (Log_Remove f) = ''Removing file '' @ f @ ''...''"
| "log_message (Log_Lookup f) = ''Lookup file '' @ f @ ''...''"
| "log_message (Log_Transfer n) = ''Transfer '' @ show_int n @ '' files...''"
| "log_message (Log_BulkRead f n) = ''Bulk read file '' @ f @ '' for version '' @ show_int n @ '' ...''"
| "log_message (Log_Schedule j w) = ''Job '' @ j @ '' is scheduled to worker '' @ w"
| "log_message (Log_NewJob j q b) = ''Created job '' @ j @ '' - total queries: '' @ show_int q @ '', batch input size: '' @ show_int b"
| "log_message (Log_Query m) = m"

text \<open>The counter a call updates; a Go \<open>int\<close> wraps around.\<close>

fun count_call :: "log_call \<Rightarrow> log_stats \<Rightarrow> log_stats" where
  "count_call (Log_Read n) st = st\<lparr>BytesRead := to_int64 (BytesRead st + n)\<rparr>"
| "count_call (Log_Write n) st = st\<lparr>BytesWritten := to_int64 (BytesWritten st + n)\<rparr>"
| "count_call (Log_Ping p) st = st\<lparr>NumPings := to_int64 (NumPings st + 1)\<rparr>"
| "count_call (Log_Failure p) st = st\<lparr>NumFailures := to_int64 (NumFailures st + 1)\<rparr>"
| "count_call _ st = st"

fun counts :: "log_call \<Rightarrow> bool" where
  "counts (Log_Read n) = True"
| "counts (Log_Write n) = True"
| "counts (Log_Ping p) = True"
| "counts (Log_Failure p) = True"
| "counts _ = False"

text \<open>The file is opened for appending and not created, so a line before \<open>Init\<close> is dropped.\<close>

definition appendLog :: "bool \<Rightarrow> time \<Rightarrow> string \<Rightarrow> string \<Rightarrow> logger \<Rightarrow> logger" where
  "appendLog io now logType message l =
     (if logType \<in> set (IGNORED_TYPES l) then l
      else case log_files l (LOG_FILE l) of
        None \<Rightarrow> l
      | Some old \<Rightarrow>
          if \<not> io then l
          else l\<lparr>log_files := (log_files l)(LOG_FILE l \<mapsto> old @ ''['' @ format_time now @ '']'' @ ''['' @ logType @ ''] '' @ message @ [CHR 0x0A])\<rparr>)"

definition do_log :: "bool \<Rightarrow> time \<Rightarrow> log_call \<Rightarrow> logger \<Rightarrow> logger run" where
  "do_log io now call l =
     (if counts call then
        (case STAT l of
           None \<Rightarrow> Inl NilDereference
         | Some st \<Rightarrow> Inr (appendLog io now (log_type call) (log_message call) (l\<lparr>STAT := Some (count_call call st)\<rparr>)))
      else Inr (appendLog io now (log_type call) (log_message call) l))"

text \<open>What \<open>Stats\<close> prints: elapsed time, the four counters, and bytes per second written and read.\<close>

definition Stats :: "'f float64 \<Rightarrow> time \<Rightarrow> logger \<Rightarrow> (int \<times> int \<times> int \<times> int \<times> int \<times> 'f \<times> 'f) run" where
  "Stats F now l =
     (case STAT l of
        None \<Rightarrow> Inl NilDereference
      | Some st \<Rightarrow>
          let elapsed = now - ls_StartTime st in
          Inr (elapsed, BytesWritten st, BytesRead st, NumFailures st, NumPings st,
            f_div F (f_of_int F (BytesWritten st)) (Seconds F elapsed), f_div F (f_of_int F (BytesRead st)) (Seconds F elapsed)))"

section \<open>Ignored types and counters\<close>

fun do_logs :: "(bool \<times> time \<times> log_call) list \<Rightarrow> logger \<Rightarrow> logger run" where
  "do_logs [] l = Inr l"
| "do_logs ((io, now, call) # cs) l = (case do_log io now call l of Inl e \<Rightarrow> Inl e | Inr l1 \<Rightarrow> do_logs cs l1)"

lemma appendLog_keeps [simp]:
  "STAT (appendLog io now ty m l) = STAT l" "IGNORED_TYPES (appendLog io now ty m l) = IGNORED_TYPES l" "LOG_FILE (appendLog io now ty m l) = LOG_FILE l"
  by (simp_all add: appendLog_def split: option.splits)

lemma appendLog_ignored: "ty \<in> set (IGNORED_TYPES l) \<Longrightarrow> appendLog io now ty m l = l"
  by (simp add: appendLog_def)

lemma not_counted: "\<not> counts call \<Longrightarrow> count_call call st = st"
  by (cases call) simp_all

lemma do_log_started:
  assumes "STAT l = Some st"
  shows "do_log io now call l = Inr (appendLog io now (log_type call) (log_message call) (l\<lparr>STAT := Some (count_call call st)\<rparr>))"
proof (cases "counts call")
  case True
  with assms show ?thesis by (simp add: do_log_def)
next
  case False
  then have "l\<lparr>STAT := Some (count_call call st)\<rparr> = l" using assms by (simp add: not_counted)
  with False show ?thesis by (simp only: do_log_def if_False)
qed

text \<open>After \<open>Init\<close> no call panics, and the counters depend neither on the log file nor on the ignored types.\<close>

lemma do_logs_counters:
  "STAT l = Some st \<Longrightarrow> \<exists>l'. do_logs cs l = Inr l' \<and> STAT l' = Some (fold (\<lambda>(_, _, call). count_call call) cs st) \<and> IGNORED_TYPES l' = IGNORED_TYPES l"
proof (induction cs arbitrary: l st)
  case Nil
  then show ?case by simp
next
  case (Cons c cs)
  obtain io now call where c: "c = (io, now, call)" by (cases c)
  show ?case
    using Cons.IH [of "appendLog io now (log_type call) (log_message call) (l\<lparr>STAT := Some (count_call call st)\<rparr>)" "count_call call st"]
    by (simp add: c do_log_started [OF Cons.prems])
qed

end
