(* ===== verification/Main_Program.thy ===== *)
theory Main_Program
  imports Worker Idunno_Client Backend Logger
begin

text \<open>
  \<open>idunno/main.go\<close>: how a machine is put together from the components, the callback that tells them about
  members, and the terminal. The periodic tasks and the handlers that \<open>main\<close> starts or registers are the steps
  of the component theories; \<open>Cluster\<close> composes them.
\<close>

section \<open>Start\<close>

record 'f program =
  pg_Ring :: ring_server
  pg_SDFS :: sdfs_server
  pg_Worker :: "'f idunno_worker"
  pg_Coordinator :: "'f coordinator"

text \<open>The directories that exist; \<open>mkdir\<close> says which ones can be created.\<close>

definition make_dir :: "(string \<Rightarrow> bool) \<Rightarrow> string \<Rightarrow> string set \<Rightarrow> string set run" where
  "make_dir mkdir d dirs =
     (if d \<in> dirs then Inr dirs
      else if mkdir d then Inr (insert d dirs) else Inl (ExplicitPanic ''Failed to create directory data''))"

definition InitDataFolder :: "(string \<Rightarrow> bool) \<Rightarrow> string \<Rightarrow> string set \<Rightarrow> string set run" where
  "InitDataFolder mkdir addr dirs =
     (case make_dir mkdir ''../data'' dirs of
        Inl e \<Rightarrow> Inl e
      | Inr dirs1 \<Rightarrow> make_dir mkdir (''../data/'' @ addr) dirs1)"

text \<open>\<open>main\<close> up to the point where everything runs: nothing is started when the UDP port is taken. \<open>cleared\<close> says
  whether the old SDFS files could be removed, \<open>runner\<close> whether the model runner could be started; \<open>jobs\<close> and
  \<open>workers\<close> are the contents of memory that is not allocated yet.\<close>

definition boot_program :: "bool \<Rightarrow> bool \<Rightarrow> (string \<Rightarrow> bool) \<Rightarrow> string set \<Rightarrow> bool \<Rightarrow> (nat \<Rightarrow> 'f job) \<Rightarrow> (nat \<Rightarrow> worker) \<Rightarrow> string \<Rightarrow> int
    \<Rightarrow> 'f program option run" where
  "boot_program listening cleared mkdir dirs runner jobs workers host port0 =
     (if \<not> listening then Inr None
      else
        let ring = NewRingServer host (to_int32 port0); sdfs = ClearSDFSFiles cleared (NewSDFSServer ring) in
        case InitDataFolder mkdir (Address (rs_Process ring)) dirs of
          Inl e \<Rightarrow> Inl e
        | Inr _ \<Rightarrow>
            (case NewIDunnoWorker runner host port0 ring of
               Inl e \<Rightarrow> Inl e
             | Inr w \<Rightarrow> Inr (Some \<lparr>pg_Ring = ring, pg_SDFS = sdfs, pg_Worker = w, pg_Coordinator = NewIDunnoCoordinator ring jobs workers\<rparr>)))"

text \<open>The callback: the file system is told first, then the coordinator.\<close>

definition member_update :: "time \<Rightarrow> process \<Rightarrow> mem_action \<Rightarrow> 'f program \<Rightarrow> 'f program run" where
  "member_update now p action pg =
     (let pg1 = pg\<lparr>pg_SDFS := OnMemberUpdate action p (pg_SDFS pg)\<rparr> in
      case ic_OnMemberUpdate now action p (pg_Coordinator pg1) of
        Inl e \<Rightarrow> Inl e
      | Inr c \<Rightarrow> Inr (pg1\<lparr>pg_Coordinator := c\<rparr>))"

section \<open>Terminal\<close>

datatype terminal_action =
    DoListMembers | DoListSelf | DoJoin | DoLeave | DoClearLog | DoStats | DoClearSDFS | DoClearLocal
  | DoGreet string | DoSleep int | DoSDFS string | DoIDunno string

datatype line_end = NextLine | StopServer | LinePanics go_panic

definition general_command :: "string \<Rightarrow> terminal_action list" where
  "general_command a =
     (if a = ''list_mem'' \<or> a = ''lm'' then [DoListMembers]
      else if a = ''list_self'' \<or> a = ''l'' then [DoListSelf]
      else if a = ''join'' then [DoJoin]
      else if a = ''leave'' then [DoLeave]
      else if a = ''clear-log'' then [DoClearLog]
      else if a = ''stat'' then [DoStats]
      else if a = ''clear-sdfs'' then [DoClearSDFS]
      else if a = ''clear-local'' then [DoClearLocal]
      else [])"

definition debug_command :: "string \<Rightarrow> terminal_action list" where
  "debug_command a =
     (if a = ''debug:idunno'' then
        [DoSDFS ''putdir imagenet imagenet'', DoSDFS ''put emotion.txt emotion.txt'', DoIDunno ''train resnet50 imagenet'',
         DoIDunno ''train albert emotion.txt'', DoIDunno ''serve resnet50 4'', DoSleep 3, DoIDunno ''serve albert 8'']
      else if a = ''debug:train'' then
        [DoSDFS ''putdir imagenet imagenet'', DoSDFS ''put emotion.txt emotion.txt'', DoIDunno ''train resnet50 imagenet'',
         DoIDunno ''train albert emotion.txt'']
      else if a = ''debug:r'' then [DoIDunno ''serve resnet50 2'']
      else if a = ''debug:a'' then [DoIDunno ''serve albert 8'']
      else [])"

text \<open>One line of input: what it makes the program do, and how it ends. Its last character is cut off unseen; at
  the end of the input there is none, and the slice panics. \<open>dial\<close> and \<open>greeted\<close> are the outcomes of the calls
  of the greeting, which reads an argument without checking that there is one.\<close>

definition terminal_line :: "bool \<Rightarrow> bool \<Rightarrow> string \<Rightarrow> terminal_action list \<times> line_end" where
  "terminal_line dial greeted line =
     (case go_slice line 0 (int (length line) - 1) of
        Inl e \<Rightarrow> ([], LinePanics e)
      | Inr t \<Rightarrow>
          (let args = Fields t in
           if args = [] then ([], NextLine)
           else
             let a = args ! 0; general = general_command a in
             if a = ''stop'' then (general, StopServer)
             else if a = ''debug:greet'' \<and> \<not> dial then (general, NextLine)
             else if a = ''debug:greet'' \<and> length args \<le> 1 then (general, LinePanics IndexOutOfRange)
             else if a = ''debug:greet'' \<and> \<not> greeted then (general @ [DoGreet (args ! 1)], NextLine)
             else (general @ (if a = ''debug:greet'' then [DoGreet (args ! 1)] else debug_command a) @ [DoSDFS t, DoIDunno t], NextLine)))"

fun terminal :: "(bool \<times> bool \<times> string) list \<Rightarrow> terminal_action list \<times> line_end" where
  "terminal [] = ([], NextLine)"
| "terminal ((dial, greeted, line) # ls) =
     (case terminal_line dial greeted line of
        (acts, NextLine) \<Rightarrow> (case terminal ls of (acts1, e) \<Rightarrow> (acts @ acts1, e))
      | (acts, e) \<Rightarrow> (acts, e))"

text \<open>The end of the input takes the machine down.\<close>

lemma terminal_eof: "terminal_line dial greeted '''' = ([], LinePanics SliceBounds)"
  by (simp add: terminal_line_def go_slice_def)

text \<open>A line that is no command of the terminal itself goes to both clients, as it is.\<close>

lemma terminal_forwards:
  assumes "Fields t \<noteq> []" and "general_command (Fields t ! 0) = []" and "debug_command (Fields t ! 0) = []"
    and "Fields t ! 0 \<noteq> ''stop''" "Fields t ! 0 \<noteq> ''debug:greet''"
  shows "terminal_line dial greeted (t @ [c]) = ([DoSDFS t, DoIDunno t], NextLine)"
  using assms by (simp add: terminal_line_def go_slice_def Let_def)

section \<open>A booted machine\<close>

lemma boot_program_parts:
  assumes "boot_program listening cleared mkdir dirs runner jobs workers host port0 = Inr (Some pg)"
  shows "pg_Coordinator pg = NewIDunnoCoordinator (pg_Ring pg) jobs workers" and "NewIDunnoWorker True host port0 (pg_Ring pg) = Inr (pg_Worker pg)"
    and "pg_Ring pg = NewRingServer host (to_int32 port0)"
  using assms by (auto simp: boot_program_def NewIDunnoWorker_def Let_def split: if_splits sum.splits)

end
