(* ===== verification/Cluster.thy ===== *)
theory Cluster
  imports Job_Lifecycle Main_Program
begin

text \<open>
  Coordinators, workers and model runners together. Every machine runs a worker, its model runner and a
  coordinator object; messages between machines can be delayed, lost, reordered and delivered again, and any
  coordinator may answer any query (\<open>main.go\<close> registers all services on every machine). A worker that waits
  for an answer holds its lock: until it has the answer or gives up, only \<open>FinishInference\<close> changes it.
  \<open>cluster_reachable\<close> is the set of states of such a cluster.
\<close>

section \<open>Model runners\<close>

text \<open>\<open>run model inputs\<close> is what a runner that serves \<open>model\<close> answers. An answer to a batch: what the runner
  answers on its valid inputs, or, for a data set of file names, on local copies of some of the files, each at most once.\<close>

type_synonym runner = "string \<Rightarrow> string list \<Rightarrow> eval_result list"

definition is_answer :: "runner \<Rightarrow> evaluation \<Rightarrow> string \<Rightarrow> int \<Rightarrow> eval_result list \<Rightarrow> bool" where
  "is_answer run plan jid bid rs \<longleftrightarrow>
     (let inputs = valid_batch plan jid bid in
      if inputs = [] then rs = []
      else if ContainFilenames (ev_Dataset plan jid) then
        \<exists>fetched ring. mset fetched \<subseteq># mset inputs \<and> rs = run (ev_Model plan jid) (map (\<lambda>f. GetLocalFilePath f ring) fetched)
      else rs = run (ev_Model plan jid) inputs)"

definition answered_by :: "runner \<Rightarrow> evaluation \<Rightarrow> evaluation" where
  "answered_by run plan = plan\<lparr>ev_Answer := is_answer run plan\<rparr>"

lemma answered_by_simps [simp]:
  "ev_Model (answered_by run plan) = ev_Model plan" "ev_Dataset (answered_by run plan) = ev_Dataset plan"
  "ev_Batches (answered_by run plan) = ev_Batches plan" "ev_Answer (answered_by run plan) = is_answer run plan"
  "valid_batch (answered_by run plan) = valid_batch plan"
  by (simp_all add: answered_by_def valid_batch_def fun_eq_iff)

text \<open>A runner that serves no model answers with an error; the answer of a serving one may be lost.\<close>

definition evaluates :: "runner \<Rightarrow> string option \<Rightarrow> (string list \<Rightarrow> 'f evaluate_reply) \<Rightarrow> bool" where
  "evaluates run served evaluate \<longleftrightarrow>
     (\<forall>inputs rs m. evaluate inputs = EvaluateReply OK rs m \<longrightarrow> (\<exists>model. served = Some model \<and> rs = run model inputs))"

section \<open>The cluster\<close>

text \<open>\<open>nd_Model\<close> is the model the runner serves, \<open>nd_Call\<close> the job of the query the worker waits for.\<close>

record 'f machine =
  nd_Worker :: "'f idunno_worker"
  nd_Coordinator :: "'f coordinator"
  nd_Model :: "string option"
  nd_Call :: "string option"

record 'f cluster =
  machine_at :: "string \<Rightarrow> 'f machine"
  StartRequests :: "(inference_task \<times> string) set"
  Queries :: "(string \<times> process \<times> 'f batch_output option) set"
  QueryReplies :: "(string \<times> query_reply) set"
  Backups :: "'f coordinator_backup set"

definition put_machine :: "string \<Rightarrow> 'f machine \<Rightarrow> 'f cluster \<Rightarrow> 'f cluster" where
  "put_machine a m k = k\<lparr>machine_at := (machine_at k)(a := m)\<rparr>"

abbreviation coord_at :: "'f cluster \<Rightarrow> string \<Rightarrow> 'f coordinator" where "coord_at k a \<equiv> nd_Coordinator (machine_at k a)"
abbreviation worker_on :: "'f cluster \<Rightarrow> string \<Rightarrow> 'f idunno_worker" where "worker_on k a \<equiv> nd_Worker (machine_at k a)"

definition set_coord :: "string \<Rightarrow> 'f coordinator \<Rightarrow> 'f cluster \<Rightarrow> 'f cluster" where
  "set_coord a c k = put_machine a ((machine_at k a)\<lparr>nd_Coordinator := c\<rparr>) k"

definition booted :: "'f machine \<Rightarrow> bool" where
  "booted m \<longleftrightarrow> (\<exists>cleared mkdir dirs runner jobs workers host port0 pg.
        boot_program True cleared mkdir dirs runner jobs workers host port0 = Inr (Some pg)
        \<and> nd_Worker m = pg_Worker pg \<and> nd_Coordinator m = pg_Coordinator pg)
     \<and> nd_Model m = None \<and> nd_Call m = None"

text \<open>Whether a call of \<open>ServeModel\<close> changes the model that the runner serves: a call that fails does not.\<close>

definition served_model :: "bool \<Rightarrow> response_status option \<Rightarrow> inference_task \<Rightarrow> string option \<Rightarrow> string option" where
  "served_model dial serve task m = (if dial \<and> serve = Some OK then Some (it_Model task) else m)"

inductive cluster_reachable :: "runner \<Rightarrow> evaluation \<Rightarrow> 'f cluster \<Rightarrow> bool" for run plan where
  boot: "(\<And>a. booted (machine_at k a)) \<Longrightarrow> StartRequests k = {} \<Longrightarrow> Queries k = {} \<Longrightarrow> QueryReplies k = {} \<Longrightarrow> Backups k = {}
    \<Longrightarrow> cluster_reachable run plan k"
| coord: "cluster_reachable run plan k \<Longrightarrow> coord_step (answered_by run plan) (coord_at k a) c' \<Longrightarrow> cluster_reachable run plan (set_coord a c' k)"
| send_start: "cluster_reachable run plan k \<Longrightarrow> Reschedule_request jid (coord_at k a) = Inr request
    \<Longrightarrow> cluster_reachable run plan (k\<lparr>StartRequests := insert request (StartRequests k)\<rparr>)"
| recv_start: "cluster_reachable run plan k \<Longrightarrow> (task, jid) \<in> StartRequests k \<Longrightarrow> nd_Call (machine_at k b) = None
    \<Longrightarrow> iw_Inference dial serve task jid (worker_on k b) = (answer, w')
    \<Longrightarrow> cluster_reachable run plan
          (put_machine b ((machine_at k b)\<lparr>nd_Worker := w', nd_Model := served_model dial serve task (nd_Model (machine_at k b))\<rparr>) k)"
| finish: "cluster_reachable run plan k
    \<Longrightarrow> cluster_reachable run plan (put_machine b ((machine_at k b)\<lparr>nd_Worker := FinishInference (worker_on k b)\<rparr>) k)"
| idle_round: "cluster_reachable run plan k \<Longrightarrow> nd_Call (machine_at k b) = None
    \<Longrightarrow> QueryData_ask dns d1 d2 (worker_on k b) = (call, w')
    \<Longrightarrow> cluster_reachable run plan (put_machine b ((machine_at k b)\<lparr>nd_Worker := w'\<rparr>) k)"
| send_query: "cluster_reachable run plan k \<Longrightarrow> nd_Call (machine_at k b) = None
    \<Longrightarrow> QueryData_ask dns d1 d2 (worker_on k b) = (CallQueryData addr jid p out, w')
    \<Longrightarrow> cluster_reachable run plan (put_machine b ((machine_at k b)\<lparr>nd_Worker := w', nd_Call := Some jid\<rparr>)
          (k\<lparr>Queries := insert (jid, p, out) (Queries k)\<rparr>))"
| recv_query: "cluster_reachable run plan k \<Longrightarrow> (jid, p, out) \<in> Queries k
    \<Longrightarrow> QueryData t1 t2 t3 jid p out (coord_at k a) = Inr (reply, c')
    \<Longrightarrow> cluster_reachable run plan (set_coord a c' (k\<lparr>QueryReplies := insert (jid, reply) (QueryReplies k)\<rparr>))"
| recv_reply: "cluster_reachable run plan k \<Longrightarrow> nd_Call (machine_at k b) = Some jid
    \<Longrightarrow> reply = QueryError \<or> (jid, reply) \<in> QueryReplies k
    \<Longrightarrow> (\<And>bi isF. reply = QueryReply (Some bi) isF \<Longrightarrow> mset fetched \<subseteq># mset (Inputs bi)) \<Longrightarrow> evaluates run (nd_Model (machine_at k b)) evaluate
    \<Longrightarrow> QueryData_answer F reply fetched evaluate (worker_on k b) = (err, w')
    \<Longrightarrow> cluster_reachable run plan (put_machine b ((machine_at k b)\<lparr>nd_Worker := w', nd_Call := None\<rparr>) k)"
| send_backup: "cluster_reachable run plan k \<Longrightarrow> BackupCoordinatorData dial (coord_at k a) = (Some (p, msg), c')
    \<Longrightarrow> cluster_reachable run plan (set_coord a c' (k\<lparr>Backups := insert msg (Backups k)\<rparr>))"
| recv_backup: "cluster_reachable run plan k \<Longrightarrow> msg \<in> Backups k \<Longrightarrow> Backup (Some msg) (coord_at k a) = Inr c'
    \<Longrightarrow> cluster_reachable run plan (set_coord a c' k)"

section \<open>What messages and workers carry\<close>

definition reply_ok :: "evaluation \<Rightarrow> string \<Rightarrow> query_reply \<Rightarrow> bool" where
  "reply_ok eval jid reply \<longleftrightarrow>
     (\<forall>bi isF. reply = QueryReply (Some bi) isF \<longrightarrow>
        isF = ContainFilenames (ev_Dataset eval jid) \<and> Inputs bi = valid_batch eval jid (BatchId bi))"

definition machine_ok :: "evaluation \<Rightarrow> 'f machine \<Rightarrow> bool" where
  "machine_ok eval m \<longleftrightarrow>
     (iw_JobId (nd_Worker m) \<noteq> EMPTY_STRING \<longrightarrow> nd_Model m = Some (ev_Model eval (iw_JobId (nd_Worker m)))
        \<and> (\<forall>out. iw_BatchOutput (nd_Worker m) = Some out \<longrightarrow> computed eval (iw_JobId (nd_Worker m)) out))
     \<and> (\<forall>jid. nd_Call m = Some jid \<longrightarrow> nd_Model m = Some (ev_Model eval jid)
          \<and> (iw_JobId (nd_Worker m) = jid \<or> iw_JobId (nd_Worker m) = EMPTY_STRING))"

definition cluster_inv :: "evaluation \<Rightarrow> 'f cluster \<Rightarrow> bool" where
  "cluster_inv eval k \<longleftrightarrow>
     (\<forall>a. coord_reachable eval (coord_at k a)) \<and> (\<forall>a. machine_ok eval (machine_at k a))
     \<and> (\<forall>(task, jid) \<in> StartRequests k. it_Model task = ev_Model eval jid)
     \<and> (\<forall>(jid, p, out) \<in> Queries k. \<forall>o'. out = Some o' \<longrightarrow> computed eval jid o')
     \<and> (\<forall>(jid, reply) \<in> QueryReplies k. reply_ok eval jid reply)
     \<and> (\<forall>msg \<in> Backups k. \<exists>c. coord_reachable eval c \<and> msg = backup_of c)"

lemma cluster_inv_coord:
  assumes "cluster_inv eval k" and "coord_reachable eval c"
  shows "cluster_inv eval (set_coord a c k)"
  using assms by (simp add: cluster_inv_def set_coord_def put_machine_def machine_ok_def)

lemma cluster_inv_machine:
  assumes "cluster_inv eval k" and "machine_ok eval m" and "nd_Coordinator m = coord_at k b"
  shows "cluster_inv eval (put_machine b m k)"
  using assms by (simp add: cluster_inv_def put_machine_def)

lemma cluster_inv_reply: "cluster_inv eval k \<Longrightarrow> (jid, reply) \<in> QueryReplies k \<Longrightarrow> reply_ok eval jid reply"
  by (auto simp: cluster_inv_def)

text \<open>A batch that is handed out has the valid inputs meant for it.\<close>

lemma next_batch_reply:
  assumes ok: "job_ok eval (job_at s jr)" and id: "job_Id (job_at s jr) = jid" and run: "next_batch now wr jr s = (reply, s')"
  shows "reply_ok eval jid reply"
proof -
  let ?j = "job_at s jr" let ?i = "find_index (\<lambda>b. Status b = Available) (BatchStates ?j)"
  have ds: "Dataset ?j = ev_Dataset eval jid" using ok id by (simp add: job_ok_def)
  show ?thesis
  proof (cases "?i = -1")
    case True
    with run show ?thesis by (auto simp: next_batch_def FetchBatchInput_def Let_def reply_ok_def)
  next
    case False
    then have ex: "\<exists>b \<in> set (BatchStates ?j). Status b = Available" by simp
    have i: "0 \<le> ?i" "nat ?i < length (BatchStates ?j)" using find_index_some(1,2) [OF ex] by simp_all
    then have "batch_ok eval jid (nat ?i) (BatchStates ?j ! nat ?i)" using ok id by (simp add: job_ok_def)
    then obtain inp where inp: "BatchInput (BatchStates ?j ! nat ?i) = Some inp" "BatchId inp = ?i"
      "ValidateDatasetInputs (ev_Dataset eval jid) (Inputs inp) = valid_batch eval jid ?i" using i by (auto simp: batch_ok_def)
    have f: "FetchBatchInput now ?j = (Some (nat ?i), modify_batch (nat ?i) (\<lambda>b. b\<lparr>Status := InProgress, QueryTime := Some now\<rparr>) ?j)"
      unfolding FetchBatchInput_def Let_def if_not_P [OF False] ..
    have "reply = QueryReply (Some (inp\<lparr>Inputs := valid_batch eval jid ?i\<rparr>)) (ContainFilenames (ev_Dataset eval jid))"
      using run i ds inp by (auto simp: next_batch_def f Let_def modify_batch_def)
    with inp(2) show ?thesis by (simp add: reply_ok_def)
  qed
qed

lemma QueryData_reply:
  assumes inv: "coord_inv eval c" and out: "\<And>o'. out = Some o' \<Longrightarrow> computed eval jid o'"
    and run: "QueryData t1 t2 t3 jid p out c = Inr (reply, c')"
  shows "reply_ok eval jid reply"
proof -
  have s: "Scheduler (OnBecomeCoordinator c) = Scheduler c" by (simp add: OnBecomeCoordinator_def)
  consider "reply = QueryError"
    | wr jr s1 s2 where "GetJob jid (Scheduler c) = Some jr"
        "(case out of None \<Rightarrow> Inr (Scheduler c) | Some o' \<Rightarrow> OnReceiveBatchOutput t1 t2 jid p o' (Scheduler c)) = Inr s1"
        "next_batch t3 wr jr s1 = (reply, s2)"
    using run s by (auto simp: QueryData_def Let_def split: option.splits sum.splits if_splits prod.splits)
  then show ?thesis
  proof cases
    case 1
    then show ?thesis by (simp add: reply_ok_def)
  next
    case 2
    have "jobs_inv eval s1 \<and> GetJob jid s1 = Some jr"
      using 2(1,2) inv OnReceiveBatchOutput_inv [of eval "Scheduler c" jid _ t1 t2 p s1] out
      by (cases out) (auto simp: coord_inv_def GetJob_def)
    then show ?thesis using next_batch_reply [OF _ _ 2(3)] jobs_inv_active by blast
  qed
qed

lemma Reschedule_request_model:
  assumes "coord_inv eval c" and "Reschedule_request jid c = Inr (task, jid')"
  shows "it_Model task = ev_Model eval jid'"
proof -
  obtain jr where "GetJob jid (Scheduler c) = Some jr" and "task = InferenceTask (ModelType (job_at (Scheduler c) jr)) (BatchSize (job_at (Scheduler c) jr))"
      "jid' = jid"
    using assms(2) by (auto simp: Reschedule_request_def split: option.splits)
  with jobs_inv_active [of eval "Scheduler c" jid jr] assms(1) show ?thesis by (auto simp: coord_inv_def job_ok_def)
qed

text \<open>An answer of the runner on the inputs of a batch is an answer to the batch.\<close>

lemma QueryData_answer_ok:
  assumes ok: "machine_ok (answered_by run plan) m" and call: "nd_Call m = Some jid" and reply: "reply_ok (answered_by run plan) jid reply"
    and fetched: "\<And>bi isF. reply = QueryReply (Some bi) isF \<Longrightarrow> mset fetched \<subseteq># mset (Inputs bi)"
    and eval: "evaluates run (nd_Model m) evaluate" and step: "QueryData_answer F reply fetched evaluate (nd_Worker m) = (err, w')"
  shows "machine_ok (answered_by run plan) (m\<lparr>nd_Worker := w', nd_Call := None\<rparr>)"
proof -
  let ?w = "nd_Worker m"
  have m: "nd_Model m = Some (ev_Model plan jid)" "iw_JobId ?w = jid \<or> iw_JobId ?w = EMPTY_STRING"
    using ok call by (simp_all add: machine_ok_def)
  have keep: "machine_ok (answered_by run plan) (m\<lparr>nd_Worker := ?w\<lparr>iw_BatchOutput := Some out\<rparr>, nd_Call := None\<rparr>)"
    if "computed (answered_by run plan) jid out" for out
    using m that by (auto simp: machine_ok_def)
  from step show ?thesis
  proof (cases rule: QueryData_answer_cases)
    case 1
    with ok show ?thesis by (simp add: machine_ok_def)
  next
    case (2 bi isF)
    have "valid_batch plan jid (BatchId bi) = []" using reply 2(1,2) by (simp add: reply_ok_def)
    then have "computed (answered_by run plan) jid \<lparr>bo_BatchId = BatchId bi, Results = [], Metric = f_of_int F 0\<rparr>"
      by (simp add: computed_def is_answer_def)
    with keep 2(3) show ?thesis by simp
  next
    case (3 bi isF rs metric)
    have b: "isF = ContainFilenames (ev_Dataset plan jid)" "valid_batch plan jid (BatchId bi) = Inputs bi"
      using reply 3(1) by (simp_all add: reply_ok_def)
    have "rs = run (ev_Model plan jid) (model_inputs isF (Inputs bi) fetched ?w)" using eval 3(3) m(1) by (auto simp: evaluates_def)
    then have "is_answer run plan jid (BatchId bi) rs"
      using b 3(2) fetched [OF 3(1)] by (auto simp: is_answer_def model_inputs_def Let_def)
    then have "computed (answered_by run plan) jid \<lparr>bo_BatchId = BatchId bi, Results = rs, Metric = metric\<rparr>"
      by (auto simp: computed_def)
    with keep 3(4) show ?thesis by simp
  qed
qed

lemma booted_ok:
  assumes "booted m"
  shows "machine_ok eval m \<and> coord_reachable eval (nd_Coordinator m)"
proof -
  obtain cleared mkdir dirs runner jobs workers host port0 and pg :: "'a program"
    where boot: "boot_program True cleared mkdir dirs runner jobs workers host port0 = Inr (Some pg)"
      and m: "nd_Worker m = pg_Worker pg" "nd_Coordinator m = pg_Coordinator pg" "nd_Call m = None"
    using assms by (auto simp: booted_def)
  have "iw_JobId (pg_Worker pg) = EMPTY_STRING" using boot_program_parts(2) [OF boot] by (auto simp: NewIDunnoWorker_def dest: sym)
  then show ?thesis by (simp add: machine_ok_def m boot_program_parts(1) [OF boot] coord_reachable.start)
qed

lemma iw_Inference_ok:
  assumes "machine_ok eval m" and "nd_Call m = None" and "it_Model task = ev_Model eval jid"
    and "iw_Inference dial serve task jid (nd_Worker m) = (answer, w')"
  shows "machine_ok eval (m\<lparr>nd_Worker := w', nd_Model := served_model dial serve task (nd_Model m)\<rparr>)"
  using assms
  by (cases serve) (auto simp: iw_Inference_def CreateInferenceClient_def served_model_def machine_ok_def split: if_splits)

lemma cluster_reachable_inv:
  assumes "cluster_reachable run plan k"
  shows "cluster_inv (answered_by run plan) k"
  using assms
proof (induction rule: cluster_reachable.induct)
  case (boot k)
  then show ?case by (simp add: cluster_inv_def booted_ok)
next
  case (coord k a c')
  from coord(3) have "coord_reachable (answered_by run plan) (coord_at k a)" by (simp add: cluster_inv_def)
  from coord_reachable.step [OF this coord(2)] coord(3) show ?case by (rule cluster_inv_coord [rotated])
next
  case (send_start k jid a request)
  then have "coord_inv (answered_by run plan) (coord_at k a)" by (simp add: cluster_inv_def coord_reachable_inv)
  then have "it_Model (fst request) = ev_Model plan (snd request)"
    using Reschedule_request_model [of "answered_by run plan" "coord_at k a" jid "fst request" "snd request"] send_start(2) by simp
  with send_start(3) show ?case by (auto simp: cluster_inv_def)
next
  case (recv_start k task jid b dial serve answer w')
  then have "it_Model task = ev_Model (answered_by run plan) jid" "machine_ok (answered_by run plan) (machine_at k b)"
    by (auto simp: cluster_inv_def)
  with recv_start show ?case by (intro cluster_inv_machine iw_Inference_ok) simp_all
next
  case (finish k b)
  then have "machine_ok (answered_by run plan) (machine_at k b)" by (simp add: cluster_inv_def)
  then have "machine_ok (answered_by run plan) ((machine_at k b)\<lparr>nd_Worker := FinishInference (worker_on k b)\<rparr>)"
    by (simp add: machine_ok_def FinishInference_def)
  with finish show ?case by (intro cluster_inv_machine) simp_all
next
  case (idle_round k b dns d1 d2 call w')
  then have "machine_ok (answered_by run plan) (machine_at k b)" by (simp add: cluster_inv_def)
  then have "machine_ok (answered_by run plan) ((machine_at k b)\<lparr>nd_Worker := w'\<rparr>)"
    using QueryData_ask_keeps [OF idle_round(3)] by (simp add: machine_ok_def)
  with idle_round show ?case by (intro cluster_inv_machine) simp_all
next
  case (send_query k b dns d1 d2 addr jid p out w')
  then have ok: "machine_ok (answered_by run plan) (machine_at k b)" by (simp add: cluster_inv_def)
  note c = QueryData_ask_call [OF send_query(3)] and keep = QueryData_ask_keeps [OF send_query(3)]
  have "machine_ok (answered_by run plan) ((machine_at k b)\<lparr>nd_Worker := w', nd_Call := Some jid\<rparr>)"
    using ok c keep by (simp add: machine_ok_def)
  moreover have "cluster_inv (answered_by run plan) (k\<lparr>Queries := insert (jid, p, out) (Queries k)\<rparr>)"
    using send_query(4) ok c by (simp add: cluster_inv_def machine_ok_def)
  ultimately show ?case by (intro cluster_inv_machine) simp_all
next
  case (recv_query k jid p out t1 t2 t3 a reply c')
  then have r: "coord_reachable (answered_by run plan) (coord_at k a)" and o: "\<And>o'. out = Some o' \<Longrightarrow> computed (answered_by run plan) jid o'"
    by (auto simp: cluster_inv_def)
  have "reply_ok (answered_by run plan) jid reply" by (rule QueryData_reply [OF coord_reachable_inv [OF r] o recv_query(3)])
  then have "cluster_inv (answered_by run plan) (k\<lparr>QueryReplies := insert (jid, reply) (QueryReplies k)\<rparr>)"
    using recv_query(4) by (simp add: cluster_inv_def)
  then show ?case by (rule cluster_inv_coord) (rule coord_reachable.query [OF r o recv_query(3)])
next
  case (recv_reply k b jid reply fetched evaluate F err w')
  have "machine_ok (answered_by run plan) (machine_at k b)" using recv_reply(7) by (simp add: cluster_inv_def)
  moreover have "reply_ok (answered_by run plan) jid reply"
    using recv_reply(3) cluster_inv_reply [OF recv_reply(7)] by (auto simp: reply_ok_def [of _ _ QueryError])
  ultimately have ok: "machine_ok (answered_by run plan) (machine_at k b)" "reply_ok (answered_by run plan) jid reply" .
  from QueryData_answer_ok [OF ok(1) recv_reply(2) ok(2) recv_reply(4-6)] recv_reply(7) show ?case
    by (intro cluster_inv_machine) simp_all
next
  case (send_backup k dial a p msg c')
  then have r: "coord_reachable (answered_by run plan) (coord_at k a)" by (simp add: cluster_inv_def)
  have r': "coord_reachable (answered_by run plan) c'" by (rule coord_reachable.step [OF r coord_step.backup_sent [OF send_backup(2)]])
  have "msg = backup_of c'" using send_backup(2) by (auto simp: BackupCoordinatorData_def split: prod.splits option.splits)
  with r' have "cluster_inv (answered_by run plan) (k\<lparr>Backups := insert msg (Backups k)\<rparr>)"
    using send_backup(3) by (auto simp: cluster_inv_def)
  then show ?case by (rule cluster_inv_coord [OF _ r'])
next
  case (recv_backup k msg a c')
  then have r: "coord_reachable (answered_by run plan) (coord_at k a)" by (simp add: cluster_inv_def)
  obtain c where "coord_reachable (answered_by run plan) c" "msg = backup_of c" using recv_backup(2,4) by (auto simp: cluster_inv_def)
  with recv_backup(3) have "coord_reachable (answered_by run plan) c'" using coord_reachable.backup [OF r] by blast
  with recv_backup(4) show ?case by (rule cluster_inv_coord)
qed

section \<open>The cluster computes what one machine would\<close>

text \<open>A runner that labels every input by itself.\<close>

definition labelled :: "(string \<Rightarrow> string \<Rightarrow> string) \<Rightarrow> runner" where
  "labelled label model inputs = map (\<lambda>x. EvalResult x (label model x)) inputs"

lemma is_answer_labelled:
  "\<not> ContainFilenames (ev_Dataset plan jid) \<Longrightarrow> is_answer (labelled label) plan jid bid rs
     \<longleftrightarrow> rs = labelled label (ev_Model plan jid) (valid_batch plan jid bid)"
  by (auto simp: is_answer_def labelled_def Let_def)

lemma labelled_concat: "concat (map (labelled label m) xss) = labelled label m (concat xss)"
  by (induction xss) (simp_all add: labelled_def)

lemma ValidateDatasetInputs_concat: "concat (map (ValidateDatasetInputs ds) xss) = ValidateDatasetInputs ds (concat xss)"
  by (induction xss) (simp_all add: ValidateDatasetInputs_def)

text \<open>C10. Distribution is transparent: when a job on a text data set completes, anywhere in a cluster and after any
  history of scheduling, lost and repeated messages, worker failures and takeovers by a backup, its result
  file is the one that a single machine would write: the model's label for every valid line of the data set, in
  the order of the data set, whatever the batch size. (The runner is taken to label every input by itself.)\<close>

theorem distribution_is_transparent:
  assumes reach: "cluster_reachable (labelled label) plan k"
    and lines: "\<not> ContainFilenames (ev_Dataset plan jid)"
    and batches: "ev_Batches plan jid = chunks n (split_on (CHR ''\<newline>'') data)" "0 < n"
    and stored: "FlushPendingJobs F fmt clk now written put (coord_at k a) = Inr (Some (jid, content), c')"
  shows "\<exists>metric. content = result_file fmt
    (map (\<lambda>line. short_input (EvalResult line (label (ev_Model plan jid) line)))
      (ValidateDatasetInputs (ev_Dataset plan jid) (split_on (CHR ''\<newline>'') data)), metric)"
proof -
  let ?run = "labelled label (ev_Model plan jid)" and ?valid = "ValidateDatasetInputs (ev_Dataset plan jid)" and ?bs = "ev_Batches plan jid"
  have "coord_reachable (answered_by (labelled label) plan) (coord_at k a)"
    using cluster_reachable_inv [OF reach] by (simp add: cluster_inv_def)
  then obtain rss metric where content: "content = result_file fmt (map short_input (concat rss), metric)" and len: "length rss = length ?bs"
    and rss: "\<And>i. i < length rss \<Longrightarrow> rss ! i = ?run (?valid (?bs ! i))"
    by (rule stored_file_complete [OF _ stored]) (simp add: is_answer_labelled [OF lines] valid_batch_def)
  have "rss = map ?run (map ?valid ?bs)" by (rule nth_equalityI) (simp_all add: len rss)
  then have "concat rss = ?run (?valid (concat ?bs))" by (simp only: labelled_concat ValidateDatasetInputs_concat)
  then show ?thesis
    using content batches by (simp add: concat_chunks labelled_def comp_def) blast
qed

text \<open>A data set of file names: each entry stems from a file of the batch, and no file counts twice.\<close>

lemma short_input_local: "short_input (EvalResult (GetLocalFilePath f ring) out) = short_input (EvalResult f out)"
  using last_split_on [of "CHR ''/''" "''../data/'' @ Address (rs_Process ring)" f] by (simp add: short_input_def GetLocalFilePath_def)

lemma is_answer_files:
  assumes "is_answer (labelled label) plan jid bid rs" and "ContainFilenames (ev_Dataset plan jid)"
    and "\<And>f ring. label (ev_Model plan jid) (GetLocalFilePath f ring) = img f"
  shows "\<exists>fs. mset fs \<subseteq># mset (valid_batch plan jid bid) \<and> map short_input rs = map (\<lambda>f. short_input (EvalResult f (img f))) fs"
proof (cases "valid_batch plan jid bid = []")
  case False
  then obtain fs ring where "mset fs \<subseteq># mset (valid_batch plan jid bid)"
      "rs = labelled label (ev_Model plan jid) (map (\<lambda>f. GetLocalFilePath f ring) fs)"
    using assms(1,2) by (auto simp: is_answer_def Let_def)
  then show ?thesis using assms(3) by (intro exI [of _ fs]) (simp add: labelled_def short_input_local)
qed (use assms(1) in \<open>simp add: is_answer_def\<close>)

lemma parts_concat:
  "list_all2 (\<lambda>rs xs. \<exists>fs. mset fs \<subseteq># mset xs \<and> map g rs = map h fs) rss xss
     \<Longrightarrow> \<exists>fs. mset fs \<subseteq># mset (concat xss) \<and> map g (concat rss) = map h fs"
proof (induction rule: list_all2_induct)
  case (Cons rs rss xs xss)
  then obtain fs gs where "mset fs \<subseteq># mset xs" "map g rs = map h fs" "mset gs \<subseteq># mset (concat xss)" "map g (concat rss) = map h gs"
    by blast
  then show ?case by (intro exI [of _ "fs @ gs"]) (simp add: subset_mset.add_mono)
qed simp

text \<open>C11. Jobs on images: when a job on a data set of file names completes, anywhere in a cluster and after any history,
  its result file reports files of the data set with the model's label of each, no file more often than the data
  set lists it. It may leave files out, because a worker drops an image it cannot fetch. (The label of an image
  does not depend on where its local copy lies.)\<close>

theorem image_results_are_labels:
  assumes reach: "cluster_reachable (labelled label) plan k" and files: "ContainFilenames (ev_Dataset plan jid)"
    and label: "\<And>f ring. label (ev_Model plan jid) (GetLocalFilePath f ring) = img f"
    and batches: "ev_Batches plan jid = chunks n (split_on (CHR ''\<newline>'') data)" "0 < n"
    and stored: "FlushPendingJobs F fmt clk now written put (coord_at k a) = Inr (Some (jid, content), c')"
  shows "\<exists>fs metric. content = result_file fmt (map (\<lambda>f. short_input (EvalResult f (img f))) fs, metric)
    \<and> mset fs \<subseteq># mset (ValidateDatasetInputs (ev_Dataset plan jid) (split_on (CHR ''\<newline>'') data))"
proof -
  let ?valid = "ValidateDatasetInputs (ev_Dataset plan jid)" and ?bs = "ev_Batches plan jid"
  let ?part = "\<lambda>rs xs. \<exists>fs. mset fs \<subseteq># mset xs \<and> map short_input rs = map (\<lambda>f. short_input (EvalResult f (img f))) fs"
  have "coord_reachable (answered_by (labelled label) plan) (coord_at k a)"
    using cluster_reachable_inv [OF reach] by (simp add: cluster_inv_def)
  then obtain rss metric where content: "content = result_file fmt (map short_input (concat rss), metric)" and len: "length rss = length ?bs"
    and rss: "\<And>i. i < length rss \<Longrightarrow> is_answer (labelled label) plan jid (int i) (rss ! i)"
    by (rule stored_file_complete [OF _ stored]) simp
  have "?part (rss ! i) (?valid (?bs ! i))" if "i < length rss" for i
    using is_answer_files [OF rss [OF that] files label] by (simp add: valid_batch_def)
  then have "list_all2 ?part rss (map ?valid ?bs)" by (simp add: list_all2_conv_all_nth len)
  from parts_concat [OF this] obtain fs where "mset fs \<subseteq># mset (?valid (concat ?bs))"
      "map short_input (concat rss) = map (\<lambda>f. short_input (EvalResult f (img f))) fs"
    by (auto simp: ValidateDatasetInputs_concat)
  then show ?thesis using content batches by (auto simp: concat_chunks)
qed

text \<open>A cluster in which one machine runs a job of one batch.\<close>

definition lone_worker :: "rat option idunno_worker" where
  "lone_worker = \<lparr>ModelRunner = \<lparr>ip = ''a'', port = 6000, joinTime = 0, lastUpdateTime = 0, status = Alive\<rparr>,
     iw_JobId = EMPTY_STRING, iw_BatchOutput = None, iw_Ring = NewRingServer ''a'' 5000\<rparr>"

definition lone_machine :: "rat option machine" where
  "lone_machine = \<lparr>nd_Worker = lone_worker, nd_Coordinator = lone_start, nd_Model = None, nd_Call = None\<rparr>"

definition lone_cluster :: "rat option machine \<Rightarrow> (inference_task \<times> string) set \<Rightarrow> (string \<times> process \<times> rat option batch_output option) set
    \<Rightarrow> (string \<times> query_reply) set \<Rightarrow> rat option cluster" where
  "lone_cluster m starts queries replies =
     \<lparr>machine_at = (\<lambda>_. lone_machine)(''a'' := m), StartRequests = starts, Queries = queries, QueryReplies = replies, Backups = {}\<rparr>"

lemma lone_cluster_simps [simp]:
  "machine_at (lone_cluster m S Q R) ''a'' = m"
  "put_machine ''a'' m' (lone_cluster m S Q R) = lone_cluster m' S Q R"
  "set_coord ''a'' c (lone_cluster m S Q R) = lone_cluster (m\<lparr>nd_Coordinator := c\<rparr>) S Q R"
  "StartRequests (lone_cluster m S Q R) = S" "Queries (lone_cluster m S Q R) = Q" "QueryReplies (lone_cluster m S Q R) = R"
  "(lone_cluster m S Q R)\<lparr>StartRequests := S'\<rparr> = lone_cluster m S' Q R"
  "(lone_cluster m S Q R)\<lparr>Queries := Q'\<rparr> = lone_cluster m S Q' R"
  "(lone_cluster m S Q R)\<lparr>QueryReplies := R'\<rparr> = lone_cluster m S Q R'"
  by (simp_all add: lone_cluster_def put_machine_def set_coord_def)

abbreviation joyful :: runner where "joyful \<equiv> labelled (\<lambda>_ _. ''joy'')"

lemma lone_boot: "cluster_reachable joyful (lone_eval ds) (lone_cluster lone_machine {} {} {})"
proof (rule cluster_reachable.boot)
  let ?worker = "\<lparr>w_JobId = '''', CurrBatchInput = None, LastQueryTime = 0, w_Process = example_worker ''a''\<rparr>"
  obtain pg :: "rat option program" where "boot_program True True (\<lambda>_. True) {} True (\<lambda>_. example_job) (\<lambda>_. ?worker) ''a'' 5000 = Inr (Some pg)"
      "pg_Worker pg = lone_worker" "pg_Coordinator pg = lone_start"
    by (simp add: boot_program_def InitDataFolder_def make_dir_def NewIDunnoWorker_def lone_worker_def lone_start_def RUNNER_PORT_OFFSET_def to_int32_id Let_def)
  then show "booted (machine_at (lone_cluster lone_machine {} {} {}) a)" for a
    unfolding lone_cluster_def booted_def lone_machine_def by force
qed (simp_all add: lone_cluster_def)

lemma lone_coord:
  assumes "cluster_reachable joyful (lone_eval ds) (lone_cluster m S Q R)" and "coord_step (answered_by joyful (lone_eval ds)) (nd_Coordinator m) c'"
  shows "cluster_reachable joyful (lone_eval ds) (lone_cluster (m\<lparr>nd_Coordinator := c'\<rparr>) S Q R)"
  using cluster_reachable.coord [OF assms(1), of "''a''"] assms(2) by simp

text \<open>The job after its batch was handed out at time 1.\<close>

definition lone_asked :: "string \<Rightarrow> rat option job" where
  "lone_asked ds = modify_batch 0 (\<lambda>b. b\<lparr>Status := InProgress, QueryTime := Some 1\<rparr>) (lone_job ds)"

lemma lone_next:
  assumes "job_at s 0 = lone_job ds" and ds: "ds = Imagenet \<or> ds = Emotion"
  shows "next_batch 1 0 0 s = (QueryReply (Some \<lparr>BatchId = 0, Inputs = [lone_line]\<rparr>) (ContainFilenames ds),
    put_worker 0 ((worker_at s 0)\<lparr>CurrBatchInput := Some \<lparr>BatchId = 0, Inputs = [lone_line]\<rparr>\<rparr>) (put_job 0 (lone_asked ds) s))"
proof -
  let ?b = "\<lparr>Status = InProgress, BatchInput = Some \<lparr>BatchId = 0, Inputs = [lone_line]\<rparr>, BatchOutput = None, QueryTime = Some 1, ReceiveTime = None\<rparr>"
  have "FetchBatchInput 1 (lone_job ds) = (Some 0, (lone_asked ds))"
    by (simp add: FetchBatchInput_def find_index_def lone_job_batches new_batch_def lone_asked_def)
  moreover have b: "BatchStates (lone_asked ds) = [?b]"
    by (simp add: lone_asked_def modify_batch_def lone_job_batches new_batch_def to_int32_id)
  moreover have "Dataset (lone_asked ds) = ds" by (simp add: lone_asked_def) (simp add: lone_job_def queued_job_def)
  moreover have "ValidateDatasetInputs ds [lone_line] = [lone_line]"
    using ds by (auto simp: ValidateDatasetInputs_def ValidateDatasetInput_def has_suffix_def Emotion_def Imagenet_def)
  moreover have upd: "(lone_asked ds)\<lparr>BatchStates := [?b]\<rparr> = (lone_asked ds)" unfolding b [symmetric] by simp
  ultimately show ?thesis using assms by (simp add: next_batch_def Let_def modify_batch_def upd)
qed

lemma lone_asked_done:
  "\<not> CompletedQueries (record_output t (lone_batch x) (lone_asked ds)) < TotalQueries (record_output t (lone_batch x) (lone_asked ds))"
  by (simp add: record_output_def Let_def modify_batch_def GetCompletedBatchCount_def lone_job_batches lone_batch_def lone_asked_def to_int32_id)
    (simp add: lone_job_def queued_job_def chunks.simps)

lemma lone_run:
  assumes ds: "ds = Imagenet \<or> ds = Emotion"
  shows "\<exists>k :: rat option cluster. cluster_reachable joyful (lone_eval ds) k
    \<and> (\<exists>jr. PendingJobs (Scheduler (coord_at k ''a'')) = [jr] \<and> job_Id (job_at (Scheduler (coord_at k ''a'')) jr) = ''albert:1:0'')"
proof -
  let ?E = "answered_by joyful (lone_eval ds)" and ?R = "cluster_reachable joyful (lone_eval ds)" and ?jid = "''albert:1:0''" and ?p = "example_worker ''a''"
  let ?task = "InferenceTask Albert 1" and ?input = "\<lparr>BatchId = 0, Inputs = [lone_line]\<rparr>" and ?isF = "ContainFilenames ds"
  obtain x where x: "x = (if ?isF then GetLocalFilePath lone_line (NewRingServer ''a'' 5000) else lone_line)" by blast
  let ?batch = "lone_batch x"
  have "planned ?E Albert 1 ds [lone_line] 0" using lone_planned by (simp add: planned_def)
  then obtain c1 c2 c3 :: "rat option coordinator" where s: "coord_step ?E lone_start c1" "coord_step ?E c1 c2" "coord_step ?E c2 c3"
      "coord_step ?E c3 (lone_coordinator ds)" by (rule lone_steps)
  let ?c5 = "Reschedule_reply 0 (Some OK) ?jid 0 (lone_coordinator ds)"
  have s5: "coord_step ?E (lone_coordinator ds) ?c5" by (rule coord_step.reply)
  have start: "Reschedule_request ?jid ?c5 = Inr (?task, ?jid)"
    by (simp add: Reschedule_request_def Reschedule_reply_def map_sched_def GetJob_def lone_coordinator_maps put_worker_def) (simp add: lone_job_def queued_job_def)
  let ?m = "\<lambda>w c model call. \<lparr>nd_Worker = w, nd_Coordinator = c, nd_Model = model, nd_Call = call\<rparr> :: rat option machine"
  let ?w1 = "lone_worker\<lparr>iw_JobId := ?jid\<rparr>" let ?w2 = "?w1\<lparr>iw_BatchOutput := Some ?batch\<rparr>"
  have "?R (lone_cluster (?m lone_worker c1 None None) {} {} {})" using lone_coord [OF lone_boot] s(1) by (simp add: lone_machine_def)
  then have "?R (lone_cluster (?m lone_worker c2 None None) {} {} {})" using lone_coord s(2) by fastforce
  then have "?R (lone_cluster (?m lone_worker c3 None None) {} {} {})" using lone_coord s(3) by fastforce
  then have "?R (lone_cluster (?m lone_worker (lone_coordinator ds) None None) {} {} {})" using lone_coord s(4) by fastforce
  then have "?R (lone_cluster (?m lone_worker ?c5 None None) {} {} {})" using lone_coord s5 by fastforce
  from cluster_reachable.send_start [OF this, of ?jid "''a''"] start
  have 6: "?R (lone_cluster (?m lone_worker ?c5 None None) {(?task, ?jid)} {} {})" by simp
  have "iw_Inference True (Some OK) ?task ?jid lone_worker = (Some OK, ?w1)" by (simp add: iw_Inference_def CreateInferenceClient_def lone_worker_def)
  from cluster_reachable.recv_start [OF 6, of ?task ?jid "''a''" True "Some OK" "Some OK" ?w1] this
  have 7: "?R (lone_cluster (?m ?w1 ?c5 (Some Albert) None) {(?task, ?jid)} {} {})" by (simp add: served_model_def)
  have ask: "QueryData_ask (Some ''x'') True True w = (CallQueryData ''x'' ?jid ?p (iw_BatchOutput w), w)" if "w = ?w1 \<or> w = ?w2" for w
    using that by (auto simp: QueryData_ask_def iw_CreateCoordinatorClient_def LookupLeader_def CreateInferenceClient_def lone_worker_def NewRingServer_def
        example_worker_def EMPTY_STRING_def)
  from cluster_reachable.send_query [OF 7, of "''a''" "Some ''x''" True True "''x''" ?jid ?p None ?w1] ask [of ?w1]
  have 8: "?R (lone_cluster (?m ?w1 ?c5 (Some Albert) (Some ?jid)) {(?task, ?jid)} {(?jid, ?p, None)} {})" by (simp add: lone_worker_def)
  obtain c6 where c6: "QueryData 1 1 1 ?jid ?p None ?c5 = Inr (QueryReply (Some ?input) ?isF, c6)" "ActiveJobs (Scheduler c6) = [(?jid, 0)]"
      "ResourceManager (Scheduler c6) = [(Address ?p, 0)]" "PendingJobs (Scheduler c6) = []"
      "job_at (Scheduler c6) 0 = (lone_asked ds)" "IsCoordinator c6" "w_JobId (worker_at (Scheduler c6) 0) = ?jid"
    using lone_next [OF _ ds] by (simp add: QueryData_def Let_def OnBecomeCoordinator_def Reschedule_reply_def map_sched_def lone_coordinator_maps GetWorker_def GetJob_def
      put_worker_def put_job_def Idle_def EMPTY_STRING_def)
  from cluster_reachable.recv_query [OF 8, of ?jid ?p None 1 1 1 "''a''"] c6(1)
  have 9: "?R (lone_cluster (?m ?w1 c6 (Some Albert) (Some ?jid)) {(?task, ?jid)} {(?jid, ?p, None)} {(?jid, QueryReply (Some ?input) ?isF)})" by simp
  let ?evaluate = "\<lambda>xs. EvaluateReply OK (joyful Albert xs) (Some 1)"
  have "QueryData_answer exact_float (QueryReply (Some ?input) ?isF) [lone_line] ?evaluate ?w1 = (False, ?w2)"
    by (simp add: QueryData_answer_def model_inputs_def labelled_def lone_batch_def lone_worker_def x)
  moreover have "evaluates joyful (Some Albert) ?evaluate" by (simp add: evaluates_def)
  ultimately have 10: "?R (lone_cluster (?m ?w2 c6 (Some Albert) None) {(?task, ?jid)} {(?jid, ?p, None)} {(?jid, QueryReply (Some ?input) ?isF)})"
    using cluster_reachable.recv_reply [OF 9, of "''a''" ?jid "QueryReply (Some ?input) ?isF" "[lone_line]" ?evaluate exact_float False ?w2] by simp
  from cluster_reachable.send_query [OF 10, of "''a''" "Some ''x''" True True "''x''" ?jid ?p "Some ?batch" ?w2] ask [of ?w2]
  have 11: "?R (lone_cluster (?m ?w2 c6 (Some Albert) (Some ?jid)) {(?task, ?jid)} {(?jid, ?p, Some ?batch), (?jid, ?p, None)} {(?jid, QueryReply (Some ?input) ?isF)})"
    by simp
  have batch: "bo_BatchId ?batch = 0" "length (BatchStates (lone_asked ds)) = 1" "job_Id (record_output 2 ?batch (lone_asked ds)) = ?jid"
    by (simp_all add: lone_batch_def lone_asked_def lone_job_batches record_output_def Let_def lone_job_id)
  let ?s1 = "put_worker 0 ((worker_at (Scheduler c6) 0)\<lparr>LastQueryTime := 2, CurrBatchInput := None\<rparr>)
    (put_job 0 (record_output 2 ?batch (lone_asked ds)) (Scheduler c6))\<lparr>PendingJobs := [0]\<rparr>"
  obtain reply s2 where nb: "next_batch 2 0 0 ?s1 = (reply, s2)" by force
  note keep = next_batch_jobs [OF nb]
  have "OnReceiveBatchOutput 2 2 ?jid ?p ?batch (Scheduler c6) = Inr ?s1"
    using lone_asked_done [where t = 2] c6 batch by (simp add: OnReceiveBatchOutput_eq GetWorker_def GetJob_def put_worker_def put_job_def Let_def)
  then have q: "QueryData 2 2 2 ?jid ?p (Some ?batch) c6 = Inr (reply, c6\<lparr>Scheduler := s2\<rparr>)"
    using c6(2,3,6,7) nb by (simp add: QueryData_def Let_def OnBecomeCoordinator_def GetWorker_def GetJob_def put_worker_def put_job_def Idle_def EMPTY_STRING_def)
  let ?k = "lone_cluster (?m ?w2 (c6\<lparr>Scheduler := s2\<rparr>) (Some Albert) (Some ?jid)) {(?task, ?jid)} {(?jid, ?p, Some ?batch), (?jid, ?p, None)}
      {(?jid, reply), (?jid, QueryReply (Some ?input) ?isF)}"
  have "?R ?k"
    using cluster_reachable.recv_query [OF 11, of ?jid ?p "Some ?batch" 2 2 2 "''a''" reply "c6\<lparr>Scheduler := s2\<rparr>"] q by simp
  moreover have "PendingJobs s2 = [0]" "job_Id (job_at s2 0) = ?jid" using keep batch by (simp_all add: put_worker_def put_job_def)
  ultimately show ?thesis by (intro exI [of _ ?k]) simp
qed

text \<open>The job of the example: the runner finds joy in every line.\<close>

theorem distribution_is_transparent_witness:
  "\<exists>(k :: rat option cluster) c' (metric :: rat option). cluster_reachable joyful (lone_eval Emotion) k
    \<and> FlushPendingJobs exact_float (\<lambda>_. ''1.000000'') (\<lambda>_. 9) 9 True True (coord_at k ''a'')
        = Inr (Some (''albert:1:0'', result_file (\<lambda>_. ''1.000000'') ([EvalResult lone_line ''joy''], metric)), c')"
proof -
  obtain k jr where k: "cluster_reachable joyful (lone_eval Emotion) (k :: rat option cluster)" "PendingJobs (Scheduler (coord_at k ''a'')) = [jr]"
    "job_Id (job_at (Scheduler (coord_at k ''a'')) jr) = ''albert:1:0''" using lone_run [of Emotion] by blast
  obtain content c' where f: "FlushPendingJobs exact_float (\<lambda>_. ''1.000000'') (\<lambda>_. 9) 9 True True (coord_at k ''a'') = Inr (Some (''albert:1:0'', content), c')"
    using k(2,3) by (simp add: FlushPendingJobs_eq Let_def)
  have "ev_Batches (lone_eval Emotion) ''albert:1:0'' = chunks 1 (split_on (CHR ''\<newline>'') lone_line)" "\<not> ContainFilenames (ev_Dataset (lone_eval Emotion) ''albert:1:0'')"
    by (simp_all add: lone_eval_def chunks.simps ContainFilenames_def Emotion_def Imagenet_def)
  from distribution_is_transparent [OF k(1) this(2,1) _ f] have "\<exists>metric :: rat option. content = result_file (\<lambda>_. ''1.000000'')
      (map (\<lambda>line. short_input (EvalResult line ''joy'')) (ValidateDatasetInputs Emotion [lone_line]), metric)"
    by (simp add: lone_eval_def)
  then obtain metric :: "rat option" where "content = result_file (\<lambda>_. ''1.000000'') ([EvalResult lone_line ''joy''], metric)"
    by (auto simp: ValidateDatasetInputs_def ValidateDatasetInput_def short_input_def Emotion_def Imagenet_def)
  with k(1) f show ?thesis by blast
qed

theorem image_results_are_labels_witness:
  "\<exists>(k :: rat option cluster) c' fs (metric :: rat option). cluster_reachable joyful (lone_eval Imagenet) k
    \<and> FlushPendingJobs exact_float (\<lambda>_. ''1.000000'') (\<lambda>_. 9) 9 True True (coord_at k ''a'')
        = Inr (Some (''albert:1:0'', result_file (\<lambda>_. ''1.000000'') (map (\<lambda>f. short_input (EvalResult f ''joy'')) fs, metric)), c')
    \<and> mset fs \<subseteq># {#lone_line#}"
proof -
  obtain k jr where k: "cluster_reachable joyful (lone_eval Imagenet) (k :: rat option cluster)" "PendingJobs (Scheduler (coord_at k ''a'')) = [jr]"
    "job_Id (job_at (Scheduler (coord_at k ''a'')) jr) = ''albert:1:0''" using lone_run [of Imagenet] by blast
  obtain content c' where f: "FlushPendingJobs exact_float (\<lambda>_. ''1.000000'') (\<lambda>_. 9) 9 True True (coord_at k ''a'') = Inr (Some (''albert:1:0'', content), c')"
    using k(2,3) by (simp add: FlushPendingJobs_eq Let_def)
  have "ev_Batches (lone_eval Imagenet) ''albert:1:0'' = chunks 1 (split_on (CHR ''\<newline>'') lone_line)" "ContainFilenames (ev_Dataset (lone_eval Imagenet) ''albert:1:0'')"
    by (simp_all add: lone_eval_def chunks.simps ContainFilenames_def)
  from image_results_are_labels [OF k(1) this(2) _ this(1) _ f, of "\<lambda>_. ''joy''"]
  have "\<exists>fs (metric :: rat option). content = result_file (\<lambda>_. ''1.000000'') (map (\<lambda>f. short_input (EvalResult f ''joy'')) fs, metric)
      \<and> mset fs \<subseteq># mset (ValidateDatasetInputs Imagenet [lone_line])"
    by (simp add: lone_eval_def)
  moreover have "ValidateDatasetInputs Imagenet [lone_line] = [lone_line]"
    by (simp add: ValidateDatasetInputs_def ValidateDatasetInput_def has_suffix_def)
  ultimately show ?thesis using k(1) f by fastforce
qed

text \<open>C14. Every reachable cluster is well typed. On each machine the active and the completed jobs are listed once and
  under their own ids, and every job, active, pending or completed, has the model and the data set that its id
  stands for and as many batches as the data set has, which carry their positions as ids. A worker that runs a
  job sits beside a runner that serves the job's model.\<close>

theorem cluster_well_typed:
  assumes reach: "cluster_reachable run plan k"
  shows "let s = Scheduler (coord_at k a); w = worker_on k a in
    distinct (map fst (ActiveJobs s)) \<and> map fst (ActiveJobs s) = map (\<lambda>(_, r). job_Id (job_at s r)) (ActiveJobs s)
    \<and> distinct (map fst (CompletedJobs s)) \<and> map fst (CompletedJobs s) = map (\<lambda>(_, r). job_Id (job_at s r)) (CompletedJobs s)
    \<and> list_all (\<lambda>r. let j = job_at s r in
          ModelType j = ev_Model plan (job_Id j) \<and> Dataset j = ev_Dataset plan (job_Id j)
          \<and> TotalQueries j = int (length (ev_Batches plan (job_Id j)))
          \<and> map (\<lambda>b. map_option BatchId (BatchInput b)) (BatchStates j) = map (Some \<circ> int) [0..<length (ev_Batches plan (job_Id j))])
        (map snd (ActiveJobs s) @ PendingJobs s @ map snd (CompletedJobs s))
    \<and> (iw_JobId w = EMPTY_STRING \<or> nd_Model (machine_at k a) = Some (ev_Model plan (iw_JobId w)))"
proof -
  let ?s = "Scheduler (coord_at k a)"
  have inv: "jobs_inv (answered_by run plan) ?s" "machine_ok (answered_by run plan) (machine_at k a)"
    using cluster_reachable_inv [OF reach] coord_reachable_inv by (auto simp: cluster_inv_def coord_inv_def)
  have typed: "ModelType j = ev_Model plan (job_Id j) \<and> Dataset j = ev_Dataset plan (job_Id j)
      \<and> TotalQueries j = int (length (ev_Batches plan (job_Id j)))
      \<and> map (\<lambda>b. map_option BatchId (BatchInput b)) (BatchStates j) = map (Some \<circ> int) [0..<length (ev_Batches plan (job_Id j))]"
    if ok: "job_ok (answered_by run plan) j" for j :: "'a job"
  proof -
    have "map_option BatchId (BatchInput (BatchStates j ! i)) = Some (int i)" if "i < length (BatchStates j)" for i
      using ok that by (auto simp: job_ok_def batch_ok_def)
    with ok show ?thesis by (auto simp: job_ok_def intro: nth_equalityI)
  qed
  have "job_ok (answered_by run plan) (job_at ?s r)" if "r \<in> set (map snd (ActiveJobs ?s) @ PendingJobs ?s @ map snd (CompletedJobs ?s))" for r
    using that inv(1) by (auto simp: jobs_inv_def)
  with typed have "list_all (\<lambda>r. let j = job_at ?s r in
          ModelType j = ev_Model plan (job_Id j) \<and> Dataset j = ev_Dataset plan (job_Id j)
          \<and> TotalQueries j = int (length (ev_Batches plan (job_Id j)))
          \<and> map (\<lambda>b. map_option BatchId (BatchInput b)) (BatchStates j) = map (Some \<circ> int) [0..<length (ev_Batches plan (job_Id j))])
        (map snd (ActiveJobs ?s) @ PendingJobs ?s @ map snd (CompletedJobs ?s))"
    unfolding list_all_iff Let_def by blast
  moreover have "map fst m = map (\<lambda>(_, r). job_Id (job_at ?s r)) m" if "m = ActiveJobs ?s \<or> m = CompletedJobs ?s" for m
    using that inv(1) by (auto simp: jobs_inv_def)
  ultimately show ?thesis using inv by (auto simp: Let_def jobs_inv_def machine_ok_def)
qed

theorem cluster_well_typed_witness:
  "\<exists>k :: rat option cluster. \<exists>r. PendingJobs (Scheduler (coord_at k ''a'')) = [r] \<and> ModelType (job_at (Scheduler (coord_at k ''a'')) r) = Albert
    \<and> TotalQueries (job_at (Scheduler (coord_at k ''a'')) r) = 1"
proof -
  obtain k jr where k: "cluster_reachable joyful (lone_eval Emotion) (k :: rat option cluster)" "PendingJobs (Scheduler (coord_at k ''a'')) = [jr]"
    "job_Id (job_at (Scheduler (coord_at k ''a'')) jr) = ''albert:1:0''" using lone_run [of Emotion] by blast
  from cluster_well_typed [OF k(1), of "''a''"] k(2) have "ModelType (job_at (Scheduler (coord_at k ''a'')) jr) = Albert"
    "TotalQueries (job_at (Scheduler (coord_at k ''a'')) jr) = 1"
    by (simp_all add: Let_def lone_eval_def)
  with k(2) show ?thesis by blast
qed

end
