(* ===== verification/Progress.thy ===== *)
theory Progress
  imports Cluster
begin

text \<open>
  One worker is enough. The worker's query loop (\<open>idunno/worker.go\<close>) and the coordinator's answers
  (\<open>idunno/coordinator_service.go\<close>) are composed into rounds without faults, and the number of rounds that a job
  takes is bounded by the number of its open batches.
\<close>

section \<open>Rounds\<close>

text \<open>A round: the worker's request, the coordinator's answer and what the worker does with it. \<open>fetch\<close> says which
  files of a batch arrive. \<open>None\<close> is a panic of the coordinator.\<close>

definition work_round :: "'f float64 \<Rightarrow> string option \<Rightarrow> (query_reply \<Rightarrow> string list) \<Rightarrow> (string list \<Rightarrow> 'f evaluate_reply) \<Rightarrow> time
    \<Rightarrow> 'f idunno_worker \<times> 'f coordinator \<Rightarrow> ('f idunno_worker \<times> 'f coordinator) option" where
  "work_round F dns fetch evaluate now = (\<lambda>(w, c).
     (case QueryData_ask dns True True w of
        (CallQueryData addr jid p out, w1) \<Rightarrow>
          (case QueryData now now now jid p out c of
             Inl e \<Rightarrow> None
           | Inr (reply, c1) \<Rightarrow> Some (snd (QueryData_answer F reply (fetch reply) evaluate w1), c1))
      | (_, w1) \<Rightarrow> Some (w1, c)))"

primrec work_rounds :: "'f float64 \<Rightarrow> string option \<Rightarrow> (query_reply \<Rightarrow> string list) \<Rightarrow> (string list \<Rightarrow> 'f evaluate_reply) \<Rightarrow> (nat \<Rightarrow> time)
    \<Rightarrow> nat \<Rightarrow> 'f idunno_worker \<times> 'f coordinator \<Rightarrow> ('f idunno_worker \<times> 'f coordinator) option" where
  "work_rounds F dns fetch evaluate clk 0 wc = Some wc"
| "work_rounds F dns fetch evaluate clk (Suc n) wc =
     (case work_round F dns fetch evaluate (clk n) wc of
        None \<Rightarrow> None
      | Some wc1 \<Rightarrow> work_rounds F dns fetch evaluate clk n wc1)"

section \<open>The batches of a job during a round\<close>

abbreviation statuses :: "'f job \<Rightarrow> batch_status list" where "statuses j \<equiv> map Status (BatchStates j)"
abbreviation batch_ids :: "'f job \<Rightarrow> int option list" where "batch_ids j \<equiv> map (\<lambda>b. map_option BatchId (BatchInput b)) (BatchStates j)"

definition shaped :: "'f job \<Rightarrow> bool" where
  "shaped j \<longleftrightarrow> TotalQueries j = int (length (BatchStates j)) \<and> length (BatchStates j) < 2 ^ 31
     \<and> batch_ids j = map (Some \<circ> int) [0..<length (BatchStates j)]"

lemma job_ok_shaped: "job_ok eval j \<Longrightarrow> shaped j"
  by (auto simp: job_ok_def shaped_def batch_ok_def intro!: nth_equalityI)

lemma shaped_id:
  assumes "shaped j" and "i < length (BatchStates j)"
  obtains inp where "BatchInput (BatchStates j ! i) = Some inp" and "BatchId inp = int i"
proof -
  have "batch_ids j ! i = Some (int i)" using assms by (simp add: shaped_def del: nth_map) simp
  with assms(2) that show ?thesis by auto
qed

lemma modify_batch_lists:
  "statuses (modify_batch i g j) = (statuses j)[i := Status (g (BatchStates j ! i))]"
  "batch_ids (modify_batch i g j) = (batch_ids j)[i := map_option BatchId (BatchInput (g (BatchStates j ! i)))]"
  "length (BatchStates (modify_batch i g j)) = length (BatchStates j)"
  by (simp_all add: modify_batch_def map_update)

lemma shaped_modify_batch:
  assumes "shaped j" and "\<And>b. map_option BatchId (BatchInput (g b)) = map_option BatchId (BatchInput b)"
  shows "shaped (modify_batch i g j)"
proof (cases "i < length (BatchStates j)")
  case True
  then have "(batch_ids j)[i := map_option BatchId (BatchInput (g (BatchStates j ! i)))] = batch_ids j"
    by (simp add: assms(2) list_update_same_conv)
  with assms(1) show ?thesis by (simp add: shaped_def modify_batch_lists)
qed (use assms(1) in \<open>simp add: modify_batch_def list_update_beyond\<close>)

lemma record_output_status:
  assumes "shaped j" and "bo_BatchId out = int i" and "i < length (BatchStates j)"
  shows "shaped (record_output t out j)" and "statuses (record_output t out j) = (statuses j)[i := Completed]"
    and "job_Id (record_output t out j) = job_Id j"
    and "set ((statuses j)[i := Completed]) \<subseteq> {Completed} \<Longrightarrow> \<not> CompletedQueries (record_output t out j) < TotalQueries (record_output t out j)"
proof -
  let ?j = "modify_batch i (\<lambda>b. b\<lparr>BatchOutput := Some out, Status := Completed, ReceiveTime := Some t\<rparr>) j"
  have r: "record_output t out j = ?j\<lparr>CompletedQueries := to_int32 (GetCompletedBatchCount ?j)\<rparr>"
    by (simp add: record_output_def assms(2) Let_def)
  have s: "shaped ?j" by (rule shaped_modify_batch [OF assms(1)]) simp
  then show "shaped (record_output t out j)" by (simp add: r shaped_def)
  show st: "statuses (record_output t out j) = (statuses j)[i := Completed]" by (simp add: r modify_batch_lists)
  show "job_Id (record_output t out j) = job_Id j" by (simp add: r)
  assume "set ((statuses j)[i := Completed]) \<subseteq> {Completed}"
  then have "set (statuses ?j) \<subseteq> {Completed}" by (simp add: modify_batch_lists)
  then have "\<forall>b \<in> set (BatchStates ?j). Status b = Completed" by auto
  then have "GetCompletedBatchCount ?j = int (length (BatchStates ?j))" by (simp add: GetCompletedBatchCount_def filter_True)
  with s show "\<not> CompletedQueries (record_output t out j) < TotalQueries (record_output t out j)"
    by (simp add: r shaped_def to_int32_id)
qed

lemma next_batch_status:
  assumes shape: "shaped (job_at s jr)" and run: "next_batch now wr jr s = (reply, s')"
  shows "shaped (job_at s' jr)" and "same_maps s s'" and "w_JobId (worker_at s' r) = w_JobId (worker_at s r)"
    and "(Available \<notin> set (statuses (job_at s jr)) \<and> (\<exists>isF. reply = QueryReply None isF) \<and> statuses (job_at s' jr) = statuses (job_at s jr))
      \<or> (\<exists>i inp isF. i < length (BatchStates (job_at s jr)) \<and> statuses (job_at s jr) ! i = Available \<and> reply = QueryReply (Some inp) isF
           \<and> BatchId inp = int i \<and> statuses (job_at s' jr) = (statuses (job_at s jr))[i := InProgress])"
proof -
  let ?j = "job_at s jr" let ?i = "find_index (\<lambda>b. Status b = Available) (BatchStates ?j)"
  show m: "same_maps s s'" using next_batch_quiet [OF run, of undefined] by (simp add: quiet_def)
  show "w_JobId (worker_at s' r) = w_JobId (worker_at s r)"
    using run by (auto simp: next_batch_def Let_def put_worker_def put_job_def split: prod.splits)
  have "shaped (job_at s' jr) \<and> ((Available \<notin> set (statuses ?j) \<and> (\<exists>isF. reply = QueryReply None isF) \<and> statuses (job_at s' jr) = statuses ?j)
      \<or> (\<exists>i inp isF. i < length (BatchStates ?j) \<and> statuses ?j ! i = Available \<and> reply = QueryReply (Some inp) isF
           \<and> BatchId inp = int i \<and> statuses (job_at s' jr) = (statuses ?j)[i := InProgress]))"
  proof (cases "?i = -1")
    case True
    then have "Available \<notin> set (statuses ?j)" by auto
    moreover have "FetchBatchInput now ?j = (None, ?j)" using True by (simp add: FetchBatchInput_def)
    ultimately show ?thesis using run shape by (auto simp: next_batch_def Let_def put_worker_def put_job_def)
  next
    case False
    then have ex: "\<exists>b \<in> set (BatchStates ?j). Status b = Available" by simp
    obtain n where n: "?i = int n" "n < length (BatchStates ?j)" "Status (BatchStates ?j ! n) = Available"
      using find_index_some [OF ex] by (metis int_nat_eq of_nat_less_iff)
    let ?ja = "modify_batch n (\<lambda>b. b\<lparr>Status := InProgress, QueryTime := Some now\<rparr>) ?j"
    let ?jb = "modify_batch n (\<lambda>b. b\<lparr>BatchInput := map_option (\<lambda>inp. inp\<lparr>Inputs := ValidateDatasetInputs (Dataset ?ja) (Inputs inp)\<rparr>) (BatchInput b)\<rparr>) ?ja"
    have f: "FetchBatchInput now ?j = (Some n, ?ja)" using False by (simp add: FetchBatchInput_def n(1))
    have at: "job_at s' jr = ?jb" and reply: "reply = QueryReply (BatchInput (BatchStates ?jb ! n)) (ContainFilenames (Dataset ?jb))"
      using run by (auto simp: next_batch_def f Let_def put_worker_def put_job_def)
    have s0: "shaped ?ja" by (rule shaped_modify_batch [OF shape]) simp
    have s1: "shaped ?jb" by (rule shaped_modify_batch [OF s0]) (simp add: option.map_comp comp_def)
    then obtain inp where inp: "BatchInput (BatchStates ?jb ! n) = Some inp" "BatchId inp = int n"
      using shaped_id [of ?jb n] n by (auto simp: modify_batch_lists(3))
    have "statuses ?jb = (statuses ?j)[n := InProgress]"
      using n by (simp add: modify_batch_lists) (simp add: modify_batch_def)
    with s1 n inp reply show ?thesis by (auto simp: at)
  qed
  then show "shaped (job_at s' jr)"
    and "(Available \<notin> set (statuses ?j) \<and> (\<exists>isF. reply = QueryReply None isF) \<and> statuses (job_at s' jr) = statuses ?j)
      \<or> (\<exists>i inp isF. i < length (BatchStates ?j) \<and> statuses ?j ! i = Available \<and> reply = QueryReply (Some inp) isF
           \<and> BatchId inp = int i \<and> statuses (job_at s' jr) = (statuses ?j)[i := InProgress])" by blast+
qed

section \<open>The coordinator's side of a round\<close>

text \<open>The worker at \<open>addr\<close> works for the active job \<open>jid\<close>.\<close>

definition serving :: "string \<Rightarrow> string \<Rightarrow> nat \<Rightarrow> nat \<Rightarrow> 'f scheduler \<Rightarrow> bool" where
  "serving jid addr jr wr s \<longleftrightarrow> GetWorker addr s = Some wr \<and> GetJob jid s = Some jr \<and> w_JobId (worker_at s wr) = jid
     \<and> shaped (job_at s jr) \<and> job_Id (job_at s jr) = jid"

definition waits_for_flush :: "string \<Rightarrow> 'f scheduler \<Rightarrow> bool" where
  "waits_for_flush jid s \<longleftrightarrow> (\<exists>q \<in> set (PendingJobs s). job_Id (job_at s q) = jid)"

lemma waits_for_flush_next:
  assumes "next_batch now wr jr s = (reply, s')"
  shows "waits_for_flush jid s' \<longleftrightarrow> waits_for_flush jid s"
  using next_batch_jobs [OF assms] by (simp add: waits_for_flush_def)

text \<open>An output that is submitted completes its batch, and the job when it was the last one.\<close>

lemma OnReceiveBatchOutput_round:
  assumes s: "serving jid (Address p) jr wr s" and i: "bo_BatchId out = int i" "i < length (BatchStates (job_at s jr))"
  obtains s' where "OnReceiveBatchOutput t1 t2 jid p out s = Inr s'" and "serving jid (Address p) jr wr s'"
    and "statuses (job_at s' jr) = (statuses (job_at s jr))[i := Completed]"
    and "set (statuses (job_at s' jr)) \<subseteq> {Completed} \<Longrightarrow> waits_for_flush jid s'"
proof -
  have shape: "shaped (job_at s jr)" and maps: "GetJob jid s = Some jr" "GetWorker (Address p) s = Some wr" using s by (simp_all add: serving_def)
  note rec = record_output_status [OF shape i, of t1]
  let ?j = "record_output t1 out (job_at s jr)"
  let ?s = "put_worker wr ((worker_at s wr)\<lparr>LastQueryTime := t2, CurrBatchInput := None\<rparr>) (put_job jr ?j s)"
  let ?quiet = "CompletedQueries ?j < TotalQueries ?j \<or> (\<exists>q \<in> set (PendingJobs s). job_Id (job_at ?s q) = jid)"
  let ?s' = "if ?quiet then ?s else ?s\<lparr>PendingJobs := PendingJobs s @ [jr]\<rparr>"
  have run: "OnReceiveBatchOutput t1 t2 jid p out s = Inr ?s'" using maps i by (simp add: OnReceiveBatchOutput_eq Let_def)
  have at: "job_at ?s' jr = ?j" by (simp add: put_worker_def put_job_def)
  have "serving jid (Address p) jr wr ?s'"
    using s rec(1,3) by (simp add: serving_def put_worker_def put_job_def GetWorker_def GetJob_def)
  moreover have "waits_for_flush jid ?s'" if "set (statuses ?j) \<subseteq> {Completed}"
  proof -
    have "\<not> CompletedQueries ?j < TotalQueries ?j" using rec(4) that by (simp add: rec(2))
    moreover have "job_Id ?j = jid" using rec(3) s by (simp add: serving_def)
    ultimately show ?thesis by (auto simp: waits_for_flush_def put_worker_def put_job_def)
  qed
  ultimately show ?thesis using run at rec(2) by (intro that [of ?s']) simp_all
qed

lemma next_batch_serving: "serving jid (Address p) jr wr s \<Longrightarrow> next_batch now wr jr s = (reply, s') \<Longrightarrow> serving jid (Address p) jr wr s'"
  using next_batch_status(1-3) [of s jr now wr reply s'] next_batch_jobs(2) [of now wr jr s reply s']
  by (simp add: serving_def GetWorker_def GetJob_def same_maps_def)

lemma QueryData_serving:
  assumes s: "serving jid (Address p) jr wr (Scheduler c)" and id: "jid \<noteq> EMPTY_STRING"
    and out: "(case out of None \<Rightarrow> Inr (Scheduler c) | Some o' \<Rightarrow> OnReceiveBatchOutput t1 t2 jid p o' (Scheduler c)) = Inr s1"
    and s1: "serving jid (Address p) jr wr s1"
  obtains reply s2 where "next_batch t3 wr jr s1 = (reply, s2)" and "QueryData t1 t2 t3 jid p out c = Inr (reply, (OnBecomeCoordinator c)\<lparr>Scheduler := s2\<rparr>)"
proof -
  obtain reply s2 where n: "next_batch t3 wr jr s1 = (reply, s2)" by force
  have "Scheduler (OnBecomeCoordinator c) = Scheduler c" by (simp add: OnBecomeCoordinator_def)
  then have "QueryData t1 t2 t3 jid p out c = Inr (reply, (OnBecomeCoordinator c)\<lparr>Scheduler := s2\<rparr>)"
    using s id out s1 n by (cases out; simp add: QueryData_def Let_def serving_def Idle_def)
  with n show ?thesis by (rule that)
qed

section \<open>The worker's side of a round\<close>

text \<open>A worker that can reach the leader, on a machine whose address is \<open>addr\<close>.\<close>

definition asking :: "string \<Rightarrow> string \<Rightarrow> 'f idunno_worker \<Rightarrow> bool" where
  "asking jid addr w \<longleftrightarrow> iw_JobId w = jid \<and> Address (rs_Process (iw_Ring w)) = addr"

lemma QueryData_ask_asking:
  assumes "asking jid addr w" and "jid \<noteq> EMPTY_STRING" and "dns \<noteq> None"
  obtains a p w1 where "QueryData_ask dns True True w = (CallQueryData a jid p (iw_BatchOutput w), w1)" and "asking jid addr w1"
    and "Address p = addr" and "iw_BatchOutput w1 = iw_BatchOutput w"
proof -
  have "fst (LookupLeader dns (iw_Ring w)) \<noteq> None" using assms(3) by (simp add: LookupLeader_def Let_def)
  then obtain a ring where l: "LookupLeader dns (iw_Ring w) = (Some a, ring)" by (cases "LookupLeader dns (iw_Ring w)") auto
  then have "rs_Process ring = rs_Process (iw_Ring w)" using LookupLeader_Process [of dns "iw_Ring w"] by simp
  with l assms that [of a "rs_Process ring" "w\<lparr>iw_Ring := ring\<rparr>"] show ?thesis
    by (simp add: QueryData_ask_def iw_CreateCoordinatorClient_def CreateInferenceClient_def asking_def)
qed

lemma QueryData_answer_output:
  assumes "\<And>xs. \<exists>rs m. evaluate xs = EvaluateReply OK rs m"
  obtains out where "snd (QueryData_answer F (QueryReply (Some inp) isF) fetched evaluate w) = w\<lparr>iw_BatchOutput := Some out\<rparr>"
    and "bo_BatchId out = BatchId inp"
proof (cases "Inputs inp = []")
  case True
  show ?thesis by (rule that [of "\<lparr>bo_BatchId = BatchId inp, Results = [], Metric = f_of_int F 0\<rparr>"]) (simp_all add: QueryData_answer_def True)
next
  case False
  obtain rs m where "evaluate (model_inputs isF (Inputs inp) fetched w) = EvaluateReply OK rs m" using assms by blast
  with False show ?thesis
    by (intro that [of "\<lparr>bo_BatchId = BatchId inp, Results = rs, Metric = m\<rparr>"]) (simp_all add: QueryData_answer_def)
qed

section \<open>A job in rounds\<close>

abbreviation open_batches :: "nat \<Rightarrow> 'f scheduler \<Rightarrow> nat" where
  "open_batches jr s \<equiv> count (mset (statuses (job_at s jr))) Available"
abbreviation running_batches :: "nat \<Rightarrow> 'f scheduler \<Rightarrow> nat" where
  "running_batches jr s \<equiv> count (mset (statuses (job_at s jr))) InProgress"

text \<open>Between two rounds: the worker has the output of the only batch in progress, and \<open>m\<close> batches are open.\<close>

definition working :: "string \<Rightarrow> string \<Rightarrow> nat \<Rightarrow> nat \<Rightarrow> nat \<Rightarrow> 'f idunno_worker \<times> 'f coordinator \<Rightarrow> bool" where
  "working jid addr jr wr m = (\<lambda>(w, c). asking jid addr w \<and> serving jid addr jr wr (Scheduler c)
     \<and> open_batches jr (Scheduler c) = m \<and> running_batches jr (Scheduler c) = 1
     \<and> (\<exists>out i. iw_BatchOutput w = Some out \<and> bo_BatchId out = int i \<and> i < length (BatchStates (job_at (Scheduler c) jr))
          \<and> statuses (job_at (Scheduler c) jr) ! i = InProgress))"

definition done_waiting :: "string \<Rightarrow> string \<Rightarrow> nat \<Rightarrow> nat \<Rightarrow> 'f idunno_worker \<times> 'f coordinator \<Rightarrow> bool" where
  "done_waiting jid addr jr wr = (\<lambda>(w, c). asking jid addr w \<and> serving jid addr jr wr (Scheduler c)
     \<and> set (statuses (job_at (Scheduler c) jr)) \<subseteq> {Completed} \<and> waits_for_flush jid (Scheduler c))"

lemma only_completed: "Available \<notin> set xs \<Longrightarrow> InProgress \<notin> set xs \<Longrightarrow> set xs \<subseteq> {Completed}"
  by (metis batch_status.exhaust singletonI subsetI)

text \<open>What follows in a round once no batch is in progress: the next open batch is handed out and evaluated.\<close>

lemma round_rest:
  assumes w: "asking jid addr w" and ask: "QueryData_ask dns True True w = (CallQueryData a jid p out, w1)" "asking jid addr w1" "Address p = addr"
    and id: "jid \<noteq> EMPTY_STRING" and s: "serving jid addr jr wr (Scheduler c)"
    and out: "(case out of None \<Rightarrow> Inr (Scheduler c) | Some o' \<Rightarrow> OnReceiveBatchOutput now now jid p o' (Scheduler c)) = Inr s1"
    and s1: "serving jid addr jr wr s1" "running_batches jr s1 = 0"
    and last: "open_batches jr s1 = 0 \<Longrightarrow> waits_for_flush jid s1"
    and runner: "\<And>xs. \<exists>rs m. evaluate xs = EvaluateReply OK rs m"
  obtains wc where "work_round F dns fetch evaluate now (w, c) = Some wc"
    and "if open_batches jr s1 = 0 then done_waiting jid addr jr wr wc else working jid addr jr wr (open_batches jr s1 - 1) wc"
proof -
  obtain reply s2 where n: "next_batch now wr jr s1 = (reply, s2)"
      "QueryData now now now jid p out c = Inr (reply, (OnBecomeCoordinator c)\<lparr>Scheduler := s2\<rparr>)"
    using QueryData_serving [where jid = jid and p = p and jr = jr and wr = wr and c = c and out = out and ?t1.0 = now and ?t2.0 = now and ?t3.0 = now and ?s1.0 = s1] s id out s1(1) ask(3) by metis
  let ?w = "snd (QueryData_answer F reply (fetch reply) evaluate w1)"
  have run: "work_round F dns fetch evaluate now (w, c) = Some (?w, (OnBecomeCoordinator c)\<lparr>Scheduler := s2\<rparr>)"
    by (simp add: work_round_def ask(1) n(2))
  have shape: "shaped (job_at s1 jr)" using s1(1) by (simp add: serving_def)
  note st = next_batch_status [OF shape n(1)]
  have s2: "serving jid addr jr wr s2" using next_batch_serving [of jid p jr wr s1 now reply s2] s1(1) n(1) ask(3) by simp
  show ?thesis
  proof (cases "open_batches jr s1 = 0")
    case True
    then have none: "Available \<notin> set (statuses (job_at s1 jr))" by (simp add: count_eq_zero_iff)
    have "InProgress \<notin> set (statuses (job_at s1 jr))" using s1(2) by (simp add: count_eq_zero_iff)
    with none have "set (statuses (job_at s1 jr)) \<subseteq> {Completed}" by (rule only_completed)
    moreover obtain isF where "reply = QueryReply None isF" "statuses (job_at s2 jr) = statuses (job_at s1 jr)"
      using st(4) none nth_mem [of _ "statuses (job_at s1 jr)"] by (metis length_map)
    moreover have "waits_for_flush jid s2" using last [OF True] waits_for_flush_next [OF n(1)] by simp
    ultimately have "done_waiting jid addr jr wr (?w, (OnBecomeCoordinator c)\<lparr>Scheduler := s2\<rparr>)"
      using s2 ask(2) by (simp add: done_waiting_def QueryData_answer_def del: set_map)
    then show ?thesis by (intro that [OF run]) (simp only: if_P [OF True])
  next
    case False
    then have "Available \<in> set (statuses (job_at s1 jr))" by (simp add: count_eq_zero_iff)
    then obtain i inp isF where i: "i < length (BatchStates (job_at s1 jr))" "statuses (job_at s1 jr) ! i = Available"
        "reply = QueryReply (Some inp) isF" "BatchId inp = int i" "statuses (job_at s2 jr) = (statuses (job_at s1 jr))[i := InProgress]"
      using st(4) by blast
    obtain o2 where o2: "snd (QueryData_answer F (QueryReply (Some inp) isF) (fetch reply) evaluate w1) = w1\<lparr>iw_BatchOutput := Some o2\<rparr>" "bo_BatchId o2 = BatchId inp"
      by (rule QueryData_answer_output [OF runner])
    then have o2: "?w = w1\<lparr>iw_BatchOutput := Some o2\<rparr>" "bo_BatchId o2 = int i" by (simp_all only: i(3,4))
    have "mset (statuses (job_at s2 jr)) = add_mset InProgress (mset (statuses (job_at s1 jr)) - {#Available#})"
      using i(1,2) by (simp only: i(5)) (simp add: mset_update)
    then have "open_batches jr s2 = open_batches jr s1 - 1" "running_batches jr s2 = 1" using s1(2) by simp_all
    moreover have "length (BatchStates (job_at s2 jr)) = length (BatchStates (job_at s1 jr))" using i(5) by (metis length_list_update length_map)
    moreover have "statuses (job_at s2 jr) ! i = InProgress" using i(1) by (simp only: i(5)) simp
    ultimately have "working jid addr jr wr (open_batches jr s1 - 1) (?w, (OnBecomeCoordinator c)\<lparr>Scheduler := s2\<rparr>)"
      using s2 ask(2) o2 i(1) by (simp add: working_def asking_def del: One_nat_def)
    then show ?thesis by (intro that [OF run]) (simp only: if_not_P [OF False])
  qed
qed

lemma work_round_working:
  assumes work: "working jid addr jr wr m (w, c)" and id: "jid \<noteq> EMPTY_STRING" and dns: "dns \<noteq> None"
    and runner: "\<And>xs. \<exists>rs m. evaluate xs = EvaluateReply OK rs m"
  obtains wc where "work_round F dns fetch evaluate now (w, c) = Some wc"
    and "if m = 0 then done_waiting jid addr jr wr wc else working jid addr jr wr (m - 1) wc"
proof -
  let ?s = "Scheduler c"
  have w: "asking jid addr w" and s: "serving jid addr jr wr ?s" and m: "open_batches jr ?s = m" "running_batches jr ?s = 1"
    using work by (simp_all add: working_def)
  obtain out i where out: "iw_BatchOutput w = Some out" "bo_BatchId out = int i" "i < length (BatchStates (job_at ?s jr))"
      "statuses (job_at ?s jr) ! i = InProgress"
    using work by (auto simp: working_def)
  obtain a p w1 where ask: "QueryData_ask dns True True w = (CallQueryData a jid p (iw_BatchOutput w), w1)" "asking jid addr w1" "Address p = addr"
    by (rule QueryData_ask_asking [OF w id dns])
  have sp: "serving jid (Address p) jr wr ?s" using s by (simp add: ask(3))
  obtain s1 where s1: "OnReceiveBatchOutput now now jid p out ?s = Inr s1" "serving jid (Address p) jr wr s1"
      "statuses (job_at s1 jr) = (statuses (job_at ?s jr))[i := Completed]"
      "set (statuses (job_at s1 jr)) \<subseteq> {Completed} \<Longrightarrow> waits_for_flush jid s1"
    using OnReceiveBatchOutput_round [OF sp out(2,3)] by metis
  have "mset (statuses (job_at s1 jr)) = add_mset Completed (mset (statuses (job_at ?s jr)) - {#InProgress#})"
    using out(3,4) by (simp only: s1(3)) (simp add: mset_update)
  then have cnt: "open_batches jr s1 = m" "running_batches jr s1 = 0" using m by simp_all
  have last: "waits_for_flush jid s1" if "open_batches jr s1 = 0"
    using that cnt(2) by (intro s1(4) only_completed) (simp_all add: count_eq_zero_iff)
  have "serving jid addr jr wr s1" using s1(2) by (simp add: ask(3))
  have run: "(case iw_BatchOutput w of None \<Rightarrow> Inr ?s | Some o' \<Rightarrow> OnReceiveBatchOutput now now jid p o' ?s) = Inr s1"
    by (simp add: out(1) s1(1))
  obtain wc where "work_round F dns fetch evaluate now (w, c) = Some wc"
    and "if open_batches jr s1 = 0 then done_waiting jid addr jr wr wc else working jid addr jr wr (open_batches jr s1 - 1) wc"
    by (rule round_rest [OF w ask id s run \<open>serving jid addr jr wr s1\<close> cnt(2) last runner])
  then show ?thesis unfolding cnt(1) by (rule that)
qed

lemma work_rounds_finish:
  assumes "working jid addr jr wr m wc" and "jid \<noteq> EMPTY_STRING" and "dns \<noteq> None"
    and "\<And>xs. \<exists>rs m. evaluate xs = EvaluateReply OK rs m"
  shows "\<exists>wc'. work_rounds F dns fetch evaluate clk (Suc m) wc = Some wc' \<and> done_waiting jid addr jr wr wc'"
  using assms(1)
proof (induction m arbitrary: wc)
  case 0
  obtain w c where wc: "wc = (w, c)" by (cases wc)
  obtain wc1 where "work_round F dns fetch evaluate (clk 0) (w, c) = Some wc1" "done_waiting jid addr jr wr wc1"
    using work_round_working [of jid addr jr wr 0 w c dns evaluate F fetch "clk 0"] 0 assms(2-4) wc by auto
  then show ?case by (simp add: wc)
next
  case (Suc m)
  obtain w c where wc: "wc = (w, c)" by (cases wc)
  obtain wc1 where "work_round F dns fetch evaluate (clk (Suc m)) (w, c) = Some wc1" "working jid addr jr wr m wc1"
    using work_round_working [of jid addr jr wr "Suc m" w c dns evaluate F fetch "clk (Suc m)"] Suc.prems assms(2-4) wc by auto
  with Suc.IH [of wc1] show ?case by (simp add: wc)
qed

section \<open>The job is finished\<close>

lemma reopened_count:
  "count (mset (map (\<lambda>x. if x = InProgress then Available else x) xs)) Available = length (filter (\<lambda>x. x \<noteq> Completed) xs)"
proof (induction xs)
  case (Cons x xs)
  then show ?case by (cases x) simp_all
qed simp

text \<open>After a refresh of a job whose workers hold no batch, every batch that is not completed is open.\<close>

lemma refreshed_statuses:
  assumes inv: "jobs_inv eval s" and job: "GetJob jid s = Some jr"
    and lost: "list_all (\<lambda>r. CurrBatchInput (worker_at s r) = None) (GetWorkersById jid s)"
  shows "statuses (job_at (RefreshBatchStatus s) jr) = map (\<lambda>x. if x = InProgress then Available else x) (statuses (job_at s jr))"
    and "job_Id (job_at (RefreshBatchStatus s) jr) = jid" and "same_maps s (RefreshBatchStatus s)" and "worker_at (RefreshBatchStatus s) = worker_at s"
proof -
  have id: "job_Id (job_at s jr) = jid" using jobs_inv_active [OF inv job] by simp
  have "jr \<in> set (map snd (ActiveJobs s))" using job by (force simp: GetJob_def dest: map_of_SomeD)
  then have at: "job_at (RefreshBatchStatus s) jr = refresh_job s (job_at s jr)" by (simp add: RefreshBatchStatus_eq [OF inv])
  have "refresh_batch s (GetWorkersById jid s) (i, b) = (if Status b = InProgress then b\<lparr>Status := Available\<rparr> else b)" for i b
    using lost by (auto simp: refresh_batch_def holds_batch_def list_all_iff)
  then show "statuses (job_at (RefreshBatchStatus s) jr) = map (\<lambda>x. if x = InProgress then Available else x) (statuses (job_at s jr))"
    by (auto simp: at refresh_job_def id nth_enumerate_eq intro!: nth_equalityI)
  show "job_Id (job_at (RefreshBatchStatus s) jr) = jid" by (simp add: at refresh_job_def id)
  show "same_maps s (RefreshBatchStatus s)" "worker_at (RefreshBatchStatus s) = worker_at s"
    by (simp_all add: RefreshBatchStatus_eq [OF inv] same_maps_def)
qed

text \<open>C12. A job is finished in bounded time, whatever happened before: take any state a coordinator can reach in which
  the registered workers of an active job hold no batch (they have failed and been replaced, say), refresh the
  batches once, and let one of these workers ask. Then no round panics, and after one round more than there are
  unfinished batches every batch is completed and the job is queued for its result file. (The leader can be
  reached, and the model runner answers what it is asked.)\<close>

theorem one_worker_finishes_job:
  assumes reach: "coord_reachable eval c" and job: "GetJob jid (Scheduler c) = Some jr"
    and registered: "GetWorker (Address (rs_Process (iw_Ring w))) (Scheduler c) = Some wr" "w_JobId (worker_at (Scheduler c) wr) = jid"
    and worker: "iw_JobId w = jid" "jid \<noteq> EMPTY_STRING" "iw_BatchOutput w = None" and leader: "dns \<noteq> None"
    and runner: "\<And>xs. \<exists>rs m. evaluate xs = EvaluateReply OK rs m"
    and lost: "list_all (\<lambda>r. CurrBatchInput (worker_at (Scheduler c) r) = None) (GetWorkersById jid (Scheduler c))"
    and n: "n = length (filter (\<lambda>b. Status b \<noteq> Completed) (BatchStates (job_at (Scheduler c) jr)))" "0 < n"
  shows "\<exists>w' c'. work_rounds F dns fetch evaluate clk (n + 1) (w, ic_RefreshBatchStatus c) = Some (w', c')
    \<and> list_all (\<lambda>b. Status b = Completed) (BatchStates (job_at (Scheduler c') jr))
    \<and> list_ex (\<lambda>q. job_Id (job_at (Scheduler c') q) = jid) (PendingJobs (Scheduler c'))"
proof -
  let ?s = "Scheduler c" and ?c = "ic_RefreshBatchStatus c" let ?r = "RefreshBatchStatus ?s" and ?addr = "Address (rs_Process (iw_Ring w))"
  have inv: "jobs_inv eval ?s" using coord_reachable_inv [OF reach] by (simp add: coord_inv_def)
  note ref = refreshed_statuses [OF inv job lost]
  have c: "Scheduler ?c = ?r" by (simp add: ic_RefreshBatchStatus_def map_sched_def)
  have "quiet eval ?s ?r" by (rule RefreshBatchStatus_quiet)
  then have "job_ok eval (job_at ?r jr)" using jobs_inv_active [OF quiet_jobs_inv [OF _ inv]] job ref(3) by (auto simp: GetJob_def same_maps_def)
  then have s: "serving jid ?addr jr wr ?r"
    using job registered ref(2-4) by (simp add: serving_def GetWorker_def GetJob_def same_maps_def job_ok_shaped)
  have counts: "running_batches jr ?r = 0" "open_batches jr ?r = n"
  proof -
    show "running_batches jr ?r = 0" by (simp only: ref(1)) (auto simp: count_eq_zero_iff)
    have "open_batches jr ?r = length (filter (\<lambda>x. x \<noteq> Completed) (statuses (job_at ?s jr)))"
      by (simp only: ref(1) reopened_count)
    then show "open_batches jr ?r = n" by (simp add: n(1) filter_map comp_def)
  qed
  have w: "asking jid ?addr w" by (simp add: asking_def worker(1))
  obtain a p w1 where ask: "QueryData_ask dns True True w = (CallQueryData a jid p (iw_BatchOutput w), w1)" "asking jid ?addr w1" "Address p = ?addr"
    by (rule QueryData_ask_asking [OF w worker(2) leader])
  have run: "(case iw_BatchOutput w of None \<Rightarrow> Inr ?r | Some o' \<Rightarrow> OnReceiveBatchOutput (clk n) (clk n) jid p o' ?r) = Inr ?r" by (simp add: worker(3))
  have s': "serving jid ?addr jr wr (Scheduler ?c)" using s by (simp add: c)
  have last: "waits_for_flush jid ?r" if "open_batches jr ?r = 0" using that counts(2) n(2) by simp
  obtain wc where wc: "work_round F dns fetch evaluate (clk n) (w, ?c) = Some wc"
    "if open_batches jr (Scheduler ?c) = 0 then done_waiting jid ?addr jr wr wc else working jid ?addr jr wr (open_batches jr (Scheduler ?c) - 1) wc"
    by (rule round_rest [OF w ask worker(2) s' run [folded c] s' counts(1) [folded c] last [folded c] runner])
  have "working jid ?addr jr wr (n - 1) wc" using wc(2) n(2) unfolding c counts(2) by simp
  from work_rounds_finish [OF this worker(2) leader runner]
  have "\<exists>wc'. work_rounds F dns fetch evaluate clk (Suc (n - 1)) wc = Some wc' \<and> done_waiting jid ?addr jr wr wc'" .
  then obtain wc' where "work_rounds F dns fetch evaluate clk n wc = Some wc'" "done_waiting jid ?addr jr wr wc'"
    using n(2) by auto
  moreover obtain w' c' where "wc' = (w', c')" by (cases wc')
  ultimately show ?thesis using wc(1)
    by (auto simp: done_waiting_def waits_for_flush_def list_all_iff list_ex_iff image_subset_iff)
qed

theorem one_worker_finishes_job_witness:
  "\<exists>w' c'. work_rounds exact_float (Some ''x'') (\<lambda>_. []) (\<lambda>xs. EvaluateReply OK (joyful Albert xs) (Some 1)) (\<lambda>_. 5) 2
      (lone_worker\<lparr>iw_JobId := ''albert:1:0''\<rparr>, ic_RefreshBatchStatus (Reschedule_reply 0 (Some OK) ''albert:1:0'' 0 (lone_coordinator Emotion))) = Some (w', c')
    \<and> list_ex (\<lambda>q. job_Id (job_at (Scheduler c') q) = ''albert:1:0'') (PendingJobs (Scheduler c'))"
proof -
  let ?c = "Reschedule_reply 0 (Some OK) ''albert:1:0'' 0 (lone_coordinator Emotion)" and ?w = "lone_worker\<lparr>iw_JobId := ''albert:1:0''\<rparr>"
  have reach: "coord_reachable (lone_eval Emotion) ?c" by (rule coord_reachable.step [OF lone_reachable coord_step.reply])
  have maps: "GetJob ''albert:1:0'' (Scheduler ?c) = Some 0" "GetWorker (Address (rs_Process (iw_Ring ?w))) (Scheduler ?c) = Some 0"
    "w_JobId (worker_at (Scheduler ?c) 0) = ''albert:1:0''" "job_at (Scheduler ?c) 0 = lone_job Emotion"
    "list_all (\<lambda>r. CurrBatchInput (worker_at (Scheduler ?c) r) = None) (GetWorkersById ''albert:1:0'' (Scheduler ?c))"
    by (simp_all add: Reschedule_reply_def map_sched_def GetJob_def GetWorker_def GetWorkersById_def lone_coordinator_maps put_worker_def
        lone_worker_def NewRingServer_def example_worker_def Address_def)
  have "1 = length (filter (\<lambda>b. Status b \<noteq> Completed) (BatchStates (job_at (Scheduler ?c) 0)))"
    by (simp add: maps(4) lone_job_batches new_batch_def)
  note run = one_worker_finishes_job [OF reach maps(1-3) _ _ _ _ _ maps(5) this]
  have "\<exists>w' c'. work_rounds exact_float (Some ''x'') (\<lambda>_. []) (\<lambda>xs. EvaluateReply OK (joyful Albert xs) (Some 1)) (\<lambda>_. 5) (1 + 1)
      (?w, ic_RefreshBatchStatus ?c) = Some (w', c') \<and> list_all (\<lambda>b. Status b = Completed) (BatchStates (job_at (Scheduler c') 0))
      \<and> list_ex (\<lambda>q. job_Id (job_at (Scheduler c') q) = ''albert:1:0'') (PendingJobs (Scheduler c'))"
    by (rule run) (simp_all add: EMPTY_STRING_def lone_worker_def)
  then show ?thesis unfolding one_add_one by blast
qed

end
